(* ===== verification/Prelude.thy ===== *)
theory Prelude
  imports Main "HOL-Library.Word"
begin

text \<open>
  What every component of the client model shares: results of code that may throw
  (\<open>'e + 'a\<close>, \<open>Inl\<close> for a thrown value), the loop that stops at the first throw,
  JavaScript's insertion-ordered \<open>Map\<close> as an association list, decimal printing of
  array indices for error messages, and the collections of facts that the component
  proofs rewrite with.
\<close>

named_theorems cmp_simps "unfolding rules of the comparison functions"
named_theorems frame_simps "fields that an operation does not write"
named_theorems inv_intros "operations that keep an invariant"

type_synonym byte = "8 word"

section \<open>Results of code that may throw\<close>

definition and_then :: "'e + 'a \<Rightarrow> ('a \<Rightarrow> 'e + 'b) \<Rightarrow> 'e + 'b" where
  "and_then r f = (case r of Inl e \<Rightarrow> Inl e | Inr x \<Rightarrow> f x)"

lemma and_then_simps [simp]:
  "and_then (Inl e) f = Inl e"
  "and_then (Inr x) f = f x"
  by (simp_all add: and_then_def)

lemma and_then_eq_Inr [simp]: "and_then r f = Inr y \<longleftrightarrow> (\<exists>x. r = Inr x \<and> f x = Inr y)"
  by (cases r) simp_all

lemma and_then_eq_Inl: "and_then r f = Inl e \<longleftrightarrow> r = Inl e \<or> (\<exists>x. r = Inr x \<and> f x = Inl e)"
  by (cases r) simp_all

lemma and_then_cong [fundef_cong]:
  "r = r' \<Longrightarrow> (\<And>x. r' = Inr x \<Longrightarrow> f x = g x) \<Longrightarrow> and_then r f = and_then r' g"
  by (cases r') simp_all

text \<open>
  \<open>traverse f xs\<close> is a loop (or an array \<open>map\<close>) whose body may throw: the first throw
  ends it.
\<close>

fun traverse :: "('a \<Rightarrow> 'e + 'b) \<Rightarrow> 'a list \<Rightarrow> 'e + 'b list" where
  "traverse f [] = Inr []"
| "traverse f (x # xs) = and_then (f x) (\<lambda>y. and_then (traverse f xs) (\<lambda>ys. Inr (y # ys)))"

lemma traverse_cong [fundef_cong]:
  "xs = ys \<Longrightarrow> (\<And>x. x \<in> set ys \<Longrightarrow> f x = g x) \<Longrightarrow> traverse f xs = traverse g ys"
  by (induction ys arbitrary: xs) (auto intro!: and_then_cong)

lemma traverse_Inr: "(\<And>x. x \<in> set xs \<Longrightarrow> f x = Inr (g x)) \<Longrightarrow> traverse f xs = Inr (map g xs)"
  by (induction xs) simp_all

lemma traverse_length: "traverse f xs = Inr ys \<Longrightarrow> length ys = length xs"
  by (induction xs arbitrary: ys) auto

lemma traverse_eq_Inr:
  "traverse f xs = Inr ys \<longleftrightarrow> list_all2 (\<lambda>x y. f x = Inr y) xs ys"
  by (induction xs arbitrary: ys) (auto simp: list_all2_Cons1)

section \<open>JavaScript's Map: insertion-ordered association lists\<close>

type_synonym ('k, 'v) omap = "('k \<times> 'v) list"

definition om_get :: "('k, 'v) omap \<Rightarrow> 'k \<Rightarrow> 'v option" where
  "om_get m k = map_of m k"

text \<open>\<open>Map.prototype.set\<close>: an existing key keeps its place, a new one goes last.\<close>

fun om_set :: "('k, 'v) omap \<Rightarrow> 'k \<Rightarrow> 'v \<Rightarrow> ('k, 'v) omap" where
  "om_set [] k v = [(k, v)]"
| "om_set ((k', v') # m) k v = (if k' = k then (k, v) # m else (k', v') # om_set m k v)"

definition om_delete :: "('k, 'v) omap \<Rightarrow> 'k \<Rightarrow> ('k, 'v) omap" where
  "om_delete m k = filter (\<lambda>(k', _). k' \<noteq> k) m"

definition om_keys :: "('k, 'v) omap \<Rightarrow> 'k list" where
  "om_keys m = map fst m"

definition om_wf :: "('k, 'v) omap \<Rightarrow> bool" where
  "om_wf m \<longleftrightarrow> distinct (map fst m)"

lemma om_get_simps [simp]:
  "om_get [] k = None"
  "om_get ((k', v) # m) k = (if k' = k then Some v else om_get m k)"
  by (auto simp: om_get_def)

lemma om_get_set [simp]: "om_get (om_set m k v) k' = (if k' = k then Some v else om_get m k')"
  by (induction m) auto

lemma om_set_fresh: "k \<notin> fst ` set m \<Longrightarrow> om_set m k v = m @ [(k, v)]"
  by (induction m) auto

lemma om_set_append: "k \<notin> fst ` set m \<Longrightarrow> om_set (m @ m') k v = m @ om_set m' k v"
  by (induction m) auto

lemma keys_om_set:
  "map fst (om_set m k v) = (if k \<in> set (map fst m) then map fst m else map fst m @ [k])"
proof (induction m)
  case (Cons p m)
  then show ?case by (cases p) (simp del: set_map)
qed simp

lemma set_keys_om_set [simp]: "fst ` set (om_set m k v) = insert k (fst ` set m)"
proof -
  have "set (map fst (om_set m k v)) = insert k (set (map fst m))"
    unfolding keys_om_set by auto
  then show ?thesis by simp
qed

lemma om_wf_set [simp, inv_intros]: "om_wf m \<Longrightarrow> om_wf (om_set m k v)"
  unfolding om_wf_def keys_om_set by auto

lemma om_wf_Nil [simp]: "om_wf []"
  by (simp add: om_wf_def)

lemma om_wf_Cons [simp]: "om_wf ((k, v) # m) \<longleftrightarrow> k \<notin> fst ` set m \<and> om_wf m"
  by (simp add: om_wf_def)

lemma om_wf_delete [simp, inv_intros]: "om_wf m \<Longrightarrow> om_wf (om_delete m k)"
  unfolding om_wf_def om_delete_def by (induction m) auto

lemma om_get_delete [simp]: "om_get (om_delete m k) k' = (if k' = k then None else om_get m k')"
  unfolding om_delete_def by (induction m) auto

lemma om_get_None_iff: "om_get m k = None \<longleftrightarrow> k \<notin> fst ` set m"
  by (simp add: om_get_def map_of_eq_None_iff)

lemma om_get_SomeD: "om_get m k = Some v \<Longrightarrow> (k, v) \<in> set m"
  by (simp add: om_get_def map_of_SomeD)

lemma om_get_in_set: "om_wf m \<Longrightarrow> (k, v) \<in> set m \<Longrightarrow> om_get m k = Some v"
  by (simp add: om_get_def om_wf_def)

lemma om_delete_absent: "om_get m k = None \<Longrightarrow> om_delete m k = m"
  unfolding om_delete_def by (induction m) (auto split: if_splits)

lemma keys_om_delete: "fst ` set (om_delete m k) = fst ` set m - {k}"
  by (auto simp: om_delete_def image_iff)

section \<open>The contract of a keyed table\<close>

text \<open>
  Several components keep a table from keys to values and rely on no more than this: what
  was stored is found, other keys are unaffected, and every operation keeps the table well
  formed. The client's facts about runs of insertions are proved once here.
\<close>

locale keyed_table =
  fixes empty_t :: "'t"
    and lookup_t :: "'t \<Rightarrow> 'k \<Rightarrow> 'v option"
    and insert_t :: "'t \<Rightarrow> 'k \<Rightarrow> 'v \<Rightarrow> 't"
    and delete_t :: "'t \<Rightarrow> 'k \<Rightarrow> 't"
    and inv_t :: "'t \<Rightarrow> bool"
  assumes lookup_empty: "lookup_t empty_t k = None"
    and inv_empty: "inv_t empty_t"
    and lookup_insert: "inv_t t \<Longrightarrow> lookup_t (insert_t t k v) k' = (if k' = k then Some v else lookup_t t k')"
    and lookup_delete: "inv_t t \<Longrightarrow> lookup_t (delete_t t k) k' = (if k' = k then None else lookup_t t k')"
    and inv_insert: "inv_t t \<Longrightarrow> inv_t (insert_t t k v)"
    and inv_delete: "inv_t t \<Longrightarrow> inv_t (delete_t t k)"
begin

definition put_all :: "'t \<Rightarrow> ('k \<times> 'v) list \<Rightarrow> 't" where
  "put_all t kvs = foldl (\<lambda>t (k, v). insert_t t k v) t kvs"

definition apply_ops :: "'t \<Rightarrow> ('k \<times> 'v option) list \<Rightarrow> 't" where
  "apply_ops t ops =
     foldl (\<lambda>t (k, w). case w of Some v \<Rightarrow> insert_t t k v | None \<Rightarrow> delete_t t k) t ops"

lemma inv_put_all: "inv_t t \<Longrightarrow> inv_t (put_all t kvs)"
  unfolding put_all_def by (induction kvs arbitrary: t) (auto simp: inv_insert)

lemma lookup_put_all:
  "inv_t t \<Longrightarrow> lookup_t (put_all t kvs) k =
     (case map_of (rev kvs) k of Some v \<Rightarrow> Some v | None \<Rightarrow> lookup_t t k)"
  unfolding put_all_def
  by (induction kvs arbitrary: t)
    (auto simp: inv_insert lookup_insert map_add_def split: option.splits)

lemma inv_apply_ops: "inv_t t \<Longrightarrow> inv_t (apply_ops t ops)"
  unfolding apply_ops_def
  by (induction ops arbitrary: t) (auto simp: inv_insert inv_delete split: option.splits)

text \<open>The last operation on a key decides what is found there.\<close>

lemma lookup_apply_ops:
  "inv_t t \<Longrightarrow> lookup_t (apply_ops t ops) k =
     (case map_of (rev ops) k of Some w \<Rightarrow> w | None \<Rightarrow> lookup_t t k)"
  unfolding apply_ops_def
  by (induction ops arbitrary: t)
    (auto simp: inv_insert inv_delete lookup_insert lookup_delete map_add_def split: option.splits)

lemma lookup_rebuild:
  "map_of (rev kvs) = m \<Longrightarrow> lookup_t (put_all empty_t kvs) = m"
  by (auto simp: fun_eq_iff lookup_put_all inv_empty lookup_empty split: option.splits)

end

interpretation omt: keyed_table "[]" om_get om_set om_delete om_wf
  by unfold_locales auto

section \<open>Printing indices\<close>

definition digit_char :: "nat \<Rightarrow> char" where
  "digit_char d = char_of (48 + d)"

fun show_nat :: "nat \<Rightarrow> string" where
  "show_nat n = (if n < 10 then [digit_char n] else show_nat (n div 10) @ [digit_char (n mod 10)])"

declare show_nat.simps [simp del]

section \<open>Lists\<close>

definition nth_opt :: "'a list \<Rightarrow> nat \<Rightarrow> 'a option" where
  \<comment> \<open>JavaScript \<open>xs[i]\<close>: \<open>undefined\<close> out of range\<close>
  "nth_opt xs i = (if i < length xs then Some (xs ! i) else None)"

lemma nth_opt_simps [simp]:
  "nth_opt [] i = None"
  "nth_opt (x # xs) 0 = Some x"
  "nth_opt (x # xs) (Suc i) = nth_opt xs i"
  by (auto simp: nth_opt_def)

lemma nth_opt_Some_iff: "nth_opt xs i = Some x \<longleftrightarrow> i < length xs \<and> xs ! i = x"
  by (simp add: nth_opt_def)

lemma nth_opt_None_iff: "nth_opt xs i = None \<longleftrightarrow> length xs \<le> i"
  by (simp add: nth_opt_def not_less)

lemma foldl_cong_set:
  "(\<And>s x. x \<in> set xs \<Longrightarrow> f s x = g s x) \<Longrightarrow> foldl f s xs = foldl g s xs"
  by (induction xs arbitrary: s) auto

lemma foldl_invariant:
  "P s \<Longrightarrow> (\<And>s x. P s \<Longrightarrow> x \<in> set xs \<Longrightarrow> P (f s x)) \<Longrightarrow> P (foldl f s xs)"
  by (induction xs arbitrary: s) auto

end
