(* ===== verification/JsValue.thy ===== *)
theory JsValue
  imports Prelude Complex_Main
begin

text \<open>
  The values the client handles (\<open>JsonValue\<close> of \<open>types.ts\<close>) and the parts of the
  JavaScript object model that the code uses: numbers with NaN and the infinities, objects
  as property lists in enumeration order (array-index names first and ascending, then the
  others in creation order), own-property reads, property assignment.

  A string is a \<open>char list\<close>: the JavaScript strings whose code units are below 256. The
  comparison of arbitrary text is modelled on 16-bit code units in \<open>TextOrder\<close>. A number
  is an exact rational, so rounding of floating-point arithmetic is not modelled; negative
  zero is zero, as it is for \<open>===\<close> and \<open><\<close>.
\<close>

section \<open>Numbers\<close>

datatype jnum = NaN | NegInf | Fin rat | PosInf

fun num_lt :: "jnum \<Rightarrow> jnum \<Rightarrow> bool" where
  "num_lt NaN _ = False"
| "num_lt _ NaN = False"
| "num_lt NegInf b = (b \<noteq> NegInf)"
| "num_lt (Fin a) NegInf = False"
| "num_lt (Fin a) (Fin b) = (a < b)"
| "num_lt (Fin a) PosInf = True"
| "num_lt PosInf _ = False"

definition num_eq :: "jnum \<Rightarrow> jnum \<Rightarrow> bool" where
  \<comment> \<open>\<open>===\<close>: NaN equals nothing\<close>
  "num_eq a b \<longleftrightarrow> a \<noteq> NaN \<and> a = b"

abbreviation nat_num :: "nat \<Rightarrow> jnum" where
  "nat_num n \<equiv> Fin (of_nat n)"

definition is_safe_integer :: "jnum \<Rightarrow> bool" where
  \<comment> \<open>\<open>Number.isSafeInteger\<close>\<close>
  "is_safe_integer a =
     (case a of Fin r \<Rightarrow> of_int (floor r) = r \<and> \<bar>r\<bar> \<le> 9007199254740991 | _ \<Rightarrow> False)"

lemma num_lt_irrefl [simp]: "\<not> num_lt a a"
  by (cases a) auto

lemma num_lt_asym: "num_lt a b \<Longrightarrow> \<not> num_lt b a"
  by (cases a; cases b) auto

lemma num_lt_trans: "num_lt a b \<Longrightarrow> num_lt b c \<Longrightarrow> num_lt a c"
  by (cases a; cases b; cases c) auto

lemma num_lt_linear: "a \<noteq> NaN \<Longrightarrow> b \<noteq> NaN \<Longrightarrow> num_lt a b \<or> a = b \<or> num_lt b a"
  by (cases a; cases b) auto

section \<open>Values\<close>

datatype jv =
    JNull
  | JBool bool
  | JNum jnum
  | JStr string
  | JBytes "byte list"
  | JArr "jv list"
  | JObj "(string \<times> jv) list"

type_synonym props = "(string \<times> jv) list"

fun is_plain_record :: "jv \<Rightarrow> bool" where
  \<comment> \<open>non-null, \<open>typeof\<close> object, neither an array nor a \<open>Uint8Array\<close>\<close>
  "is_plain_record (JObj _) = True"
| "is_plain_record _ = False"

section \<open>Property names and their order\<close>

abbreviation cc :: "char \<Rightarrow> nat" where
  "cc c \<equiv> of_char c"

definition is_digit :: "char \<Rightarrow> bool" where
  "is_digit c \<longleftrightarrow> 48 \<le> cc c \<and> cc c \<le> 57"

definition nat_of_digits :: "string \<Rightarrow> nat" where
  "nat_of_digits s = foldl (\<lambda>n c. n * 10 + (cc c - 48)) 0 s"

definition is_index_key :: "string \<Rightarrow> bool" where
  \<comment> \<open>a canonical array index: decimal, no leading zero, below \<open>2 ^ 32 - 1\<close>\<close>
  "is_index_key k \<longleftrightarrow> k \<noteq> [] \<and> list_all is_digit k \<and> (k = ''0'' \<or> hd k \<noteq> CHR ''0'')
     \<and> nat_of_digits k < 4294967295"

fun js_add :: "(string \<times> 'v) list \<Rightarrow> string \<Rightarrow> 'v \<Rightarrow> (string \<times> 'v) list" where
  \<comment> \<open>the place a new property gets in enumeration order\<close>
  "js_add [] k v = [(k, v)]"
| "js_add ((k', v') # ps) k v =
     (if is_index_key k \<and> (\<not> is_index_key k' \<or> nat_of_digits k < nat_of_digits k')
      then (k, v) # (k', v') # ps
      else (k', v') # js_add ps k v)"

definition js_put :: "(string \<times> 'v) list \<Rightarrow> string \<Rightarrow> 'v \<Rightarrow> (string \<times> 'v) list" where
  \<comment> \<open>definition of an own data property, as an object literal or a spread makes it\<close>
  "js_put ps k v = (if om_get ps k \<noteq> None then om_set ps k v else js_add ps k v)"

definition js_assign :: "(string \<times> 'v) list \<Rightarrow> string \<Rightarrow> 'v \<Rightarrow> (string \<times> 'v) list" where
  \<comment> \<open>\<open>o[k] = v\<close>: on an ordinary object the name \<open>__proto__\<close> reaches the prototype setter
      and creates no own property\<close>
  "js_assign ps k v = (if k = ''__proto__'' then ps else js_put ps k v)"

definition js_spread :: "(string \<times> 'v) list \<Rightarrow> (string \<times> 'v) list \<Rightarrow> (string \<times> 'v) list" where
  \<comment> \<open>\<open>{ ...a, ...b }\<close>\<close>
  "js_spread a b = foldl (\<lambda>ps (k, v). js_put ps k v) a b"

lemma om_get_js_add: "om_get ps k = None \<Longrightarrow> om_get (js_add ps k v) k' = (if k' = k then Some v else om_get ps k')"
  by (induction ps k v rule: js_add.induct) (auto split: if_splits)

lemma om_get_js_put [simp]: "om_get (js_put ps k v) k' = (if k' = k then Some v else om_get ps k')"
  by (auto simp: js_put_def om_get_js_add)

lemma set_js_add: "set (js_add ps k v) = insert (k, v) (set ps)"
  by (induction ps k v rule: js_add.induct) auto

lemma om_wf_js_add: "om_wf ps \<Longrightarrow> om_get ps k = None \<Longrightarrow> om_wf (js_add ps k v)"
  by (induction ps k v rule: js_add.induct)
    (auto simp: set_js_add om_get_None_iff split: if_splits)

lemma om_wf_js_put [simp, inv_intros]: "om_wf ps \<Longrightarrow> om_wf (js_put ps k v)"
  by (simp add: js_put_def om_wf_js_add)

lemma om_wf_js_assign [simp, inv_intros]: "om_wf ps \<Longrightarrow> om_wf (js_assign ps k v)"
  by (simp add: js_assign_def)

lemma set_keys_js_put [simp]: "fst ` set (js_put ps k v) = insert k (fst ` set ps)"
  by (auto simp: js_put_def set_js_add om_get_None_iff)

lemma js_add_plain: "\<not> is_index_key k \<Longrightarrow> js_add ps k v = ps @ [(k, v)]"
  by (induction ps k v rule: js_add.induct) auto

lemma js_put_plain: "\<not> is_index_key k \<Longrightarrow> js_put ps k v = om_set ps k v"
  by (auto simp: js_put_def js_add_plain om_get_None_iff om_set_fresh)

lemma js_put_update: "om_get ps k \<noteq> None \<Longrightarrow> js_put ps k v = om_set ps k v"
  by (simp add: js_put_def)

lemma js_put_nonempty [simp]: "js_put ps k v \<noteq> []"
  by (cases ps) (auto simp: js_put_def split: if_splits)

text \<open>An object's own properties are a keyed table.\<close>

interpretation jso: keyed_table "[]" om_get "js_put :: props \<Rightarrow> string \<Rightarrow> jv \<Rightarrow> props" om_delete om_wf
  by unfold_locales auto

lemma js_spread_put_all: "js_spread a (b :: props) = jso.put_all a b"
  by (simp add: js_spread_def jso.put_all_def)

lemma om_get_js_spread:
  fixes a b :: props
  assumes "om_wf a"
  shows "om_get (js_spread a b) k =
    (case map_of (rev b) k of Some v \<Rightarrow> Some v | None \<Rightarrow> om_get a k)"
  using assms by (simp add: js_spread_put_all jso.lookup_put_all)

section \<open>Own-property reads\<close>

fun js_own :: "jv \<Rightarrow> string \<Rightarrow> jv option" where
  \<comment> \<open>the own property \<open>v[p]\<close>; names inherited from a prototype are not found\<close>
  "js_own (JObj ps) p = om_get ps p"
| "js_own (JArr xs) p =
     (if p = ''length'' then Some (JNum (nat_num (length xs)))
      else if is_index_key p then nth_opt xs (nat_of_digits p) else None)"
| "js_own (JBytes bs) p =
     (if is_index_key p then map_option (\<lambda>b. JNum (nat_num (unat b))) (nth_opt bs (nat_of_digits p))
      else None)"
| "js_own _ p = None"

definition truthy :: "jv \<Rightarrow> bool" where
  "truthy v = (case v of JNull \<Rightarrow> False | JBool b \<Rightarrow> b | JStr s \<Rightarrow> s \<noteq> []
     | JNum n \<Rightarrow> n \<noteq> NaN \<and> n \<noteq> Fin 0 | _ \<Rightarrow> True)"

end
