(* ===== verification/Errors.thy ===== *)
theory Errors
  imports JsValue
begin

text \<open>
  \<open>errors.ts\<close>: the error codes, the category and retryability derived from a code, the
  \<open>ZyncBaseError\<close> value with its constructors and wrappers, and the values a piece of
  client code can throw. A code is a string, because a server response may carry any.
\<close>

section \<open>ZyncBaseError\<close>

record zync_error =
  ze_code :: string
  ze_category :: string
  ze_retryable :: bool
  ze_retryAfter :: "jnum option"
  ze_requestId :: "jnum option"
  ze_path :: "string list option"
  ze_details :: "props option"
  ze_name :: string
  ze_message :: string

definition ErrorCodes :: "string list" where
  "ErrorCodes =
    [''AUTH_FAILED'', ''TOKEN_EXPIRED'', ''MAX_CONNECTIONS'', ''SERVER_SHUTDOWN'',
     ''BACKPRESSURE_LIMIT'', ''SESSION_NOT_READY'', ''NAMESPACE_UNAUTHORIZED'',
     ''PERMISSION_DENIED'', ''COLLECTION_NOT_FOUND'', ''SCHEMA_VALIDATION_FAILED'',
     ''UNIQUE_CONSTRAINT_VIOLATED'', ''FIELD_NOT_FOUND'', ''INVALID_FIELD_NAME'',
     ''INVALID_ARRAY_ELEMENT'', ''INVALID_MESSAGE'', ''RATE_LIMITED'', ''MESSAGE_TOO_LARGE'',
     ''CONNECTION_FAILED'', ''CLIENT_DISCONNECT'', ''RETRIES_EXHAUSTED'', ''TIMEOUT'',
     ''INTERNAL_ERROR'', ''ENGINE_UNHEALTHY'', ''INVALID_PATH'', ''BATCH_TOO_LARGE'',
     ''RESPONSE_TOO_LARGE'', ''REQUEST_SUPERSEDED'', ''NAMESPACE_SWITCH_REJECTED'',
     ''IMMUTABLE_FIELD'', ''INVALID_MESSAGE_FORMAT'', ''INVALID_MESSAGE_TYPE'',
     ''SUBSCRIPTION_NOT_FOUND'', ''NO_ACTION_WORKER'', ''ACTION_TIMEOUT'',
     ''WORKER_DISCONNECTED'']"

definition deriveCategory :: "string \<Rightarrow> string \<times> bool" where
  \<comment> \<open>the cases of the switch, in the source's order\<close>
  "deriveCategory code =
    (if code \<in> set [''AUTH_FAILED'', ''TOKEN_EXPIRED''] then (''authentication'', False)
     else if code \<in> set [''NAMESPACE_UNAUTHORIZED'', ''PERMISSION_DENIED''] then (''authorization'', False)
     else if code \<in> set [''SESSION_NOT_READY'', ''REQUEST_SUPERSEDED'', ''NAMESPACE_SWITCH_REJECTED'',
       ''SUBSCRIPTION_NOT_FOUND'', ''NO_ACTION_WORKER''] then (''state'', False)
     else if code = ''MAX_CONNECTIONS'' then (''rate_limit'', True)
     else if code = ''SERVER_SHUTDOWN'' then (''server'', True)
     else if code = ''BACKPRESSURE_LIMIT'' then (''network'', True)
     else if code = ''RATE_LIMITED'' then (''rate_limit'', True)
     else if code \<in> set [''ACTION_TIMEOUT'', ''WORKER_DISCONNECTED''] then (''server'', False)
     else if code = ''INTERNAL_ERROR'' then (''server'', True)
     else if code = ''ENGINE_UNHEALTHY'' then (''server'', True)
     else if code \<in> set [''SCHEMA_VALIDATION_FAILED'', ''UNIQUE_CONSTRAINT_VIOLATED'', ''FIELD_NOT_FOUND'',
       ''INVALID_FIELD_NAME'', ''INVALID_ARRAY_ELEMENT'', ''INVALID_MESSAGE'', ''COLLECTION_NOT_FOUND'',
       ''IMMUTABLE_FIELD'', ''INVALID_MESSAGE_FORMAT'', ''INVALID_MESSAGE_TYPE''] then (''validation'', False)
     else if code \<in> set [''CONNECTION_FAILED'', ''TIMEOUT''] then (''network'', True)
     else if code \<in> set [''CLIENT_DISCONNECT'', ''RETRIES_EXHAUSTED''] then (''network'', False)
     else if code \<in> set [''INVALID_PATH'', ''BATCH_TOO_LARGE'', ''MESSAGE_TOO_LARGE'',
       ''RESPONSE_TOO_LARGE''] then (''client'', False)
     else (''unknown'', False))"

definition new_ZyncBaseError :: "string \<Rightarrow> string \<Rightarrow> string \<Rightarrow> bool \<Rightarrow> zync_error" where
  \<comment> \<open>\<open>new ZyncBaseError(message, { code, category, retryable })\<close>\<close>
  "new_ZyncBaseError msg code category retryable =
     \<lparr>ze_code = code, ze_category = category, ze_retryable = retryable, ze_retryAfter = None,
      ze_requestId = None, ze_path = None, ze_details = None, ze_name = ''ZyncBaseError'',
      ze_message = msg\<rparr>"

record server_error =
  se_code :: string
  se_message :: string
  se_retryAfter :: "jnum option"
  se_requestId :: "jnum option"
  se_path :: "string list option"
  se_details :: "props option"

definition fromServerResponse :: "server_error \<Rightarrow> zync_error" where
  "fromServerResponse p =
     (case deriveCategory (se_code p) of (category, retryable) \<Rightarrow>
        (new_ZyncBaseError (se_message p) (se_code p) category retryable)
          \<lparr>ze_retryAfter := se_retryAfter p, ze_requestId := se_requestId p,
           ze_path := se_path p, ze_details := se_details p\<rparr>)"

section \<open>Thrown values\<close>

datatype schema_code =
  TABLE_NOT_FOUND | FIELD_NOT_FOUND | ACTION_NOT_FOUND | INVALID_PATH | INVALID_MESSAGE_FORMAT

datatype thrown =
    TZync zync_error
  | TSchema string schema_code   \<comment> \<open>\<open>SchemaError\<close>\<close>
  | TAction string string        \<comment> \<open>\<open>ActionError\<close>: code, message\<close>
  | TError string                \<comment> \<open>any other \<open>Error\<close>\<close>
  | TOther                       \<comment> \<open>a thrown value that is no \<open>Error\<close>\<close>

definition type_error :: thrown where
  \<comment> \<open>a \<open>TypeError\<close> of the engine, as a property read on \<open>undefined\<close> gives; its text is the engine's\<close>
  "type_error = TError ''TypeError''"

fun error_message :: "thrown \<Rightarrow> string \<Rightarrow> string" where
  \<comment> \<open>\<open>err instanceof Error ? err.message : fallback\<close>\<close>
  "error_message (TZync e) fb = ze_message e"
| "error_message (TSchema m _) fb = m"
| "error_message (TAction _ m) fb = m"
| "error_message (TError m) fb = m"
| "error_message TOther fb = fb"

fun toZyncError :: "thrown \<Rightarrow> string \<Rightarrow> bool \<Rightarrow> zync_error" where
  "toZyncError (TZync e) fallback retryable = e"
| "toZyncError err fallback retryable =
     new_ZyncBaseError (error_message err fallback) ''INTERNAL_ERROR'' ''server'' retryable"

fun toConnectionError :: "thrown \<Rightarrow> string \<Rightarrow> zync_error" where
  "toConnectionError (TZync e) fallback = e"
| "toConnectionError err fallback =
     new_ZyncBaseError (error_message err fallback) ''CONNECTION_FAILED'' ''network'' True"

section \<open>Action errors\<close>

definition action_error_with ::
  "string \<Rightarrow> string \<Rightarrow> string \<Rightarrow> string \<Rightarrow> jnum option \<Rightarrow> zync_error" where
  "action_error_with name code category msg requestId =
     (new_ZyncBaseError msg code category False)\<lparr>ze_requestId := requestId, ze_name := name\<rparr>"

definition NoActionWorkerError :: "string \<Rightarrow> jnum option \<Rightarrow> zync_error" where
  "NoActionWorkerError = action_error_with ''NoActionWorkerError'' ''NO_ACTION_WORKER'' ''state''"

definition ActionTimeoutError :: "string \<Rightarrow> jnum option \<Rightarrow> zync_error" where
  "ActionTimeoutError = action_error_with ''ActionTimeoutError'' ''ACTION_TIMEOUT'' ''server''"

definition WorkerDisconnectedError :: "string \<Rightarrow> jnum option \<Rightarrow> zync_error" where
  "WorkerDisconnectedError =
     action_error_with ''WorkerDisconnectedError'' ''WORKER_DISCONNECTED'' ''server''"

definition ActionValidationError :: "string \<Rightarrow> jnum option \<Rightarrow> zync_error" where
  "ActionValidationError =
     action_error_with ''ActionValidationError'' ''SCHEMA_VALIDATION_FAILED'' ''validation''"

definition ActionExecutionError :: "string \<Rightarrow> string \<Rightarrow> jnum option \<Rightarrow> zync_error" where
  "ActionExecutionError code = action_error_with ''ActionExecutionError'' code ''server''"

lemmas action_error_defs =
  action_error_with_def NoActionWorkerError_def ActionTimeoutError_def
  WorkerDisconnectedError_def ActionValidationError_def ActionExecutionError_def

section \<open>Facts\<close>

lemma new_ZyncBaseError_fields [simp]:
  "ze_code (new_ZyncBaseError m c k r) = c"
  "ze_category (new_ZyncBaseError m c k r) = k"
  "ze_retryable (new_ZyncBaseError m c k r) = r"
  "ze_message (new_ZyncBaseError m c k r) = m"
  "ze_retryAfter (new_ZyncBaseError m c k r) = None"
  by (simp_all add: new_ZyncBaseError_def)

lemma fromServerResponse_fields [simp]:
  "ze_code (fromServerResponse p) = se_code p"
  "ze_message (fromServerResponse p) = se_message p"
  "ze_retryAfter (fromServerResponse p) = se_retryAfter p"
  "ze_retryable (fromServerResponse p) = snd (deriveCategory (se_code p))"
  "ze_category (fromServerResponse p) = fst (deriveCategory (se_code p))"
  by (simp_all add: fromServerResponse_def split: prod.split)

text \<open>The retryable codes, read off the switch.\<close>

definition retryable_codes :: "string list" where
  "retryable_codes = [''MAX_CONNECTIONS'', ''SERVER_SHUTDOWN'', ''BACKPRESSURE_LIMIT'',
     ''RATE_LIMITED'', ''INTERNAL_ERROR'', ''ENGINE_UNHEALTHY'', ''CONNECTION_FAILED'', ''TIMEOUT'']"

lemma deriveCategory_retryable:
  "snd (deriveCategory code) \<longleftrightarrow> code \<in> set retryable_codes"
  unfolding deriveCategory_def retryable_codes_def by auto

lemma deriveCategory_known:
  "code \<in> set ErrorCodes \<Longrightarrow> fst (deriveCategory code) \<noteq> ''unknown''"
  unfolding ErrorCodes_def by (auto simp: deriveCategory_def)

end
