(* ===== verification/Requests.thy ===== *)
theory Requests
  imports Errors "HOL-Library.Multiset"
begin

text \<open>
  \<open>retry_policy.ts\<close> and \<open>pending_requests.ts\<close>: which errors are retried and after how long,
  and the table of requests that wait for an answer. A promise is named by a number of its
  own; \<open>register\<close> makes one, and every settling of a promise is recorded in a log, so that
  the lemmas can say that no promise is settled twice and none is lost.
\<close>

section \<open>Backoff\<close>

record backoff_opts =
  bo_base :: "rat option"
  bo_max :: "rat option"
  bo_jitter :: "bool option"

definition backoffDelay :: "nat \<Rightarrow> backoff_opts \<Rightarrow> rat \<Rightarrow> rat" where
  \<comment> \<open>the last argument is what \<open>Math.random()\<close> gives\<close>
  "backoffDelay attempt opts rnd =
     (let base = (case bo_base opts of Some b \<Rightarrow> b | None \<Rightarrow> 1000);
          max = (case bo_max opts of Some m \<Rightarrow> m | None \<Rightarrow> 30000);
          preCap = base * 2 ^ (min attempt 30);
          jitter = (if (case bo_jitter opts of Some j \<Rightarrow> j | None \<Rightarrow> True)
                    then preCap * (1 / 10) * (rnd * 2 - 1) else 0)
      in min (preCap + jitter) max)"

record retry_options =
  retryRateLimits :: "bool option"
  retryServerErrors :: "bool option"
  maxServerRetries :: "nat option"
  reconnectDelay :: "rat option"
  maxReconnectDelay :: "rat option"
  reconnectJitter :: "bool option"

definition shouldRetry :: "retry_options \<Rightarrow> thrown \<Rightarrow> nat \<Rightarrow> bool" where
  "shouldRetry options err attempt =
     (case err of
        TZync e \<Rightarrow>
          if ze_code e = ''RATE_LIMITED'' then retryRateLimits options \<noteq> Some False
          else if ze_code e = ''INTERNAL_ERROR'' \<or> ze_code e = ''ENGINE_UNHEALTHY''
          then if retryServerErrors options = Some False then False
               else attempt < (case maxServerRetries options of Some n \<Rightarrow> n | None \<Rightarrow> 3)
          else False
      | _ \<Rightarrow> False)"

definition getDelay :: "retry_options \<Rightarrow> thrown \<Rightarrow> nat \<Rightarrow> rat \<Rightarrow> jnum" where
  "getDelay options err attempt rnd =
     (case (case err of TZync e \<Rightarrow> ze_retryAfter e | _ \<Rightarrow> None) of
        Some r \<Rightarrow> r
      | None \<Rightarrow> Fin (backoffDelay attempt
          \<lparr>bo_base = reconnectDelay options, bo_max = maxReconnectDelay options,
           bo_jitter = reconnectJitter options\<rparr> rnd))"

definition opt_or :: "'a option \<Rightarrow> 'a \<Rightarrow> 'a" where
  "opt_or x d = (case x of Some y \<Rightarrow> y | None \<Rightarrow> d)"

abbreviation precap :: "backoff_opts \<Rightarrow> nat \<Rightarrow> rat" where
  "precap opts attempt \<equiv> opt_or (bo_base opts) 1000 * 2 ^ (min attempt 30)"

text \<open>C14: A backoff delay never exceeds the cap; unless the cap cuts it, it stays within a
  tenth of the doubled base, so it is never negative for a non-negative base and cap; and
  without jitter it does not decrease from one attempt to the next.\<close>

theorem backoffDelay_bounds:
  assumes "0 \<le> rnd" "rnd < 1" "0 \<le> opt_or (bo_base opts) 1000" "0 \<le> opt_or (bo_max opts) 30000"
  shows "backoffDelay attempt opts rnd \<le> opt_or (bo_max opts) 30000
    \<and> 0 \<le> backoffDelay attempt opts rnd
    \<and> min (precap opts attempt * (9 / 10)) (opt_or (bo_max opts) 30000) \<le> backoffDelay attempt opts rnd
    \<and> backoffDelay attempt opts rnd \<le> precap opts attempt * (11 / 10)
    \<and> (bo_jitter opts = Some False \<longrightarrow> backoffDelay attempt opts rnd \<le> backoffDelay (Suc attempt) opts rnd)"
proof -
  let ?p = "precap opts attempt" and ?m = "opt_or (bo_max opts) 30000"
  define j where "j = (if opt_or (bo_jitter opts) True then ?p * (1 / 10) * (rnd * 2 - 1) else 0)"
  have d: "backoffDelay attempt opts rnd = min (?p + j) ?m"
    by (simp add: backoffDelay_def Let_def opt_or_def j_def)
  have p: "0 \<le> ?p" using assms(3) by simp
  have "?p * (1 / 10) * (rnd * 2 - 1) \<le> ?p * (1 / 10) * 1"
    using assms p by (intro mult_left_mono) auto
  moreover have "?p * (1 / 10) * (- 1) \<le> ?p * (1 / 10) * (rnd * 2 - 1)"
    using assms p by (intro mult_left_mono) auto
  ultimately have j: "- (?p * (1 / 10)) \<le> j" "j \<le> ?p * (1 / 10)"
    using p unfolding j_def by auto
  have mono: "backoffDelay attempt opts rnd \<le> backoffDelay (Suc attempt) opts rnd" if "bo_jitter opts = Some False"
  proof -
    have "(2 :: rat) ^ min attempt 30 \<le> 2 ^ min (Suc attempt) 30" by (intro power_increasing) auto
    then have "?p \<le> precap opts (Suc attempt)" using assms(3) by (intro mult_left_mono)
    then show ?thesis using that by (simp add: backoffDelay_def Let_def opt_or_def min.coboundedI1)
  qed
  define q where "q = ?p"
  have q: "0 \<le> q" "- (q * (1 / 10)) \<le> j" "j \<le> q * (1 / 10)" using j p by (simp_all add: q_def)
  have "min (q + j) ?m \<le> ?m" "0 \<le> min (q + j) ?m" "min (q * (9 / 10)) ?m \<le> min (q + j) ?m"
    "min (q + j) ?m \<le> q * (11 / 10)"
    using q assms(4) unfolding min_def by auto
  then show ?thesis using mono unfolding d q_def by blast
qed

lemma backoffDelay_bounds_witness:
  "backoffDelay 3 \<lparr>bo_base = None, bo_max = None, bo_jitter = Some False\<rparr> (1 / 2) \<le> 30000"
  using backoffDelay_bounds [of "1 / 2" "\<lparr>bo_base = None, bo_max = None, bo_jitter = Some False\<rparr>" 3]
  by (simp add: opt_or_def)

text \<open>Retrying is confined to three codes, every one of which the server marks retryable;
  a rate-limit error is retried at every attempt and the two server errors only below the
  bound, so a run of attempts on server errors ends; and a delay that the server names is
  used as it is.\<close>

theorem shouldRetry_spec:
  "shouldRetry options err attempt \<longleftrightarrow>
     (\<exists>e. err = TZync e \<and>
       (ze_code e = ''RATE_LIMITED'' \<and> retryRateLimits options \<noteq> Some False
        \<or> ze_code e \<in> {''INTERNAL_ERROR'', ''ENGINE_UNHEALTHY''} \<and> retryServerErrors options \<noteq> Some False
          \<and> attempt < opt_or (maxServerRetries options) 3))"
  by (auto simp: shouldRetry_def opt_or_def split: thrown.splits)

section \<open>The table of pending requests\<close>

record 'c pending_entry =
  pe_promise :: nat
  pe_context :: 'c

datatype ('r, 'e) settled = Resolved 'r | Rejected 'e

record ('r, 'e, 'c) pending =
  nextRequestId :: nat
  entries :: "(nat, 'c pending_entry) omap"
  promises :: nat                               \<comment> \<open>how many promises were made\<close>
  settlings :: "(nat \<times> ('r, 'e) settled) list"        \<comment> \<open>the settlings, oldest first\<close>

definition pending_init :: "('r, 'e, 'c) pending" where
  "pending_init = \<lparr>nextRequestId = 1, entries = [], promises = 0, settlings = []\<rparr>"

definition nextId :: "('r, 'e, 'c) pending \<Rightarrow> nat \<times> ('r, 'e, 'c) pending" where
  "nextId s = (nextRequestId s, s\<lparr>nextRequestId := nextRequestId s + 1\<rparr>)"

definition register :: "nat \<Rightarrow> 'c \<Rightarrow> ('r, 'e, 'c) pending \<Rightarrow> nat \<times> ('r, 'e, 'c) pending" where
  \<comment> \<open>returns the new promise\<close>
  "register rid ctx s =
     (promises s,
      s\<lparr>entries := om_set (entries s) rid \<lparr>pe_promise = promises s, pe_context = ctx\<rparr>,
        promises := promises s + 1\<rparr>)"

definition request_context :: "nat \<Rightarrow> ('r, 'e, 'c) pending \<Rightarrow> 'c option" where
  "request_context rid s = map_option pe_context (om_get (entries s) rid)"

definition settle_one :: "nat \<Rightarrow> ('r, 'e) settled \<Rightarrow> ('r, 'e, 'c) pending \<Rightarrow> bool \<times> ('r, 'e, 'c) pending" where
  "settle_one rid w s =
     (case om_get (entries s) rid of
        None \<Rightarrow> (False, s)
      | Some entry \<Rightarrow>
          (True, s\<lparr>entries := om_delete (entries s) rid, settlings := settlings s @ [(pe_promise entry, w)]\<rparr>))"

definition resolve_request :: "nat \<Rightarrow> 'r \<Rightarrow> ('r, 'e, 'c) pending \<Rightarrow> bool \<times> ('r, 'e, 'c) pending" where
  "resolve_request rid value s = settle_one rid (Resolved value) s"

definition reject_request :: "nat \<Rightarrow> 'e \<Rightarrow> ('r, 'e, 'c) pending \<Rightarrow> bool \<times> ('r, 'e, 'c) pending" where
  "reject_request rid reason s = settle_one rid (Rejected reason) s"

definition rejectAll :: "'e \<Rightarrow> ('r, 'e, 'c) pending \<Rightarrow> ('r, 'e, 'c) pending" where
  "rejectAll reason s =
     (let es = map snd (entries s)
      in s\<lparr>entries := [], settlings := settlings s @ map (\<lambda>entry. (pe_promise entry, Rejected reason)) es\<rparr>)"

definition clear_requests :: "('r, 'e, 'c) pending \<Rightarrow> ('r, 'e, 'c) pending" where
  "clear_requests s = s\<lparr>entries := []\<rparr>"

definition pending_size :: "('r, 'e, 'c) pending \<Rightarrow> nat" where
  "pending_size s = length (entries s)"

text \<open>What the client does with the table: a request takes a fresh id and registers it at
  once; answers come for any id.\<close>

datatype ('r, 'e, 'c) request_op =
    Send 'c | Answer nat 'r | Fail nat 'e | FailAll 'e

fun request_step :: "('r, 'e, 'c) pending \<Rightarrow> ('r, 'e, 'c) request_op \<Rightarrow> ('r, 'e, 'c) pending" where
  "request_step s (Send ctx) = (case nextId s of (rid, s') \<Rightarrow> snd (register rid ctx s'))"
| "request_step s (Answer rid value) = snd (resolve_request rid value s)"
| "request_step s (Fail rid reason) = snd (reject_request rid reason s)"
| "request_step s (FailAll reason) = rejectAll reason s"

lemmas pending_defs = nextId_def register_def settle_one_def resolve_request_def reject_request_def
  rejectAll_def

definition open_promises :: "('r, 'e, 'c) pending \<Rightarrow> nat list" where
  "open_promises s = map (\<lambda>x. pe_promise (snd x)) (entries s)"

definition pending_ok :: "('r, 'e, 'c) pending \<Rightarrow> bool" where
  \<comment> \<open>every promise made is either open or settled, and never both nor twice\<close>
  "pending_ok s \<longleftrightarrow> om_wf (entries s) \<and> (\<forall>k \<in> fst ` set (entries s). k < nextRequestId s)
     \<and> distinct (open_promises s @ map fst (settlings s))
     \<and> set (open_promises s @ map fst (settlings s)) = {..<promises s}"

lemma open_promises_delete:
  assumes "om_wf m" "om_get m k = Some e"
  shows "mset (map (\<lambda>x. pe_promise (snd x)) m)
    = add_mset (pe_promise e) (mset (map (\<lambda>x. pe_promise (snd x)) (om_delete m k)))"
  using assms
proof (induction m)
  case (Cons p m)
  obtain k' e' where p: "p = (k', e')" by (cases p)
  show ?case
  proof (cases "k' = k")
    case True
    then have "om_delete m k = m" using Cons.prems p by (intro om_delete_absent) (simp add: om_get_None_iff)
    then show ?thesis using Cons.prems p True by (simp add: om_delete_def)
  next
    case False
    then show ?thesis using Cons p by (simp add: om_delete_def)
  qed
qed simp

lemma settle_one_ok:
  assumes "pending_ok s"
  shows "pending_ok (snd (settle_one rid w s))"
proof (cases "om_get (entries s) rid")
  case (Some e)
  let ?s = "snd (settle_one rid w s)"
  have m: "mset (open_promises s) = add_mset (pe_promise e) (mset (open_promises ?s))"
    using open_promises_delete [OF _ Some] assms Some
    by (simp add: settle_one_def pending_ok_def open_promises_def)
  have "mset (open_promises ?s @ map fst (settlings ?s)) = mset (open_promises s @ map fst (settlings s))"
    using m Some by (simp add: settle_one_def)
  then have "distinct (open_promises ?s @ map fst (settlings ?s)) = distinct (open_promises s @ map fst (settlings s))"
    "set (open_promises ?s @ map fst (settlings ?s)) = set (open_promises s @ map fst (settlings s))"
    by (metis mset_eq_imp_distinct_iff, metis mset_eq_setD)
  moreover have "\<forall>k \<in> fst ` set (om_delete (entries s) rid). k < nextRequestId s"
    using assms unfolding keys_om_delete pending_ok_def by blast
  then have "\<forall>k \<in> fst ` set (entries ?s). k < nextRequestId ?s" "om_wf (entries ?s)" "promises ?s = promises s"
    using Some assms by (simp_all add: settle_one_def pending_ok_def)
  ultimately show ?thesis using assms unfolding pending_ok_def by metis
qed (use assms in \<open>simp add: settle_one_def\<close>)

lemma rejectAll_promises [simp]:
  "open_promises (rejectAll reason s) = []"
  "map fst (settlings (rejectAll reason s)) = map fst (settlings s) @ open_promises s"
  "promises (rejectAll reason s) = promises s"
  by (simp_all add: rejectAll_def open_promises_def)

definition settlings_ids :: "('r, 'e, 'c) pending \<Rightarrow> nat list" where
  "settlings_ids s = map fst (settlings s) @ open_promises s"

lemma rejectAll_ok: "pending_ok s \<Longrightarrow> pending_ok (rejectAll reason s)"
  unfolding pending_ok_def rejectAll_promises by (auto simp: rejectAll_def Let_def)

lemma send_ok: "pending_ok s \<Longrightarrow> pending_ok (request_step s (Send ctx))"
proof -
  assume ok: "pending_ok s"
  then have "om_get (entries s) (nextRequestId s) = None" by (auto simp: pending_ok_def om_get_None_iff)
  then have e: "om_set (entries s) (nextRequestId s) x = entries s @ [(nextRequestId s, x)]" for x
    by (simp add: om_set_fresh om_get_None_iff)
  show ?thesis using ok unfolding pending_ok_def
    by (auto simp: nextId_def register_def e open_promises_def om_wf_def lessThan_Suc)
qed

lemma request_step_ok [inv_intros]: "pending_ok s \<Longrightarrow> pending_ok (request_step s x)"
proof (cases x)
  case (Send ctx)
  then show "pending_ok s \<Longrightarrow> pending_ok (request_step s x)" by (simp only: send_ok)
qed (simp_all add: settle_one_ok rejectAll_ok resolve_request_def reject_request_def)

definition request_run :: "('r, 'e, 'c) request_op list \<Rightarrow> ('r, 'e, 'c) pending" where
  "request_run xs = foldl request_step pending_init xs"

lemma pending_init_ok: "pending_ok pending_init"
  by (simp add: pending_ok_def pending_init_def open_promises_def)

lemma request_run_ok: "pending_ok (request_run xs)"
  unfolding request_run_def
  by (rule foldl_invariant [where P = pending_ok, OF pending_init_ok]) (rule request_step_ok)

text \<open>C12: However answers, failures and disconnects interleave with requests, every promise
  handed out is settled at most once and is never lost: it is either still in the table or in
  the log exactly once; and a disconnect (\<open>rejectAll\<close>) leaves none open.\<close>

theorem requests_settled_once:
  "distinct (map fst (settlings (request_run xs)))
   \<and> set (open_promises (request_run xs)) \<union> fst ` set (settlings (request_run xs)) = {..<promises (request_run xs)}
   \<and> set (open_promises (request_run xs)) \<inter> fst ` set (settlings (request_run xs)) = {}
   \<and> pending_size (rejectAll reason (request_run xs)) = 0
   \<and> fst ` set (settlings (rejectAll reason (request_run xs))) = {..<promises (request_run xs)}"
proof -
  note ok = request_run_ok [of xs]
  have "fst ` set (settlings (rejectAll reason s)) = set (settlings_ids s)" for s :: "('a, 'b, 'c) pending"
    by (metis list.set_map rejectAll_promises(2) settlings_ids_def)
  then show ?thesis using ok
    by (auto simp: pending_ok_def settlings_ids_def pending_size_def rejectAll_def Let_def)
qed

text \<open>C13: An answer reaches the request it names and no other: it settles the promise of the
  latest registration of the id, with the value given, and leaves every other entry; an
  unknown or already answered id changes nothing and is reported.\<close>

theorem resolve_request_spec:
  "(case om_get (entries s) rid of
      None \<Rightarrow> resolve_request rid value s = (False, s)
    | Some e \<Rightarrow> fst (resolve_request rid value s)
        \<and> settlings (snd (resolve_request rid value s)) = settlings s @ [(pe_promise e, Resolved value)]
        \<and> fst (resolve_request rid value (snd (resolve_request rid value s))) = False
        \<and> (\<forall>k. request_context k (snd (resolve_request rid value s))
              = (if k = rid then None else request_context k s)))"
  by (auto simp: resolve_request_def settle_one_def request_context_def split: option.splits)

end
