(* ===== verification/Paths.thy ===== *)
theory Paths
  imports Errors
begin

text \<open>
  \<open>path.ts\<close>: the \<open>__\<close> delimiter, path normalisation, flattening of nested records into
  flat field keys and back, and deep reads and writes. The lemmas give the two round
  trips (path segments through a flat key, a nested record through its flat form), the
  condition on names they need, and the laws of the deep operations.
\<close>

section \<open>Joining and splitting\<close>

fun joinFieldPath :: "string list \<Rightarrow> string" where
  "joinFieldPath [] = []"
| "joinFieldPath [s] = s"
| "joinFieldPath (s # s' # ss) = s @ ''__'' @ joinFieldPath (s' # ss)"

definition push_char :: "char \<Rightarrow> string list \<Rightarrow> string list" where
  "push_char c ps = (case ps of [] \<Rightarrow> [[c]] | p # r \<Rightarrow> (c # p) # r)"

fun splitFieldPath :: "string \<Rightarrow> string list" where
  \<comment> \<open>\<open>flat.split("__")\<close>: leftmost, non-overlapping\<close>
  "splitFieldPath [] = [[]]"
| "splitFieldPath [c] = [[c]]"
| "splitFieldPath (c # d # s) =
     (if c = CHR ''_'' \<and> d = CHR ''_'' then [] # splitFieldPath s
      else push_char c (splitFieldPath (d # s)))"

fun split_char :: "char \<Rightarrow> string \<Rightarrow> string list" where
  \<comment> \<open>\<open>s.split(c)\<close> for a one-character separator\<close>
  "split_char c [] = [[]]"
| "split_char c (x # s) = (if x = c then [] # split_char c s else push_char x (split_char c s))"

datatype path_arg = PStr string | PSegs "string list"

definition path_error :: "string \<Rightarrow> zync_error" where
  "path_error msg = new_ZyncBaseError msg ''INVALID_PATH'' ''client'' False"

definition normalizePath :: "path_arg \<Rightarrow> thrown + string list" where
  "normalizePath path =
     (let segments = (case path of PStr s \<Rightarrow> split_char CHR ''.'' s | PSegs ss \<Rightarrow> ss)
      in if segments = [] then Inl (TZync (path_error ''Path must not be empty''))
         else if [] \<in> set segments
         then Inl (TZync (path_error (''Path contains empty segment'' @
                (case path of PStr s \<Rightarrow> '': \"'' @ s @ ''\"'' | PSegs _ \<Rightarrow> []))))
         else Inr segments)"

section \<open>Flattening\<close>

definition full_key :: "string \<Rightarrow> string \<Rightarrow> string" where
  \<comment> \<open>\<open>prefix ? joinFieldPath(prefix, key) : key\<close>\<close>
  "full_key prefix key = (if prefix \<noteq> [] then joinFieldPath [prefix, key] else key)"

fun flatten_loop :: "string \<Rightarrow> props \<Rightarrow> props \<Rightarrow> props" where
  \<comment> \<open>the loop over \<open>Object.keys(obj)\<close>; the last argument is \<open>result\<close>\<close>
  "flatten_loop prefix [] result = result"
| "flatten_loop prefix ((key, value) # rest) result =
     flatten_loop prefix rest
       (case value of
          JObj o' \<Rightarrow> foldl (\<lambda>r (k, v). js_assign r k v) result (flatten_loop (full_key prefix key) o' [])
        | _ \<Rightarrow> js_assign result (full_key prefix key) value)"

definition flatten :: "props \<Rightarrow> props" where
  "flatten obj = flatten_loop [] obj []"

section \<open>Deep reads and writes\<close>

text \<open>
  \<open>setDeepProperty\<close> walks and mutates; the records it walks are trees, so the rebuilt
  tree is the mutated one. A \<open>Uint8Array\<close> on the way is an object to the code, and the
  property lands on the array object, outside its bytes.
\<close>

fun setDeepProperty :: "props \<Rightarrow> string list \<Rightarrow> jv \<Rightarrow> props" where
  "setDeepProperty obj [] value = obj"
| "setDeepProperty obj [p] value = js_assign obj p value"
| "setDeepProperty obj (p # q # ps) value =
     (case om_get obj p of
        Some (JObj child) \<Rightarrow> js_assign obj p (JObj (setDeepProperty child (q # ps) value))
      | Some (JBytes _) \<Rightarrow> obj
      | _ \<Rightarrow> js_assign obj p (JObj (setDeepProperty [] (q # ps) value)))"

definition unflatten :: "props \<Rightarrow> props" where
  "unflatten flat = foldl (\<lambda>result (key, v). setDeepProperty result (splitFieldPath key) v) [] flat"

fun getDeepProperty :: "jv option \<Rightarrow> string list \<Rightarrow> jv option" where
  "getDeepProperty current [] = current"
| "getDeepProperty current (part # parts) =
     (case current of
        Some (JObj ps) \<Rightarrow> getDeepProperty (om_get ps part) parts
      | Some (JBytes bs) \<Rightarrow> getDeepProperty (js_own (JBytes bs) part) parts
      | _ \<Rightarrow> None)"

section \<open>Splitting undoes joining\<close>

fun has_uu :: "string \<Rightarrow> bool" where
  \<comment> \<open>the name contains the delimiter\<close>
  "has_uu (c # d # s) = ((c = CHR ''_'' \<and> d = CHR ''_'') \<or> has_uu (d # s))"
| "has_uu _ = False"

definition ends_u :: "string \<Rightarrow> bool" where
  "ends_u s \<longleftrightarrow> s \<noteq> [] \<and> last s = CHR ''_''"

definition wf_segments :: "string list \<Rightarrow> bool" where
  \<comment> \<open>no name contains the delimiter, and none but the last ends in an underscore\<close>
  "wf_segments ps \<longleftrightarrow> ps \<noteq> [] \<and> (\<forall>p \<in> set ps. \<not> has_uu p) \<and> (\<forall>p \<in> set (butlast ps). \<not> ends_u p)"

lemma splitFieldPath_nonempty [simp]: "splitFieldPath s \<noteq> []"
  by (induction s rule: splitFieldPath.induct) (auto simp: push_char_def split: list.split)

lemma split_char_nonempty [simp]: "split_char c s \<noteq> []"
  by (induction s) (auto simp: push_char_def split: list.split)

lemma splitFieldPath_plain: "\<not> has_uu s \<Longrightarrow> splitFieldPath s = [s]"
  by (induction s rule: splitFieldPath.induct) (auto simp: push_char_def)

lemma splitFieldPath_join:
  "\<not> has_uu s \<Longrightarrow> \<not> ends_u s \<Longrightarrow> splitFieldPath (s @ ''__'' @ t) = s # splitFieldPath t"
proof (induction s rule: splitFieldPath.induct)
  case (2 c)
  then show ?case by (auto simp: ends_u_def push_char_def)
next
  case (3 c d s)
  then show ?case by (auto simp: ends_u_def push_char_def split: if_splits)
qed simp

lemma split_join: "wf_segments ps \<Longrightarrow> splitFieldPath (joinFieldPath ps) = ps"
proof (induction ps rule: joinFieldPath.induct)
  case (3 s s' ss)
  then have "wf_segments (s' # ss)" by (auto simp: wf_segments_def)
  with 3 show ?case
    by (simp add: wf_segments_def splitFieldPath_join [simplified])
qed (auto simp: wf_segments_def splitFieldPath_plain)

lemma join_split: "joinFieldPath (splitFieldPath s) = s"
proof (induction s rule: splitFieldPath.induct)
  case (3 c d s)
  show ?case
  proof (cases "c = CHR ''_'' \<and> d = CHR ''_''")
    case True
    with 3 show ?thesis by (cases "splitFieldPath s") auto
  next
    case False
    obtain p r where pr: "splitFieldPath (d # s) = p # r"
      by (cases "splitFieldPath (d # s)") auto
    with 3 False have "joinFieldPath (p # r) = d # s" by simp
    then have "joinFieldPath ((c # p) # r) = c # d # s" by (cases r) auto
    with False pr show ?thesis by (auto simp: push_char_def)
  qed
qed simp_all

lemma splitFieldPath_inj: "splitFieldPath s = splitFieldPath t \<Longrightarrow> s = t"
  by (metis join_split)

lemma joinFieldPath_Cons: "ps \<noteq> [] \<Longrightarrow> joinFieldPath (p # ps) = joinFieldPath [p, joinFieldPath ps]"
  by (cases ps) auto

lemma joinFieldPath_nonempty: "ps \<noteq> [] \<Longrightarrow> [] \<notin> set ps \<Longrightarrow> joinFieldPath ps \<noteq> []"
  by (induction ps rule: joinFieldPath.induct) auto

lemma joinFieldPath_snoc:
  "ps \<noteq> [] \<Longrightarrow> joinFieldPath (ps @ [k]) = joinFieldPath [joinFieldPath ps, k]"
  by (induction ps rule: joinFieldPath.induct) auto

lemma full_key_join:
  "[] \<notin> set ps \<Longrightarrow> full_key (joinFieldPath ps) k = joinFieldPath (ps @ [k])"
  by (cases "ps = []") (simp_all add: full_key_def joinFieldPath_nonempty joinFieldPath_snoc)

text \<open>A flat key is never an array index once it holds a delimiter.\<close>

lemma not_index_with_underscore: "CHR ''_'' \<in> set k \<Longrightarrow> \<not> is_index_key k"
  by (force simp: is_index_key_def list_all_iff is_digit_def)

lemma joinFieldPath_has_underscore: "CHR ''_'' \<in> set (joinFieldPath (p # q # ps))"
  by simp

section \<open>Unflattening undoes flattening\<close>

fun wf_nested :: "props \<Rightarrow> bool" where
  \<comment> \<open>what the round trip needs of a record: distinct non-empty names without the delimiter
      that are no array indices, no empty nested record, and no nested record under a name
      that ends in an underscore\<close>
  "wf_nested [] = True"
| "wf_nested ((k, v) # rest) =
     (k \<noteq> [] \<and> \<not> has_uu k \<and> \<not> is_index_key k \<and> k \<notin> fst ` set rest
      \<and> (case v of JObj ps \<Rightarrow> \<not> ends_u k \<and> ps \<noteq> [] \<and> wf_nested ps | _ \<Rightarrow> True)
      \<and> wf_nested rest)"

fun leaves :: "props \<Rightarrow> (string list \<times> jv) list" where
  \<comment> \<open>the specification of flattening: the leaf values with their paths, in order\<close>
  "leaves [] = []"
| "leaves ((k, v) # rest) =
     (case v of JObj ps \<Rightarrow> map (\<lambda>(p, w). (k # p, w)) (leaves ps) | _ \<Rightarrow> [([k], v)]) @ leaves rest"

definition leaf_path :: "string list \<Rightarrow> bool" where
  "leaf_path p \<longleftrightarrow> wf_segments p \<and> [] \<notin> set p \<and> (\<forall>k. p = [k] \<longrightarrow> \<not> is_index_key k)"

lemma wf_segments_Cons:
  "ps \<noteq> [] \<Longrightarrow> wf_segments (k # ps) \<longleftrightarrow> \<not> has_uu k \<and> \<not> ends_u k \<and> wf_segments ps"
  by (auto simp: wf_segments_def)

lemma leaf_path_Cons:
  "leaf_path p \<Longrightarrow> k \<noteq> [] \<Longrightarrow> \<not> has_uu k \<Longrightarrow> \<not> ends_u k \<Longrightarrow> leaf_path (k # p)"
  by (auto simp: leaf_path_def wf_segments_Cons wf_segments_def)

lemma leaves_leaf_path: "wf_nested obj \<Longrightarrow> (p, v) \<in> set (leaves obj) \<Longrightarrow> leaf_path p"
proof (induction obj arbitrary: p v rule: leaves.induct)
  case (2 k w rest)
  show ?case
  proof (cases "(p, v) \<in> set (leaves rest)")
    case True
    with 2 show ?thesis by simp
  next
    case False
    with 2 show ?thesis
      by (cases w) (auto simp: leaf_path_def wf_segments_def dest: leaf_path_Cons
        intro: leaf_path_Cons [unfolded leaf_path_def wf_segments_def])
  qed
qed simp

lemma leaves_head: "(p, v) \<in> set (leaves obj) \<Longrightarrow> \<exists>k q. p = k # q \<and> k \<in> fst ` set obj"
  by (induction obj rule: leaves.induct) (auto split: jv.splits)

lemma leaves_not_obj: "(p, v) \<in> set (leaves obj) \<Longrightarrow> \<not> is_plain_record v"
  by (induction obj arbitrary: p v rule: leaves.induct) (auto split: jv.splits)

lemma leaves_distinct: "wf_nested obj \<Longrightarrow> distinct (map fst (leaves obj))"
proof (induction obj rule: leaves.induct)
  case (2 k v rest)
  have *: "hd p \<noteq> k" if "(p, w) \<in> set (leaves rest)" for p w
    using leaves_head [OF that] "2.prems" by (auto simp: image_iff split_paired_All)
  have "map fst (map (\<lambda>(p, w). (k # p, w)) l) = map ((#) k) (map fst l)" for l :: "(string list \<times> jv) list"
    by (induction l) auto
  then show ?case using 2 by (cases v) (auto simp: distinct_map inj_on_def image_iff dest!: *)
qed simp

lemma leaves_nonempty: "wf_nested obj \<Longrightarrow> obj \<noteq> [] \<Longrightarrow> leaves obj \<noteq> []"
  by (induction obj rule: leaves.induct) (auto split: jv.splits)

definition plain_key :: "string \<Rightarrow> bool" where
  \<comment> \<open>a name whose assignment appends a fresh property\<close>
  "plain_key k \<longleftrightarrow> \<not> is_index_key k \<and> k \<noteq> ''__proto__''"

lemma leaf_path_plain_key: "leaf_path p \<Longrightarrow> plain_key (joinFieldPath p)"
proof -
  assume p: "leaf_path p"
  then have "splitFieldPath (joinFieldPath p) = p" by (simp add: leaf_path_def split_join)
  moreover have "splitFieldPath ''__proto__'' = [[], ''proto'', []]"
    by (simp add: push_char_def)
  ultimately have "joinFieldPath p \<noteq> ''__proto__''" using p by (auto simp: leaf_path_def)
  moreover have "\<not> is_index_key (joinFieldPath p)"
    using p by (cases p rule: joinFieldPath.cases)
      (auto simp: leaf_path_def wf_segments_def intro!: not_index_with_underscore)
  ultimately show ?thesis by (simp add: plain_key_def)
qed

lemma js_assign_fresh: "plain_key k \<Longrightarrow> k \<notin> fst ` set ps \<Longrightarrow> js_assign ps k v = ps @ [(k, v)]"
  by (simp add: plain_key_def js_assign_def js_put_plain om_set_fresh)

lemma foldl_js_assign_fresh:
  "\<forall>k \<in> set (map fst kvs). plain_key k \<and> k \<notin> fst ` set r \<Longrightarrow> distinct (map fst kvs)
   \<Longrightarrow> foldl (\<lambda>r (k, v). js_assign r k v) r kvs = r @ kvs"
proof (induction kvs arbitrary: r)
  case (Cons p kvs)
  obtain k v where p: "p = (k, v)" by (cases p)
  have "foldl (\<lambda>r (k, v). js_assign r k v) (r @ [(k, v)]) kvs = (r @ [(k, v)]) @ kvs"
    using Cons.prems p by (intro Cons.IH) auto
  with Cons.prems p show ?case by (simp add: js_assign_fresh)
qed simp

definition join_leaves :: "string list \<Rightarrow> (string list \<times> jv) list \<Rightarrow> props" where
  "join_leaves pre l = map (\<lambda>(p, w). (joinFieldPath (pre @ p), w)) l"

definition prefix_ok :: "string list \<Rightarrow> bool" where
  "prefix_ok pre \<longleftrightarrow> (\<forall>p \<in> set pre. p \<noteq> [] \<and> \<not> has_uu p \<and> \<not> ends_u p)"

lemma leaf_path_append: "prefix_ok pre \<Longrightarrow> leaf_path p \<Longrightarrow> leaf_path (pre @ p)"
  by (induction pre) (auto simp: prefix_ok_def intro: leaf_path_Cons)

lemma joinFieldPath_inj: "leaf_path p \<Longrightarrow> leaf_path q \<Longrightarrow> joinFieldPath p = joinFieldPath q \<longleftrightarrow> p = q"
  by (metis leaf_path_def split_join)

lemma join_leaves_keys:
  assumes "wf_nested obj" and "prefix_ok pre"
  shows "distinct (map fst (join_leaves pre (leaves obj)))"
    and "\<forall>k \<in> set (map fst (join_leaves pre (leaves obj))). plain_key k"
proof -
  have lp: "leaf_path (pre @ p)" if "(p, w) \<in> set (leaves obj)" for p w
    using assms that by (blast intro: leaf_path_append leaves_leaf_path)
  have "inj_on (\<lambda>p. joinFieldPath (pre @ p)) (fst ` set (leaves obj))"
    using lp by (auto simp: inj_on_def joinFieldPath_inj)
  with leaves_distinct [OF assms(1)] have "distinct (map (\<lambda>p. joinFieldPath (pre @ p)) (map fst (leaves obj)))"
    by (simp add: distinct_map del: map_map)
  moreover have "map fst (join_leaves pre l) = map (\<lambda>p. joinFieldPath (pre @ p)) (map fst l)" for l
    by (auto simp: join_leaves_def)
  ultimately show "distinct (map fst (join_leaves pre (leaves obj)))" by simp
  show "\<forall>k \<in> set (map fst (join_leaves pre (leaves obj))). plain_key k"
    using lp leaf_path_plain_key by (fastforce simp: join_leaves_def)
qed

lemma flatten_loop_leaves:
  assumes "wf_nested obj" and "prefix_ok pre"
    and "\<forall>k \<in> fst ` set (join_leaves pre (leaves obj)). k \<notin> fst ` set r"
  shows "flatten_loop (joinFieldPath pre) obj r = r @ join_leaves pre (leaves obj)"
  using assms
proof (induction obj arbitrary: pre r rule: leaves.induct)
  case (2 k v rest)
  let ?here = "case v of JObj ps \<Rightarrow> map (\<lambda>(p, w). (k # p, w)) (leaves ps) | _ \<Rightarrow> [([k], v)]"
  have nempty: "[] \<notin> set pre" using "2.prems"(2) by (auto simp: prefix_ok_def)
  have split: "join_leaves pre (leaves ((k, v) # rest)) = join_leaves pre ?here @ join_leaves pre (leaves rest)"
    by (simp add: join_leaves_def)
  have dist: "distinct (map fst (join_leaves pre ?here @ join_leaves pre (leaves rest)))"
    and plain: "\<forall>k \<in> set (map fst (join_leaves pre ?here @ join_leaves pre (leaves rest))). plain_key k"
    using join_leaves_keys [OF "2.prems"(1,2)] unfolding split by auto
  have step: "(case v of
          JObj o' \<Rightarrow> foldl (\<lambda>r (k, v). js_assign r k v) r (flatten_loop (full_key (joinFieldPath pre) k) o' [])
        | _ \<Rightarrow> js_assign r (full_key (joinFieldPath pre) k) v) = r @ join_leaves pre ?here"
  proof (cases v)
    case (JObj ps)
    have "prefix_ok (pre @ [k])" using "2.prems" JObj by (auto simp: prefix_ok_def)
    then have "flatten_loop (joinFieldPath (pre @ [k])) ps [] = join_leaves (pre @ [k]) (leaves ps)"
      using "2.IH"(1) [OF JObj, of "pre @ [k]" "[]"] "2.prems" JObj by simp
    also have "\<dots> = join_leaves pre ?here"
      using JObj by (auto simp: join_leaves_def)
    finally have "flatten_loop (full_key (joinFieldPath pre) k) ps [] = join_leaves pre ?here"
      by (simp add: full_key_join nempty)
    moreover have "foldl (\<lambda>r (k, v). js_assign r k v) r (join_leaves pre ?here) = r @ join_leaves pre ?here"
      using dist plain "2.prems"(3) unfolding split by (intro foldl_js_assign_fresh) auto
    ultimately show ?thesis using JObj by simp
  qed (use dist plain "2.prems"(3) nempty in
      \<open>auto simp: split join_leaves_def full_key_join intro!: js_assign_fresh\<close>)
  have "flatten_loop (joinFieldPath pre) rest (r @ join_leaves pre ?here)
      = (r @ join_leaves pre ?here) @ join_leaves pre (leaves rest)"
    using dist "2.prems" unfolding split by (intro "2.IH"(2)) auto
  with step show ?case unfolding split by simp
qed (simp add: join_leaves_def)

lemma flatten_leaves: "wf_nested obj \<Longrightarrow> flatten obj = join_leaves [] (leaves obj)"
  using flatten_loop_leaves [of obj "[]" "[]"] by (simp add: flatten_def prefix_ok_def)

subsection \<open>Writing the leaves back\<close>

abbreviation set_leaves :: "props \<Rightarrow> (string list \<times> jv) list \<Rightarrow> props" where
  "set_leaves r l \<equiv> foldl (\<lambda>r (p, v). setDeepProperty r p v) r l"

lemma om_get_append_fresh: "k \<notin> fst ` set r \<Longrightarrow> om_get (r @ [(k, v)]) k = Some v"
  by (induction r) auto

lemma om_set_append_last: "k \<notin> fst ` set r \<Longrightarrow> om_set (r @ [(k, v)]) k w = r @ [(k, w)]"
  by (induction r) auto

lemma js_assign_append_last:
  "plain_key k \<Longrightarrow> k \<notin> fst ` set r \<Longrightarrow> js_assign (r @ [(k, v)]) k w = r @ [(k, w)]"
  by (simp add: plain_key_def js_assign_def js_put_plain om_set_append_last)

lemma setDeepProperty_last:
  "plain_key k \<Longrightarrow> k \<notin> fst ` set r \<Longrightarrow> p \<noteq> [] \<Longrightarrow>
   setDeepProperty (r @ [(k, JObj c)]) (k # p) v = r @ [(k, JObj (setDeepProperty c p v))]"
  by (cases p) (simp_all add: om_get_append_fresh js_assign_append_last)

lemma setDeepProperty_fresh:
  "plain_key k \<Longrightarrow> k \<notin> fst ` set r \<Longrightarrow> p \<noteq> [] \<Longrightarrow>
   setDeepProperty r (k # p) v = r @ [(k, JObj (setDeepProperty [] p v))]"
  by (cases p) (auto simp: js_assign_fresh om_get_None_iff [THEN iffD2])

lemma set_leaves_nested:
  "plain_key k \<Longrightarrow> k \<notin> fst ` set r \<Longrightarrow> \<forall>p \<in> fst ` set l. p \<noteq> [] \<Longrightarrow>
   set_leaves (r @ [(k, JObj c)]) (map (\<lambda>(p, w). (k # p, w)) l) = r @ [(k, JObj (set_leaves c l))]"
  by (induction l arbitrary: c) (auto simp: setDeepProperty_last)

lemma set_leaves_nested_fresh:
  assumes "plain_key k" "k \<notin> fst ` set r" "\<forall>p \<in> fst ` set l. p \<noteq> []" "l \<noteq> []"
  shows "set_leaves r (map (\<lambda>(p, w). (k # p, w)) l) = r @ [(k, JObj (set_leaves [] l))]"
proof -
  obtain p w l' where l: "l = (p, w) # l'" using assms(4) by (cases l) auto
  have "set_leaves r (map (\<lambda>(p, w). (k # p, w)) l)
      = set_leaves (r @ [(k, JObj (setDeepProperty [] p w))]) (map (\<lambda>(p, w). (k # p, w)) l')"
    using assms l by (simp add: setDeepProperty_fresh)
  also have "\<dots> = r @ [(k, JObj (set_leaves (setDeepProperty [] p w) l'))]"
    using assms l by (intro set_leaves_nested) auto
  finally show ?thesis using l by simp
qed

lemma name_plain_key: "k \<noteq> [] \<Longrightarrow> \<not> has_uu k \<Longrightarrow> \<not> is_index_key k \<Longrightarrow> plain_key k"
  by (auto simp: plain_key_def)

lemma set_leaves_leaves:
  "wf_nested obj \<Longrightarrow> fst ` set obj \<inter> fst ` set r = {} \<Longrightarrow> set_leaves r (leaves obj) = r @ obj"
proof (induction obj arbitrary: r rule: leaves.induct)
  case (2 k v rest)
  let ?here = "case v of JObj ps \<Rightarrow> map (\<lambda>(p, w). (k # p, w)) (leaves ps) | _ \<Rightarrow> [([k], v)]"
  have k: "plain_key k" "k \<notin> fst ` set r" using "2.prems" by (auto intro: name_plain_key)
  have "set_leaves r ?here = r @ [(k, v)]"
  proof (cases v)
    case (JObj ps)
    then have ps: "wf_nested ps" "ps \<noteq> []" using "2.prems" by auto
    have "\<forall>p \<in> fst ` set (leaves ps). p \<noteq> []" by (auto dest: leaves_head)
    with k ps JObj show ?thesis
      using "2.IH"(1) [OF JObj ps(1), of "[]"]
      by (simp add: set_leaves_nested_fresh leaves_nonempty)
  qed (use k in \<open>simp_all add: js_assign_fresh\<close>)
  moreover have "set_leaves (r @ [(k, v)]) (leaves rest) = (r @ [(k, v)]) @ rest"
    using "2.prems" by (intro "2.IH"(2)) auto
  ultimately show ?case by simp
qed simp

lemma unflatten_join_leaves:
  assumes "\<forall>p \<in> fst ` set l. leaf_path p"
  shows "unflatten (join_leaves [] l) = set_leaves [] l"
proof -
  have "foldl (\<lambda>r (k, v). setDeepProperty r (splitFieldPath k) v) r (join_leaves [] l) = set_leaves r l" for r
    using assms
    by (induction l arbitrary: r) (auto simp: join_leaves_def leaf_path_def split_join)
  then show ?thesis by (simp add: unflatten_def)
qed

lemma unflatten_flatten_nested: "wf_nested obj \<Longrightarrow> unflatten (flatten obj) = obj"
proof -
  assume obj: "wf_nested obj"
  then have "\<forall>p \<in> fst ` set (leaves obj). leaf_path p"
    by (auto intro: leaves_leaf_path)
  with obj show ?thesis
    using set_leaves_leaves [of obj "[]"] by (simp add: flatten_leaves unflatten_join_leaves)
qed

subsection \<open>Laws of deep reads and writes\<close>

lemma getDeepProperty_None [simp]: "getDeepProperty None ps = None"
  by (cases ps) auto

fun deep_writable :: "props \<Rightarrow> string list \<Rightarrow> bool" where
  \<comment> \<open>no segment is \<open>__proto__\<close>, and no byte array lies on the way\<close>
  "deep_writable obj [] = False"
| "deep_writable obj [p] = (p \<noteq> ''__proto__'')"
| "deep_writable obj (p # q # ps) =
     (p \<noteq> ''__proto__'' \<and>
      (case om_get obj p of
         Some (JObj child) \<Rightarrow> deep_writable child (q # ps)
       | Some (JBytes _) \<Rightarrow> False
       | _ \<Rightarrow> deep_writable [] (q # ps)))"

lemma om_get_js_assign: "k \<noteq> ''__proto__'' \<Longrightarrow> om_get (js_assign ps k v) k' = (if k' = k then Some v else om_get ps k')"
  by (simp add: js_assign_def)

lemma get_set_same:
  "deep_writable obj ps \<Longrightarrow> getDeepProperty (Some (JObj (setDeepProperty obj ps v))) ps = Some v"
  by (induction obj ps v rule: setDeepProperty.induct)
    (auto simp: om_get_js_assign split: option.splits jv.splits)

lemma get_empty: "ps \<noteq> [] \<Longrightarrow> getDeepProperty (Some (JObj [])) ps = None"
  by (cases ps) auto

text \<open>Paths fork when they agree up to a point and then take different names.\<close>

fun forks :: "string list \<Rightarrow> string list \<Rightarrow> bool" where
  "forks (p # ps) (q # qs) = (if p = q then forks ps qs else True)"
| "forks _ _ = False"

lemma js_assign_proto [simp]: "js_assign ps ''__proto__'' v = ps"
  by (simp add: js_assign_def)

lemma om_get_js_assign_other: "k' \<noteq> k \<Longrightarrow> om_get (js_assign ps k v) k' = om_get ps k'"
  by (simp add: js_assign_def)

lemma getDeepProperty_scalar: "ps \<noteq> [] \<Longrightarrow> \<not> is_plain_record v \<Longrightarrow> (\<forall>b. v \<noteq> JBytes b) \<Longrightarrow>
   getDeepProperty (Some v) ps = None"
  by (cases ps; cases v) auto

lemma get_set_forks:
  "forks ps qs \<Longrightarrow> deep_writable obj ps \<Longrightarrow>
   getDeepProperty (Some (JObj (setDeepProperty obj ps v))) qs = getDeepProperty (Some (JObj obj)) qs"
proof (induction ps arbitrary: obj qs)
  case (Cons p ps)
  obtain r rs where qs: "qs = r # rs" using Cons.prems(1) by (cases qs) auto
  consider "r \<noteq> p" | "r = p" "forks ps rs" using Cons.prems(1) by (auto simp: qs split: if_splits)
  then show ?case
  proof cases
    case 1
    then show ?thesis
      by (cases ps) (auto simp: qs om_get_js_assign_other split: option.splits jv.splits)
  next
    case 2
    then obtain q ps' where ps: "ps = q # ps'" and rs: "rs \<noteq> []"
      by (cases ps; cases rs) auto
    have empty: "deep_writable [] ps \<Longrightarrow> getDeepProperty (Some (JObj (setDeepProperty [] ps v))) rs = None"
      using Cons.IH [of rs "[]"] 2 by (simp add: get_empty rs)
    show ?thesis
    proof (cases "om_get obj p")
      case None
      with Cons.prems(2) empty 2 ps show ?thesis by (simp add: qs om_get_js_assign)
    next
      case (Some w)
      with Cons.prems(2) empty Cons.IH 2 ps rs show ?thesis
        by (cases w) (auto simp: qs om_get_js_assign getDeepProperty_scalar)
    qed
  qed
qed simp

section \<open>Path normalisation\<close>

fun join_dot :: "string list \<Rightarrow> string" where
  "join_dot [] = []"
| "join_dot [s] = s"
| "join_dot (s # s' # ss) = s @ CHR ''.'' # join_dot (s' # ss)"

lemma join_split_char: "join_dot (split_char CHR ''.'' s) = s"
proof (induction s)
  case (Cons x s)
  obtain p r where "split_char CHR ''.'' s = p # r" by (cases "split_char CHR ''.'' s") auto
  with Cons show ?case by (cases r) (auto simp: push_char_def)
qed simp

lemma split_char_no_sep: "p \<in> set (split_char c s) \<Longrightarrow> c \<notin> set p"
  by (induction s arbitrary: p) (auto simp: push_char_def split: if_splits list.splits)

lemma split_char_join_dot:
  "ps \<noteq> [] \<Longrightarrow> \<forall>p \<in> set ps. CHR ''.'' \<notin> set p \<Longrightarrow> split_char CHR ''.'' (join_dot ps) = ps"
proof (induction ps rule: join_dot.induct)
  case (2 s)
  then show ?case by (induction s) (auto simp: push_char_def)
next
  case (3 s s' ss)
  have "CHR ''.'' \<notin> set s \<Longrightarrow> split_char CHR ''.'' (s @ CHR ''.'' # t) = s # split_char CHR ''.'' t" for t
    by (induction s) (auto simp: push_char_def)
  with 3 show ?case by simp
qed simp

section \<open>Properties\<close>

text \<open>C9: A nested record survives the wire's flat form: unflattening what \<open>flatten\<close> produced
  gives the record back, property order included, when its names are non-empty and distinct,
  hold no \<open>__\<close>, are no array indices, and every nested record is non-empty and sits under a
  name that does not end in an underscore.\<close>

theorem flatten_roundtrip: "wf_nested obj \<Longrightarrow> unflatten (flatten obj) = obj"
  by (rule unflatten_flatten_nested)

theorem flatten_roundtrip_witness:
  "unflatten (flatten [(''id'', JStr ''u1''), (''address'', JObj [(''city'', JStr ''Oslo''), (''zip'', JNum (Fin 150))])])
   = [(''id'', JStr ''u1''), (''address'', JObj [(''city'', JStr ''Oslo''), (''zip'', JNum (Fin 150))])]"
  by (rule flatten_roundtrip) (simp add: is_index_key_def ends_u_def is_digit_def)

text \<open>The flat form of a record lists exactly its leaf values, in order, each under its path
  joined with the delimiter, and no value in it is itself a plain record.\<close>

theorem flatten_lists_leaves:
  "wf_nested obj \<Longrightarrow>
   flatten obj = map (\<lambda>(p, v). (joinFieldPath p, v)) (leaves obj)
   \<and> (\<forall>(k, v) \<in> set (flatten obj). \<not> is_plain_record v)"
  by (auto simp: flatten_leaves join_leaves_def dest: leaves_not_obj)

theorem flatten_lists_leaves_witness:
  "flatten [(''pos'', JObj [(''x'', JNull), (''y'', JArr [])])] = [(''pos__x'', JNull), (''pos__y'', JArr [])]"
  using flatten_lists_leaves [of "[(''pos'', JObj [(''x'', JNull), (''y'', JArr [])])]"]
  by (simp add: is_index_key_def ends_u_def is_digit_def)

text \<open>Without that condition the flat form is ambiguous: a record nested under a name that
  ends in an underscore (the schema grammar admits such names) flattens to the same key as
  one nested under the shorter name, so decoding puts its value in the wrong record.\<close>

theorem flatten_trailing_underscore_collides:
  "flatten [(''tag_'', JObj [(''x'', v)])] = flatten [(''tag'', JObj [(''_x'', v)])]
   \<and> unflatten (flatten [(''tag_'', JObj [(''x'', JNull)])]) = [(''tag'', JObj [(''_x'', JNull)])]"
proof -
  have "\<not> is_index_key ''tag___x''" "\<not> is_index_key ''tag''" "\<not> is_index_key ''_x''"
    by (simp_all add: is_index_key_def is_digit_def)
  then show ?thesis
    by (cases v) (simp_all add: flatten_def unflatten_def full_key_def js_assign_def js_put_plain push_char_def)
qed

text \<open>Deep writes behave as a store of paths: what \<open>setDeepProperty\<close> wrote is read back by
  \<open>getDeepProperty\<close> at the same path, and a path that forks from the written one reads as
  before, for paths that pass no byte array and no \<open>__proto__\<close>.\<close>

theorem setDeepProperty_laws:
  "deep_writable obj ps \<Longrightarrow>
   getDeepProperty (Some (JObj (setDeepProperty obj ps v))) ps = Some v
   \<and> (\<forall>qs. forks ps qs \<longrightarrow>
        getDeepProperty (Some (JObj (setDeepProperty obj ps v))) qs = getDeepProperty (Some (JObj obj)) qs)"
  by (simp add: get_set_same get_set_forks)

theorem setDeepProperty_laws_witness:
  "getDeepProperty (Some (JObj (setDeepProperty [(''a'', JObj [(''c'', JNull)])] [''a'', ''b''] (JBool True)))) [''a'', ''b'']
     = Some (JBool True)
   \<and> getDeepProperty (Some (JObj (setDeepProperty [(''a'', JObj [(''c'', JNull)])] [''a'', ''b''] (JBool True)))) [''a'', ''c'']
     = Some JNull"
proof -
  have w: "deep_writable [(''a'', JObj [(''c'', JNull)])] [''a'', ''b'']" by simp
  note laws = setDeepProperty_laws [OF w, of "JBool True"]
  have "forks [''a'', ''b''] [''a'', ''c'']" by simp
  with laws show ?thesis by fastforce
qed

text \<open>\<open>normalizePath\<close> succeeds exactly on paths with at least one segment and no empty one;
  the segments of a dot string then join back to it and hold no dot, every failure is a
  non-retryable client error with code INVALID_PATH, and a segment list passes unchanged.\<close>

theorem normalizePath_spec:
  "((\<exists>ss. normalizePath (PStr s) = Inr ss) \<longleftrightarrow> [] \<notin> set (split_char CHR ''.'' s))
   \<and> (\<forall>ss. normalizePath (PStr s) = Inr ss \<longrightarrow>
        join_dot ss = s \<and> ss \<noteq> [] \<and> (\<forall>p \<in> set ss. p \<noteq> [] \<and> CHR ''.'' \<notin> set p))
   \<and> (\<forall>l ss. normalizePath (PSegs l) = Inr ss \<longleftrightarrow> l \<noteq> [] \<and> [] \<notin> set l \<and> ss = l)
   \<and> (\<forall>p t. normalizePath p = Inl t \<longrightarrow>
        (\<exists>e. t = TZync e \<and> ze_code e = ''INVALID_PATH'' \<and> ze_category e = ''client'' \<and> \<not> ze_retryable e))"
  by (auto simp: normalizePath_def Let_def path_error_def join_split_char
      dest: split_char_no_sep split: if_splits)

theorem normalizePath_spec_witness:
  "normalizePath (PStr ''users.u1.name'') = Inr [''users'', ''u1'', ''name'']
   \<and> join_dot [''users'', ''u1'', ''name''] = ''users.u1.name''
   \<and> (\<exists>e. normalizePath (PStr ''users..name'') = Inl (TZync e) \<and> ze_code e = ''INVALID_PATH'')"
proof -
  have ok: "normalizePath (PStr ''users.u1.name'') = Inr [''users'', ''u1'', ''name'']"
    by (simp add: normalizePath_def push_char_def)
  obtain t where bad: "normalizePath (PStr ''users..name'') = Inl t"
    by (simp add: normalizePath_def push_char_def)
  from normalizePath_spec [of "''users.u1.name''"] ok have "join_dot [''users'', ''u1'', ''name''] = ''users.u1.name''"
    by blast
  moreover from normalizePath_spec bad have "\<exists>e. t = TZync e \<and> ze_code e = ''INVALID_PATH''" by blast
  ultimately show ?thesis using ok bad by auto
qed

end
