(* ===== verification/Digits.thy ===== *)
theory Digits
  imports Prelude
begin

text \<open>
  Mixed-radix numerals, which both document-id packings are: the value of a digit list, its
  digits back, and the fact that equal-length digit lists are ordered as their values.
  Also the lexicographic order itself (JavaScript's string order, the server's byte order)
  and the bit operations of the packing code as arithmetic.
\<close>

unbundle bit_operations_syntax

section \<open>Lexicographic order\<close>

fun list_lt :: "'a::linorder list \<Rightarrow> 'a list \<Rightarrow> bool" where
  "list_lt _ [] = False"
| "list_lt [] (_ # _) = True"
| "list_lt (x # xs) (y # ys) = (x < y \<or> x = y \<and> list_lt xs ys)"

lemma list_lt_irrefl [simp]: "\<not> list_lt xs xs"
  by (induction xs) auto

lemma list_lt_asym: "list_lt xs ys \<Longrightarrow> \<not> list_lt ys xs"
  by (induction xs ys rule: list_lt.induct) auto

lemma list_lt_trans: "list_lt xs ys \<Longrightarrow> list_lt ys zs \<Longrightarrow> list_lt xs zs"
proof (induction xs ys arbitrary: zs rule: list_lt.induct)
  case (2 y ys)
  then show ?case by (cases zs) auto
next
  case (3 x xs y ys)
  then show ?case by (cases zs) auto
qed simp

lemma list_lt_linear: "list_lt xs ys \<or> xs = ys \<or> list_lt ys xs"
proof (induction xs ys rule: list_lt.induct)
  case (1 xs)
  then show ?case by (cases xs) auto
qed auto

text \<open>Digit-wise strictly monotone relabelling keeps the order.\<close>

lemma list_lt_map2:
  "list_all2 (\<lambda>(x, x') (y, y'). (x < y \<longleftrightarrow> x' < y') \<and> (x = y \<longleftrightarrow> x' = y')) xs ys
   \<Longrightarrow> list_lt (map fst xs) (map fst ys) = list_lt (map snd xs) (map snd ys)"
  by (induction xs ys rule: list_all2_induct) auto

lemma list_lt_map_mono:
  assumes "\<forall>x \<in> set xs \<union> set ys. \<forall>y \<in> set xs \<union> set ys. f x < f y \<longleftrightarrow> x < y"
    and "\<forall>x \<in> set xs \<union> set ys. \<forall>y \<in> set xs \<union> set ys. f x = f y \<longleftrightarrow> x = y"
  shows "list_lt (map f xs) (map f ys) = list_lt xs ys"
  using assms by (induction xs ys rule: list_lt.induct) auto

lemma list_lt_append: "list_lt (xs @ ys) (xs @ zs) = list_lt ys zs"
  by (induction xs) auto

text \<open>Padding with a symbol below all others keeps the order.\<close>

lemma list_lt_pad:
  assumes "\<forall>x \<in> set xs. z < x" "\<forall>y \<in> set ys. z < y"
    and "length xs + m = length ys + n"
  shows "list_lt (xs @ replicate m z) (ys @ replicate n z) = list_lt xs ys"
  using assms
proof (induction xs ys arbitrary: m n rule: list_lt.induct)
  case (1 xs)
  then show ?case
  proof (cases xs)
    case (Cons a list)
    then show ?thesis using 1 by (cases n) auto
  qed auto
next
  case (2 y ys)
  then show ?case by (cases m) auto
qed auto

section \<open>Mixed-radix numerals\<close>

fun mixv :: "nat list \<Rightarrow> nat list \<Rightarrow> nat" where
  "mixv (r # rs) (d # ds) = d * prod_list rs + mixv rs ds"
| "mixv _ _ = 0"

fun mixdig :: "nat list \<Rightarrow> nat \<Rightarrow> nat list" where
  "mixdig [] n = []"
| "mixdig (r # rs) n = (n div prod_list rs mod r) # mixdig rs n"

definition digits_ok :: "nat list \<Rightarrow> nat list \<Rightarrow> bool" where
  "digits_ok rs ds \<longleftrightarrow> list_all2 (\<lambda>r d. d < r) rs ds"

lemma digits_ok_simps [simp]:
  "digits_ok [] ds \<longleftrightarrow> ds = []"
  "digits_ok (r # rs) ds \<longleftrightarrow> (\<exists>d ds'. ds = d # ds' \<and> d < r \<and> digits_ok rs ds')"
  by (auto simp: digits_ok_def list_all2_Cons1)

lemma mixv_bound: "digits_ok rs ds \<Longrightarrow> mixv rs ds < prod_list rs"
proof (induction rs arbitrary: ds)
  case (Cons r rs)
  then obtain d ds' where ds: "ds = d # ds'" "d < r" "digits_ok rs ds'" by auto
  with Cons.IH have "mixv rs ds' < prod_list rs" by blast
  then have "mixv (r # rs) ds < (d + 1) * prod_list rs" by (simp add: ds)
  also have "\<dots> \<le> r * prod_list rs" using ds by (intro mult_le_mono1) simp
  finally show ?case by simp
qed simp

lemma mixdig_length [simp]: "length (mixdig rs n) = length rs"
  by (induction rs) auto

lemma mixdig_ok: "\<forall>r \<in> set rs. 0 < r \<Longrightarrow> digits_ok rs (mixdig rs n)"
  by (induction rs) auto

lemma mixdig_add: "mixdig rs (q * prod_list rs + n) = mixdig rs n"
proof (induction rs arbitrary: q n)
  case (Cons r rs)
  have "(q * (r * prod_list rs) + n) div prod_list rs mod r = n div prod_list rs mod r"
  proof (cases "prod_list rs = 0")
    case False
    have "q * (r * prod_list rs) + n = n + (q * r) * prod_list rs" by simp
    with False show ?thesis by (simp only: div_mult_self1) simp
  qed simp
  moreover have "mixdig rs (q * (r * prod_list rs) + n) = mixdig rs n"
    using Cons.IH [of "q * r" n] by (simp add: mult.assoc)
  ultimately show ?case by simp
qed simp

lemma mixdig_mixv: "digits_ok rs ds \<Longrightarrow> mixdig rs (mixv rs ds) = ds"
proof (induction rs arbitrary: ds)
  case (Cons r rs)
  then obtain d ds' where ds: "ds = d # ds'" "d < r" "digits_ok rs ds'" by auto
  have "mixv rs ds' < prod_list rs" using ds by (simp add: mixv_bound)
  with ds Cons.IH show ?case by (simp add: mixdig_add)
qed simp

lemma mixv_mixdig: "mixv rs (mixdig rs n) = n mod prod_list rs"
proof (induction rs)
  case (Cons r rs)
  have "n mod (r * prod_list rs) = n mod (prod_list rs * r)" by (simp only: mult.commute)
  also have "\<dots> = prod_list rs * (n div prod_list rs mod r) + n mod prod_list rs"
    by (rule mod_mult2_eq)
  finally show ?case using Cons by simp
qed simp

lemma mixv_less_iff:
  "digits_ok rs xs \<Longrightarrow> digits_ok rs ys \<Longrightarrow> mixv rs xs < mixv rs ys \<longleftrightarrow> list_lt xs ys"
proof (induction rs arbitrary: xs ys)
  case (Cons r rs)
  then obtain x xs' y ys' where *: "xs = x # xs'" "ys = y # ys'" "digits_ok rs xs'" "digits_ok rs ys'"
    by auto
  let ?P = "prod_list rs"
  have b: "mixv rs xs' < ?P" "mixv rs ys' < ?P" using * by (auto intro: mixv_bound)
  have lt: "a * ?P + u < b * ?P + v" if "a < b" "u < ?P" for a b u v
  proof -
    have "a * ?P + u < (a + 1) * ?P" using that by simp
    also have "\<dots> \<le> b * ?P" using that by (intro mult_le_mono1) simp
    finally show ?thesis by simp
  qed
  show ?case
  proof (cases x y rule: linorder_cases)
    case less
    then show ?thesis using lt b * by simp
  next
    case equal
    then show ?thesis using Cons.IH * by simp
  next
    case greater
    then have "mixv (r # rs) ys < mixv (r # rs) xs" using lt b * by simp
    then show ?thesis using greater * by auto
  qed
qed simp

lemma mixv_inj: "digits_ok rs xs \<Longrightarrow> digits_ok rs ys \<Longrightarrow> mixv rs xs = mixv rs ys \<longleftrightarrow> xs = ys"
  by (metis mixdig_mixv)

text \<open>The same value built digit by digit from the most significant one, as the code does.\<close>

lemma foldl_mix:
  "length rs = length ds \<Longrightarrow>
   foldl (\<lambda>n (r, d). n * r + d) n (zip rs ds) = n * prod_list rs + mixv rs ds"
  by (induction rs ds arbitrary: n rule: list_induct2) (auto simp: algebra_simps)

lemma foldl_horner:
  "foldl (\<lambda>n d. n * b + d) n ds = n * b ^ length ds + mixv (replicate (length ds) b) ds"
  by (induction ds arbitrary: n) (auto simp: algebra_simps)

lemma prod_list_replicate: "prod_list (replicate n (b :: nat)) = b ^ n"
  by (induction n) auto

lemma digits_ok_replicate: "digits_ok (replicate n b) ds \<longleftrightarrow> length ds = n \<and> (\<forall>d \<in> set ds. d < b)"
  by (induction n arbitrary: ds) (auto simp: length_Suc_conv)

lemma mixdig_snoc: "mixdig (rs @ [r]) n = mixdig rs (n div r) @ [n mod r]"
  by (induction rs) (simp_all add: div_mult2_eq mult.commute)

lemma mixv_append:
  "length rs = length ds \<Longrightarrow> mixv (rs @ rs') (ds @ ds') = mixv rs ds * prod_list rs' + mixv rs' ds'"
  by (induction rs ds rule: list_induct2) (auto simp: algebra_simps)

lemma replicate_Suc_snoc: "replicate (Suc n) x = replicate n x @ [x]"
  by (simp add: replicate_append_same)

lemma mixdig_replicate_Suc:
  "mixdig (replicate (Suc n) b) v = mixdig (replicate n b) (v div b) @ [v mod b]"
  by (simp only: replicate_Suc_snoc mixdig_snoc)

lemma mixdig_replicate_nth: "i < n \<Longrightarrow> mixdig (replicate n b) v ! i = v div b ^ (n - 1 - i) mod b"
proof (induction n arbitrary: i)
  case (Suc n)
  then show ?case by (cases i) (auto simp: prod_list_replicate)
qed simp

section \<open>Bit operations as arithmetic\<close>

lemma shift_or_nat: "b < 2 ^ k \<Longrightarrow> push_bit k n OR b = n * 2 ^ k + (b :: nat)"
proof -
  assume "b < 2 ^ k"
  then have b: "take_bit k b = b" by (simp add: take_bit_nat_eq_self)
  have "push_bit k n AND b = 0"
  proof (rule bit_eqI)
    fix i
    have "bit b i \<Longrightarrow> i < k" using b by (metis bit_take_bit_iff)
    then show "bit (push_bit k n AND b) i = bit 0 i" by (auto simp: bit_and_iff bit_push_bit_iff)
  qed
  then have "push_bit k n OR b = push_bit k n + b" by (simp add: disjunctive_add_eq_or)
  then show ?thesis by (simp add: push_bit_eq_mult)
qed

lemma and_255_nat: "n AND 255 = n mod (256 :: nat)"
proof -
  have "n AND mask 8 = take_bit 8 n" by (simp add: take_bit_eq_mask)
  then show ?thesis by (simp add: mask_eq_exp_minus_1 take_bit_eq_mod)
qed

lemma drop_8_nat: "drop_bit 8 n = n div (256 :: nat)"
  by (simp add: drop_bit_eq_div)

lemma unat_byte_less [simp]: "unat (b :: byte) < 256"
  using unsigned_less [of b] by simp

lemma byte_and_mask: "unat (a AND 3 :: byte) = unat a mod 4" "unat (a AND 15 :: byte) = unat a mod 16"
  "unat (a AND 63 :: byte) = unat a mod 64"
proof -
  have "unat (a AND mask k) = unat a mod 2 ^ k" for k
    by (subst take_bit_eq_mask [symmetric], subst unsigned_take_bit_eq, rule take_bit_eq_mod)
  from this [of 2] this [of 4] this [of 6]
  show "unat (a AND 3 :: byte) = unat a mod 4" "unat (a AND 15 :: byte) = unat a mod 16"
    "unat (a AND 63 :: byte) = unat a mod 64"
    by (simp_all add: mask_eq_exp_minus_1)
qed

lemma byte_or_disjoint:
  fixes a b :: byte
  assumes "unat a = x * 2 ^ k" "unat b < 2 ^ k" "x * 2 ^ k + unat b < 256"
  shows "unat (a OR b) = x * 2 ^ k + unat b"
proof -
  have "unat (a OR b) = push_bit k x OR unat b"
    using assms by (simp add: unsigned_or_eq push_bit_eq_mult)
  then show ?thesis using assms by (simp add: shift_or_nat)
qed

lemma unat_push_byte: "unat a * 2 ^ k < 256 \<Longrightarrow> unat (push_bit k a :: byte) = unat a * 2 ^ k"
  by (subst unsigned_push_bit_eq) (simp add: push_bit_eq_mult take_bit_nat_eq_self)

lemma unat_drop_byte: "unat (drop_bit k a :: byte) = unat a div 2 ^ k"
  by (subst unat_drop_bit_eq) (simp add: drop_bit_eq_div)

end
