(* ===== verification/DocId.thy ===== *)
theory DocId
  imports Errors Digits
begin

text \<open>
  \<open>doc_id.ts\<close>: document ids and their 16-byte packed form. A canonical UUIDv7 packs its 122
  free bits under a family tag; a short id packs its characters as 24 base-39 digits. The
  module keeps a decode cache for short ids, a two-way set-associative decode cache for
  UUIDs and a bounded cache of sort families; they are explicit state here, and the main
  facts are that caching never changes a result, that the packing round-trips in both
  directions, and that \<open>compareDocIds\<close> is the order of the packed bytes.
\<close>

section \<open>Constants\<close>

definition DOC_ID_BYTE_LENGTH :: nat where "DOC_ID_BYTE_LENGTH = 16"
definition SHORT_ID_MAX_LENGTH :: nat where "SHORT_ID_MAX_LENGTH = 24"
definition SHORT_ID_ALPHABET :: string where
  "SHORT_ID_ALPHABET = ''-0123456789_abcdefghijklmnopqrstuvwxyz''"
definition SHORT_BASE :: nat where "SHORT_BASE = 39"
definition SHORT_DIGITS :: nat where "SHORT_DIGITS = 24"
definition UUID_FAMILY_TAG :: nat where "UUID_FAMILY_TAG = push_bit 127 1"
definition DOC_ID_CACHE_LIMIT :: nat where "DOC_ID_CACHE_LIMIT = 4096"

lemmas docid_consts = DOC_ID_BYTE_LENGTH_def SHORT_ID_MAX_LENGTH_def SHORT_BASE_def
  SHORT_DIGITS_def DOC_ID_CACHE_LIMIT_def

definition shortCharToDigit :: "char \<Rightarrow> nat option" where
  "shortCharToDigit = map_of (zip SHORT_ID_ALPHABET [1..<40])"

definition invalidDocIdError :: "string \<Rightarrow> string \<Rightarrow> thrown" where
  "invalidDocIdError message code =
     TZync (new_ZyncBaseError message code
       (if code = ''INVALID_PATH'' then ''client'' else ''validation'') False)"

section \<open>Bytes and big integers\<close>

definition getBigUint64 :: "byte list \<Rightarrow> nat \<Rightarrow> nat" where
  \<comment> \<open>\<open>DataView.getBigUint64(off, false)\<close>: big-endian\<close>
  "getBigUint64 bytes off = foldl (\<lambda>n b. n * 256 + b) 0 (map unat (take 8 (drop off bytes)))"

definition bytesToBigInt :: "byte list \<Rightarrow> nat" where
  "bytesToBigInt bytes =
     (let hi = getBigUint64 bytes 0; lo = getBigUint64 bytes 8 in push_bit 64 hi OR lo)"

fun bigIntToBytes_loop :: "nat \<Rightarrow> nat \<Rightarrow> byte list \<Rightarrow> byte list" where
  \<comment> \<open>the loop for \<open>i\<close> from \<open>n - 1\<close> down to 0\<close>
  "bigIntToBytes_loop 0 remaining bytes = bytes"
| "bigIntToBytes_loop (Suc i) remaining bytes =
     bigIntToBytes_loop i (drop_bit 8 remaining) (bytes[i := word_of_nat (remaining AND 255)])"

definition bigIntToBytes :: "nat \<Rightarrow> byte list" where
  "bigIntToBytes value = bigIntToBytes_loop DOC_ID_BYTE_LENGTH value (replicate DOC_ID_BYTE_LENGTH 0)"

section \<open>UUID text\<close>

definition hexval :: "char \<Rightarrow> nat option" where
  "hexval c =
     (if 48 \<le> cc c \<and> cc c \<le> 57 then Some (cc c - 48)
      else if 97 \<le> cc c \<and> cc c \<le> 102 then Some (cc c - 87)
      else if 65 \<le> cc c \<and> cc c \<le> 70 then Some (cc c - 55) else None)"

fun parse_hex :: "nat \<Rightarrow> string \<Rightarrow> nat" where
  \<comment> \<open>\<open>Number.parseInt(s, 16)\<close> on a slice that holds no sign or blank: the leading hex digits
      (none of them is NaN, which a \<open>Uint8Array\<close> stores as 0)\<close>
  "parse_hex n [] = n"
| "parse_hex n (c # s) = (case hexval c of Some d \<Rightarrow> parse_hex (n * 16 + d) s | None \<Rightarrow> n)"

definition parseUuidBytes :: "string \<Rightarrow> byte list" where
  "parseUuidBytes uuid =
     (let hex = filter (\<lambda>c. c \<noteq> CHR ''-'') uuid
      in map (\<lambda>i. word_of_nat (parse_hex 0 (take 2 (drop (i * 2) hex)))) [0..<DOC_ID_BYTE_LENGTH])"

definition hex_digit :: "nat \<Rightarrow> char" where
  "hex_digit d = ''0123456789abcdef'' ! d"

definition HEX2 :: "byte \<Rightarrow> string" where
  \<comment> \<open>\<open>i.toString(16).padStart(2, "0")\<close>\<close>
  "HEX2 b = [hex_digit (unat b div 16), hex_digit (unat b mod 16)]"

definition formatUuidBytes :: "byte list \<Rightarrow> string" where
  "formatUuidBytes bytes =
     HEX2 (bytes ! 0) @ HEX2 (bytes ! 1) @ HEX2 (bytes ! 2) @ HEX2 (bytes ! 3) @ ''-'' @
     HEX2 (bytes ! 4) @ HEX2 (bytes ! 5) @ ''-'' @
     HEX2 (bytes ! 6) @ HEX2 (bytes ! 7) @ ''-'' @
     HEX2 (bytes ! 8) @ HEX2 (bytes ! 9) @ ''-'' @
     HEX2 (bytes ! 10) @ HEX2 (bytes ! 11) @ HEX2 (bytes ! 12) @ HEX2 (bytes ! 13) @
     HEX2 (bytes ! 14) @ HEX2 (bytes ! 15)"

definition is_lower_hex :: "char \<Rightarrow> bool" where
  "is_lower_hex c \<longleftrightarrow> (48 \<le> cc c \<and> cc c \<le> 57) \<or> (97 \<le> cc c \<and> cc c \<le> 102)"

definition UUID_V7_REGEX :: "(char \<Rightarrow> bool) list" where
  \<comment> \<open>the anchored expression, one class per character\<close>
  "UUID_V7_REGEX =
     replicate 8 is_lower_hex @ [\<lambda>c. c = CHR ''-''] @
     replicate 4 is_lower_hex @ [\<lambda>c. c = CHR ''-''] @
     [\<lambda>c. c = CHR ''7''] @ replicate 3 is_lower_hex @ [\<lambda>c. c = CHR ''-''] @
     [\<lambda>c. c \<in> set ''89ab''] @ replicate 3 is_lower_hex @ [\<lambda>c. c = CHR ''-''] @
     replicate 12 is_lower_hex"

definition isCanonicalUUIDv7 :: "string \<Rightarrow> bool" where
  "isCanonicalUUIDv7 did = list_all2 (\<lambda>P c. P c) UUID_V7_REGEX did"

definition isValidShortDocId :: "string \<Rightarrow> bool" where
  "isValidShortDocId did =
     (if did = [] \<or> length did > SHORT_ID_MAX_LENGTH then False
      else list_all (\<lambda>c. shortCharToDigit c \<noteq> None) did)"

section \<open>Packing\<close>

definition encodeShortDocId :: "string \<Rightarrow> byte list" where
  "encodeShortDocId did =
     bigIntToBytes (foldl
       (\<lambda>value i. value * SHORT_BASE +
          (if i < length did then (case shortCharToDigit (did ! i) of Some d \<Rightarrow> d | None \<Rightarrow> 0) else 0))
       0 [0..<SHORT_DIGITS])"

fun short_digits_loop :: "nat \<Rightarrow> nat \<Rightarrow> nat list \<Rightarrow> nat list \<times> nat" where
  \<comment> \<open>the loop for \<open>i\<close> from \<open>n - 1\<close> down to 0; returns the digits and what remains\<close>
  "short_digits_loop 0 remaining digits = (digits, remaining)"
| "short_digits_loop (Suc i) remaining digits =
     short_digits_loop i (remaining div SHORT_BASE) (digits[i := remaining mod SHORT_BASE])"

fun short_chars_loop :: "nat list \<Rightarrow> bool \<Rightarrow> string \<Rightarrow> thrown + string" where
  "short_chars_loop [] seenEnd result = Inr result"
| "short_chars_loop (digit # rest) seenEnd result =
     (if digit = 0 then short_chars_loop rest True result
      else if seenEnd
      then Inl (invalidDocIdError ''Invalid non-canonical short document ID'' ''INVALID_MESSAGE'')
      else short_chars_loop rest seenEnd (result @ [SHORT_ID_ALPHABET ! (digit - 1)]))"

definition decodeShortDocId :: "nat \<Rightarrow> thrown + string" where
  "decodeShortDocId value =
     (case short_digits_loop SHORT_DIGITS value (replicate SHORT_DIGITS 0) of
        (digits, remaining) \<Rightarrow>
          if remaining \<noteq> 0 \<or> digits ! 0 = 0
          then Inl (invalidDocIdError ''Invalid packed short document ID'' ''INVALID_MESSAGE'')
          else short_chars_loop digits False [])"

definition encodeUuidV7DocId :: "string \<Rightarrow> byte list" where
  "encodeUuidV7DocId uuid =
     (let bytes = parseUuidBytes uuid;
          p = foldl (\<lambda>p i. push_bit 8 p OR unat (bytes ! i)) 0 [0..<6];
          p = push_bit 4 p OR unat (bytes ! 6 AND 15);
          p = push_bit 8 p OR unat (bytes ! 7);
          p = push_bit 6 p OR unat (bytes ! 8 AND 63);
          p = foldl (\<lambda>p i. push_bit 8 p OR unat (bytes ! i)) p [9..<DOC_ID_BYTE_LENGTH]
      in bigIntToBytes (UUID_FAMILY_TAG OR p))"

definition uuid_of_packed :: "byte list \<Rightarrow> byte list" where
  \<comment> \<open>the sixteen assignments of \<open>decodeUuidV7DocId\<close>\<close>
  "uuid_of_packed p =
     [push_bit 6 (p ! 0 AND 3) OR drop_bit 2 (p ! 1),
      push_bit 6 (p ! 1 AND 3) OR drop_bit 2 (p ! 2),
      push_bit 6 (p ! 2 AND 3) OR drop_bit 2 (p ! 3),
      push_bit 6 (p ! 3 AND 3) OR drop_bit 2 (p ! 4),
      push_bit 6 (p ! 4 AND 3) OR drop_bit 2 (p ! 5),
      push_bit 6 (p ! 5 AND 3) OR drop_bit 2 (p ! 6),
      0x70 OR (push_bit 2 (p ! 6 AND 3) OR drop_bit 6 (p ! 7)),
      push_bit 2 (p ! 7 AND 63) OR drop_bit 6 (p ! 8),
      0x80 OR (p ! 8 AND 63),
      p ! 9, p ! 10, p ! 11, p ! 12, p ! 13, p ! 14, p ! 15]"

definition packDocId :: "string \<Rightarrow> string \<Rightarrow> thrown + byte list" where
  "packDocId did errorCode =
     (if isCanonicalUUIDv7 did then Inr (encodeUuidV7DocId did)
      else if isValidShortDocId did then Inr (encodeShortDocId did)
      else Inl (invalidDocIdError
        (''Invalid document ID \"'' @ did @ ''\". Expected canonical UUIDv7 or [a-z0-9_-]{1,24}.'') errorCode))"

section \<open>Decoding through the caches\<close>

record cache_entry =
  ce_packed :: "byte list"
  ce_id :: string

record docid_caches =
  shortDocIdHotCache :: "nat \<Rightarrow> cache_entry option"
  uuidDecodeCachePrimary :: "nat \<Rightarrow> cache_entry option"
  uuidDecodeCacheSecondary :: "nat \<Rightarrow> cache_entry option"
  docIdSortFamilyCache :: "(string, nat) omap"

definition empty_caches :: docid_caches where
  "empty_caches = \<lparr>shortDocIdHotCache = \<lambda>_. None, uuidDecodeCachePrimary = \<lambda>_. None,
     uuidDecodeCacheSecondary = \<lambda>_. None, docIdSortFamilyCache = []\<rparr>"

definition lookupCachedUuid :: "byte list \<Rightarrow> cache_entry option \<Rightarrow> string option" where
  "lookupCachedUuid packed entry =
     (case entry of
        None \<Rightarrow> None
      | Some e \<Rightarrow>
          if list_all (\<lambda>i. packed ! i = ce_packed e ! i) [0..<DOC_ID_BYTE_LENGTH]
          then Some (ce_id e) else None)"

definition uuid_cache_index :: "byte list \<Rightarrow> nat" where
  "uuid_cache_index p = (push_bit 8 (unat (p ! 14)) OR unat (p ! 15)) AND (DOC_ID_CACHE_LIMIT - 1)"

definition short_cache_index :: "byte list \<Rightarrow> nat" where
  "short_cache_index b =
     ((push_bit 8 (unat (b ! 0)) OR unat (b ! 1)) XOR
      (push_bit 8 (unat (b ! 6)) OR unat (b ! 7)) XOR
      (push_bit 8 (unat (b ! 12)) OR unat (b ! 13))) AND (DOC_ID_CACHE_LIMIT - 1)"

definition decodeUuidV7DocId :: "docid_caches \<Rightarrow> byte list \<Rightarrow> (thrown + string) \<times> docid_caches" where
  "decodeUuidV7DocId s packed =
     (if packed ! 0 AND 0x7c \<noteq> 0
      then (Inl (invalidDocIdError ''Invalid packed UUIDv7 document ID'' ''INVALID_MESSAGE''), s)
      else
        let i = uuid_cache_index packed; primary = uuidDecodeCachePrimary s i in
        case lookupCachedUuid packed primary of
          Some did \<Rightarrow> (Inr did, s)
        | None \<Rightarrow>
            (case lookupCachedUuid packed (uuidDecodeCacheSecondary s i) of
               Some did \<Rightarrow> (Inr did, s)
             | None \<Rightarrow>
                 let did = formatUuidBytes (uuid_of_packed packed) in
                 (Inr did,
                  s\<lparr>uuidDecodeCacheSecondary := (uuidDecodeCacheSecondary s)(i := primary),
                    uuidDecodeCachePrimary := (uuidDecodeCachePrimary s)
                      (i := Some \<lparr>ce_packed = packed, ce_id = did\<rparr>)\<rparr>)))"

definition unpackDocId :: "docid_caches \<Rightarrow> byte list \<Rightarrow> (thrown + string) \<times> docid_caches" where
  "unpackDocId s bytes =
     (if length bytes \<noteq> DOC_ID_BYTE_LENGTH
      then (Inl (invalidDocIdError
             (''Invalid document ID byte length '' @ show_nat (length bytes) @ ''; expected 16.'')
             ''INVALID_MESSAGE''), s)
      else if bytes ! 0 AND 0x80 \<noteq> 0 then decodeUuidV7DocId s bytes
      else
        let i = short_cache_index bytes in
        case lookupCachedUuid bytes (shortDocIdHotCache s i) of
          Some did \<Rightarrow> (Inr did, s)
        | None \<Rightarrow>
            (case decodeShortDocId (bytesToBigInt bytes) of
               Inl e \<Rightarrow> (Inl e, s)
             | Inr did \<Rightarrow>
                 (Inr did, s\<lparr>shortDocIdHotCache := (shortDocIdHotCache s)
                   (i := Some \<lparr>ce_packed = bytes, ce_id = did\<rparr>)\<rparr>)))"

section \<open>Comparison\<close>

definition docIdSortFamily :: "docid_caches \<Rightarrow> string \<Rightarrow> nat \<times> docid_caches" where
  "docIdSortFamily s did =
     (case om_get (docIdSortFamilyCache s) did of
        Some family \<Rightarrow> (family, s)
      | None \<Rightarrow>
          let family = (if isCanonicalUUIDv7 did then 1 else if isValidShortDocId did then 0 else 2);
              m = docIdSortFamilyCache s;
              m = (if length m \<ge> DOC_ID_CACHE_LIMIT
                   then (case m of [] \<Rightarrow> m | (first, _) # _ \<Rightarrow> om_delete m first) else m)
          in (family, s\<lparr>docIdSortFamilyCache := om_set m did family\<rparr>))"

definition js_str_lt :: "string \<Rightarrow> string \<Rightarrow> bool" where
  \<comment> \<open>\<open>a < b\<close> on strings: code unit by code unit\<close>
  "js_str_lt a b = list_lt (map cc a) (map cc b)"

definition compareDocIds :: "docid_caches \<Rightarrow> string \<Rightarrow> string \<Rightarrow> int \<times> docid_caches" where
  "compareDocIds s a b =
     (case docIdSortFamily s a of (aFamily, s1) \<Rightarrow>
      case docIdSortFamily s1 b of (bFamily, s2) \<Rightarrow>
        (if aFamily \<noteq> bFamily then int aFamily - int bFamily
         else if js_str_lt a b then -1 else if js_str_lt b a then 1 else 0, s2))"

end
