(* ===== verification/DocIdProofs.thy ===== *)
theory DocIdProofs
  imports DocId
begin

text \<open>
  The proofs about \<open>DocId\<close>: the byte and digit loops as mixed-radix numerals, the two
  packings and their inverses, soundness of the caches, and the order.
\<close>

abbreviation ub :: "byte list \<Rightarrow> nat list" where
  "ub \<equiv> map unat"

section \<open>The loops\<close>

lemma bigIntToBytes_loop_length [simp]: "length (bigIntToBytes_loop n v bs) = length bs"
  by (induction n arbitrary: v bs) auto

lemma unat_low_byte: "unat (word_of_nat (v AND 255) :: byte) = v mod 256"
  by (simp add: and_255_nat unat_of_nat)

lemma bigIntToBytes_loop_digits:
  "n \<le> length bs \<Longrightarrow> ub (bigIntToBytes_loop n v bs) = mixdig (replicate n 256) v @ ub (drop n bs)"
proof (induction n arbitrary: v bs)
  case (Suc i)
  then have "drop i (bs[i := w]) = w # drop (Suc i) bs" for w
    by (metis Suc_le_lessD drop_update_cancel id_take_nth_drop length_list_update lessI
        Cons_nth_drop_Suc nth_list_update_eq)
  with Suc show ?case
    by (simp add: mixdig_replicate_Suc drop_8_nat unat_low_byte del: replicate.simps)
qed simp

lemma bigIntToBytes_length [simp]: "length (bigIntToBytes v) = 16"
  by (simp add: bigIntToBytes_def docid_consts)

lemma ub_bigIntToBytes: "ub (bigIntToBytes v) = mixdig (replicate 16 256) v"
  by (simp add: bigIntToBytes_def docid_consts bigIntToBytes_loop_digits)

lemma ub_inj: "ub xs = ub ys \<longleftrightarrow> xs = ys"
  by (rule inj_map_eq_map) (simp add: inj_def word_unat_eq_iff)

lemma getBigUint64_mixv:
  "off + 8 \<le> length bs \<Longrightarrow> getBigUint64 bs off = mixv (replicate 8 256) (ub (take 8 (drop off bs)))"
  using foldl_horner [of 256 0 "ub (take 8 (drop off bs))"] by (simp add: getBigUint64_def)

lemma digits_ok_bytes: "digits_ok (replicate n 256) (ub bs) \<longleftrightarrow> length bs = n"
  by (auto simp: digits_ok_replicate)

lemma bytesToBigInt_mixv:
  assumes "length bs = 16"
  shows "bytesToBigInt bs = mixv (replicate 16 256) (ub bs)"
proof -
  let ?lo = "mixv (replicate 8 256) (ub (drop 8 bs))"
  let ?hi = "mixv (replicate 8 256) (ub (take 8 bs))"
  have "?lo < prod_list (replicate 8 256)"
    using assms by (intro mixv_bound) (simp add: digits_ok_bytes)
  then have lo: "?lo < 2 ^ 64" by (simp add: prod_list_replicate)
  have "bytesToBigInt bs = push_bit 64 ?hi OR ?lo"
    using assms by (simp add: bytesToBigInt_def Let_def getBigUint64_mixv)
  also have "\<dots> = ?hi * 256 ^ 8 + ?lo" using shift_or_nat [OF lo] by simp
  also have "\<dots> = mixv (replicate 8 256 @ replicate 8 256) (ub (take 8 bs) @ ub (drop 8 bs))"
    using assms by (simp add: mixv_append prod_list_replicate del: append_take_drop_id)
  also have "replicate 8 256 @ replicate 8 256 = replicate 16 (256 :: nat)"
    by (simp flip: replicate_add)
  also have "ub (take 8 bs) @ ub (drop 8 bs) = ub bs" by (simp flip: map_append)
  finally show ?thesis .
qed

lemma bytesToBigInt_bigIntToBytes: "v < 2 ^ 128 \<Longrightarrow> bytesToBigInt (bigIntToBytes v) = v"
  by (simp add: bytesToBigInt_mixv ub_bigIntToBytes mixv_mixdig prod_list_replicate)

lemma bigIntToBytes_bytesToBigInt: "length bs = 16 \<Longrightarrow> bigIntToBytes (bytesToBigInt bs) = bs"
  by (simp add: bytesToBigInt_mixv ub_bigIntToBytes mixdig_mixv digits_ok_bytes flip: ub_inj)

lemma short_digits_loop_digits:
  "n \<le> length ds \<Longrightarrow>
   short_digits_loop n v ds = (mixdig (replicate n 39) v @ drop n ds, v div 39 ^ n)"
proof (induction n arbitrary: v ds)
  case (Suc i)
  then have "drop i (ds[i := w]) = w # drop (Suc i) ds" for w
    by (metis Suc_le_lessD drop_update_cancel id_take_nth_drop length_list_update lessI
        Cons_nth_drop_Suc nth_list_update_eq)
  moreover have "v div 39 div 39 ^ i = v div 39 ^ Suc i" by (simp add: div_mult2_eq)
  ultimately show ?case using Suc
    by (simp add: mixdig_replicate_Suc SHORT_BASE_def del: replicate.simps power_Suc)
qed simp

section \<open>Short ids\<close>

definition short_digit :: "char \<Rightarrow> nat" where
  "short_digit c = (case shortCharToDigit c of Some d \<Rightarrow> d | None \<Rightarrow> 0)"

definition short_digits :: "string \<Rightarrow> nat list" where
  "short_digits s = map short_digit s @ replicate (24 - length s) 0"

lemma alphabet_upt: "[1..<40] = [1,2,3,4,5,6,7,8,9,10,11,12,13,14,15,16,17,18,19,20,21,22,23,24,25,26,
   27,28,29,30,31,32,33,34,35,36,37,38,39 :: nat]"
  by code_simp

lemma shortCharToDigit_Some:
  "shortCharToDigit c = Some d \<Longrightarrow> 1 \<le> d \<and> d < 39 \<and> SHORT_ID_ALPHABET ! (d - 1) = c"
  unfolding shortCharToDigit_def SHORT_ID_ALPHABET_def alphabet_upt
  by (auto split: if_splits)

lemma short_digit_order:
  assumes "shortCharToDigit c \<noteq> None" "shortCharToDigit d \<noteq> None"
  shows "short_digit c < short_digit d \<longleftrightarrow> cc c < cc d"
    and "short_digit c = short_digit d \<longleftrightarrow> c = d"
proof -
  have *: "cc (SHORT_ID_ALPHABET ! i) < cc (SHORT_ID_ALPHABET ! j) \<longleftrightarrow> i < j" if "i < 38" "j < 38" for i j
  proof -
    have sorted: "sorted_wrt (<) (map cc SHORT_ID_ALPHABET)"
      by (simp add: SHORT_ID_ALPHABET_def)
    have len: "length SHORT_ID_ALPHABET = 38" by (simp add: SHORT_ID_ALPHABET_def)
    have "cc (SHORT_ID_ALPHABET ! a) < cc (SHORT_ID_ALPHABET ! b)" if "a < b" "b < 38" for a b
      using sorted_wrt_nth_less [OF sorted that(1)] that len by simp
    from this [of i j] this [of j i] that show ?thesis
      by (cases i j rule: linorder_cases) auto
  qed
  obtain x y where x: "shortCharToDigit c = Some x" and y: "shortCharToDigit d = Some y"
    using assms by auto
  note X = shortCharToDigit_Some [OF x] and Y = shortCharToDigit_Some [OF y]
  have "x - 1 < y - 1 \<longleftrightarrow> cc c < cc d"
  proof -
    have "x - 1 < 38" "y - 1 < 38" using X Y by arith+
    from * [OF this] show ?thesis using X Y by simp
  qed
  moreover have "x - 1 < y - 1 \<longleftrightarrow> x < y" using X Y by arith
  ultimately show "short_digit c < short_digit d \<longleftrightarrow> cc c < cc d"
    using x y by (simp add: short_digit_def)
  show "short_digit c = short_digit d \<longleftrightarrow> c = d"
  proof
    assume "short_digit c = short_digit d"
    then have "x = y" using x y by (simp add: short_digit_def)
    then show "c = d" using X Y by blast
  qed simp
qed

lemma short_digit_bounds: "short_digit c < 39" "shortCharToDigit c \<noteq> None \<Longrightarrow> 0 < short_digit c"
  by (auto simp: short_digit_def split: option.split dest: shortCharToDigit_Some)

lemma isValidShortDocId_iff:
  "isValidShortDocId s \<longleftrightarrow> s \<noteq> [] \<and> length s \<le> 24 \<and> (\<forall>c \<in> set s. shortCharToDigit c \<noteq> None)"
  by (auto simp: isValidShortDocId_def docid_consts list_all_iff)

lemma short_digits_ok: "length s \<le> 24 \<Longrightarrow> digits_ok (replicate 24 39) (short_digits s)"
  by (auto simp: digits_ok_replicate short_digits_def short_digit_bounds)

lemma short_value_bound: "length s \<le> 24 \<Longrightarrow> mixv (replicate 24 39) (short_digits s) < 2 ^ 127"
  using mixv_bound [OF short_digits_ok [of s]] by (simp add: prod_list_replicate)

lemma encodeShortDocId_value:
  assumes "length s \<le> 24"
  shows "encodeShortDocId s = bigIntToBytes (mixv (replicate 24 39) (short_digits s))"
proof -
  let ?d = "\<lambda>i. if i < length s then short_digit (s ! i) else 0"
  have "short_digits s = map ?d [0..<24]"
    using assms by (intro nth_equalityI) (auto simp: short_digits_def nth_append)
  then have "foldl (\<lambda>n i. n * 39 + ?d i) 0 [0..<24] = mixv (replicate 24 39) (short_digits s)"
    using foldl_horner [of 39 0 "map ?d [0..<24]"] by (simp add: foldl_map)
  then show ?thesis
    by (simp add: encodeShortDocId_def docid_consts short_digit_def if_distrib cong: if_cong)
qed

lemma short_chars_loop_digits:
  "(\<forall>c \<in> set s. shortCharToDigit c \<noteq> None) \<Longrightarrow>
   short_chars_loop (map short_digit s @ replicate n 0) False r = Inr (r @ s)"
proof (induction s arbitrary: r)
  case Nil
  have "short_chars_loop (replicate n 0) b r = Inr r" for b
    by (induction n arbitrary: b) auto
  then show ?case by simp
next
  case (Cons c s)
  then obtain d where "shortCharToDigit c = Some d" by auto
  with Cons show ?case
    using shortCharToDigit_Some [of c d] by (auto simp: short_digit_def)
qed

lemma decodeShortDocId_digits:
  "decodeShortDocId v =
     (if v div 39 ^ 24 \<noteq> 0 \<or> mixdig (replicate 24 39) v ! 0 = 0
      then Inl (invalidDocIdError ''Invalid packed short document ID'' ''INVALID_MESSAGE'')
      else short_chars_loop (mixdig (replicate 24 39) v) False [])"
  by (simp add: decodeShortDocId_def docid_consts short_digits_loop_digits)

lemma decodeShortDocId_encode:
  assumes "isValidShortDocId s"
  shows "decodeShortDocId (mixv (replicate 24 39) (short_digits s)) = Inr s"
proof -
  have s: "s \<noteq> []" "length s \<le> 24" "\<forall>c \<in> set s. shortCharToDigit c \<noteq> None"
    using assms by (auto simp: isValidShortDocId_iff)
  have "mixv (replicate 24 39) (short_digits s) < 39 ^ 24"
    using mixv_bound [OF short_digits_ok [OF s(2)]] by (simp add: prod_list_replicate)
  moreover have "short_digits s ! 0 \<noteq> 0"
    using s short_digit_bounds(2) [of "hd s"] by (cases s) (auto simp: short_digits_def)
  ultimately show ?thesis using s
    by (simp add: decodeShortDocId_digits mixdig_mixv short_digits_ok)
      (simp add: short_digits_def short_chars_loop_digits)
qed

text \<open>The other direction: what the decoder accepts is what the encoder produces.\<close>

lemma alphabet_digit: "0 < d \<Longrightarrow> d < 39 \<Longrightarrow> shortCharToDigit (SHORT_ID_ALPHABET ! (d - 1)) = Some d"
proof -
  have "\<forall>d \<in> set [1..<39]. shortCharToDigit (SHORT_ID_ALPHABET ! (d - 1)) = Some d"
    by code_simp
  then show "0 < d \<Longrightarrow> d < 39 \<Longrightarrow> shortCharToDigit (SHORT_ID_ALPHABET ! (d - 1)) = Some d"
    by simp
qed

lemma short_chars_loop_end: "short_chars_loop ds True r = Inr t \<Longrightarrow> ds = replicate (length ds) 0 \<and> t = r"
  by (induction ds) (auto split: if_splits)

lemma short_chars_loop_inv:
  assumes "short_chars_loop ds False r = Inr t" "\<forall>d \<in> set ds. d < 39"
  shows "\<exists>u n. t = r @ u \<and> ds = map short_digit u @ replicate n 0
    \<and> (\<forall>c \<in> set u. shortCharToDigit c \<noteq> None)"
  using assms
proof (induction ds arbitrary: r)
  case (Cons d ds)
  show ?case
  proof (cases "d = 0")
    case True
    with Cons.prems have "ds = replicate (length ds) 0 \<and> t = r" by (auto dest: short_chars_loop_end)
    then show ?thesis using True
      by (intro exI [of _ "[]"] exI [of _ "Suc (length ds)"]) auto
  next
    case False
    let ?c = "SHORT_ID_ALPHABET ! (d - 1)"
    have c: "shortCharToDigit ?c = Some d" using False Cons.prems alphabet_digit [of d] by simp
    from False Cons.prems Cons.IH [of "r @ [?c]"] obtain u n where
      "t = r @ [?c] @ u" "ds = map short_digit u @ replicate n 0" "\<forall>c \<in> set u. shortCharToDigit c \<noteq> None"
      by auto
    with c show ?thesis
      by (intro exI [of _ "?c # u"] exI [of _ n]) (auto simp: short_digit_def)
  qed
qed simp

lemma encode_decodeShortDocId:
  assumes "decodeShortDocId v = Inr s"
  shows "isValidShortDocId s \<and> v = mixv (replicate 24 39) (short_digits s)"
proof -
  let ?ds = "mixdig (replicate 24 39) v"
  have acc: "v div 39 ^ 24 = 0" "?ds ! 0 \<noteq> 0" "short_chars_loop ?ds False [] = Inr s"
    using assms by (auto simp: decodeShortDocId_digits split: if_splits)
  have ok: "digits_ok (replicate 24 39) ?ds" by (rule mixdig_ok) simp
  then have "\<forall>d \<in> set ?ds. d < 39" unfolding digits_ok_replicate by (rule conjunct2)
  with short_chars_loop_inv [OF acc(3)] obtain n where
    ds: "?ds = map short_digit s @ replicate n 0" and c: "\<forall>c \<in> set s. shortCharToDigit c \<noteq> None"
    by auto
  have "length ?ds = 24" by simp
  then have len: "length s + n = 24" unfolding ds by simp
  then have "?ds = short_digits s" unfolding ds by (simp add: short_digits_def flip: len)
  moreover have "s \<noteq> []" using acc(2) len unfolding ds by (cases s) auto
  moreover have "v mod 39 ^ 24 = v" using acc(1) by (simp add: div_eq_0_iff)
  then have "mixv (replicate 24 39) ?ds = v" by (simp only: mixv_mixdig prod_list_replicate)
  ultimately show ?thesis using c len by (auto simp: isValidShortDocId_iff)
qed

section \<open>UUIDs\<close>

definition uuid_radices :: "nat list" where
  \<comment> \<open>the 122 free bits of a UUIDv7: six bytes, a nibble, a byte, six bits, seven bytes\<close>
  "uuid_radices = [256, 256, 256, 256, 256, 256, 16, 256, 64, 256, 256, 256, 256, 256, 256, 256]"

definition uuid_digits :: "nat list \<Rightarrow> nat list" where
  "uuid_digits B = [B ! 0, B ! 1, B ! 2, B ! 3, B ! 4, B ! 5, B ! 6 mod 16, B ! 7, B ! 8 mod 64,
     B ! 9, B ! 10, B ! 11, B ! 12, B ! 13, B ! 14, B ! 15]"

definition uuid_value :: "nat list \<Rightarrow> nat" where
  "uuid_value B = mixv (64 # uuid_radices) (32 # uuid_digits B)"

definition v7_bytes :: "nat list \<Rightarrow> bool" where
  \<comment> \<open>sixteen bytes with the version nibble 7 and the variant bits 10\<close>
  "v7_bytes B \<longleftrightarrow> length B = 16 \<and> (\<forall>b \<in> set B. b < 256) \<and> B ! 6 div 16 = 7 \<and> B ! 8 div 64 = 2"

lemma upt_small: "[0..<6] = [0, 1, 2, 3, 4, 5 :: nat]" "[9..<16] = [9, 10, 11, 12, 13, 14, 15 :: nat]"
  "[0..<16] = [0, 1, 2, 3, 4, 5, 6, 7, 8, 9, 10, 11, 12, 13, 14, 15 :: nat]"
  by code_simp+

lemma prod_uuid_radices: "prod_list uuid_radices = 2 ^ 122"
  by (simp add: uuid_radices_def)

lemma list_16:
  assumes "length B = 16"
  obtains b0 b1 b2 b3 b4 b5 b6 b7 b8 b9 b10 b11 b12 b13 b14 b15 where
    "B = [b0, b1, b2, b3, b4, b5, b6, b7, b8, b9, b10, b11, b12, b13, b14, b15]"
proof -
  have "B = map ((!) B) [0..<16]" using assms by (metis map_nth)
  then show ?thesis using that unfolding upt_small by simp
qed

lemma uuid_digits_ok: "length B = 16 \<Longrightarrow> \<forall>b \<in> set B. b < 256 \<Longrightarrow> digits_ok uuid_radices (uuid_digits B)"
  by (erule list_16) (simp add: uuid_radices_def uuid_digits_def)

lemma shift_or_byte:
  "push_bit 8 n OR unat (b :: byte) = n * 256 + unat b"
  "push_bit 4 n OR unat (b AND 15 :: byte) = n * 16 + unat b mod 16"
  "push_bit 6 n OR unat (b AND 63 :: byte) = n * 64 + unat b mod 64"
  using shift_or_nat [of "unat b" 8 n] shift_or_nat [of "unat b mod 16" 4 n]
    shift_or_nat [of "unat b mod 64" 6 n]
  by (simp_all add: byte_and_mask)

lemma encodeUuidV7DocId_value:
  "encodeUuidV7DocId s = bigIntToBytes (uuid_value (ub (parseUuidBytes s)))"
proof -
  let ?B = "ub (parseUuidBytes s)"
  have len: "length (parseUuidBytes s) = 16" by (simp add: parseUuidBytes_def docid_consts Let_def)
  have ok: "digits_ok uuid_radices (uuid_digits ?B)" by (rule uuid_digits_ok) (auto simp: len)
  let ?P = "mixv uuid_radices (uuid_digits ?B)"
  have P: "?P = foldl (\<lambda>n (r, d). n * r + d) 0 (zip uuid_radices (uuid_digits ?B))"
    using foldl_mix [of uuid_radices "uuid_digits ?B" 0]
    by (simp add: uuid_radices_def uuid_digits_def)
  have "?P < 2 ^ 127" using mixv_bound [OF ok] by (simp add: prod_uuid_radices)
  then have tag: "UUID_FAMILY_TAG OR ?P = 2 ^ 127 + ?P"
    using shift_or_nat [of ?P 127 1] by (simp add: UUID_FAMILY_TAG_def)
  have "encodeUuidV7DocId s = bigIntToBytes (UUID_FAMILY_TAG OR ?P)"
    unfolding P unfolding uuid_radices_def uuid_digits_def encodeUuidV7DocId_def Let_def docid_consts upt_small
    by (simp add: shift_or_byte len)
  with tag show ?thesis by (simp add: uuid_value_def prod_uuid_radices)
qed

subsection \<open>Unpacking the digits\<close>

lemma digit_split:
  assumes "e * d = 256" "c dvd (256 :: nat)"
  shows "(T div (m * 256) mod 256 mod c) * d + T div m mod 256 div e = T div (m * e) mod (d * c)"
proof -
  let ?X = "T div m"
  have "0 < e" using assms(1) by (cases e) auto
  have "?X mod 256 div e = ?X mod (e * d) div e" by (simp only: assms(1))
  also have "\<dots> = ?X div e mod d" using \<open>0 < e\<close> by (simp add: mod_mult2_eq)
  finally have low: "?X mod 256 div e = ?X div e mod d" .
  have "?X div 256 = ?X div e div d" by (simp only: assms(1) [symmetric] div_mult2_eq)
  moreover have "?X div 256 mod 256 mod c = ?X div 256 mod c" using assms(2) by (rule mod_mod_cancel)
  ultimately show ?thesis
    by (simp add: low div_mult2_eq mod_mult2_eq)
qed

lemmas digit_high = digit_split [of 4 64 4, simplified]
lemmas digit_nibble = digit_split [of 64 4 4, simplified]
lemmas digit_seven = digit_split [of 64 4 64, simplified]

lemma unat_joined:
  fixes a b :: byte
  shows "unat (push_bit 6 (a AND 3) OR drop_bit 2 b) = unat a mod 4 * 64 + unat b div 4"
    and "unat (0x70 OR (push_bit 2 (a AND 3) OR drop_bit 6 b)) = 112 + (unat a mod 4 * 4 + unat b div 64)"
    and "unat (push_bit 2 (a AND 63) OR drop_bit 6 b) = unat a mod 64 * 4 + unat b div 64"
    and "unat (0x80 OR (a AND 63)) = 128 + unat a mod 64"
proof -
  have m: "unat a mod 4 < 4" "unat a mod 64 < 64" by simp_all
  have b: "unat b div 4 < 64" "unat b div 64 < 4" using unat_byte_less [of b] by arith+
  have p6: "unat (push_bit 6 (a AND 3)) = unat a mod 4 * 2 ^ 6"
    using m by (subst unat_push_byte) (auto simp: byte_and_mask)
  have p2: "unat (push_bit 2 (a AND 3)) = unat a mod 4 * 2 ^ 2"
    using m by (subst unat_push_byte) (auto simp: byte_and_mask)
  have p2': "unat (push_bit 2 (a AND 63)) = unat a mod 64 * 2 ^ 2"
    using m by (subst unat_push_byte) (auto simp: byte_and_mask)
  have d: "unat (drop_bit 2 b) = unat b div 4" "unat (drop_bit 6 b) = unat b div 64"
    by (simp_all add: unat_drop_byte del: drop_bit_numeral_bit0)
  show "unat (push_bit 6 (a AND 3) OR drop_bit 2 b) = unat a mod 4 * 64 + unat b div 4"
    using byte_or_disjoint [OF p6, of "drop_bit 2 b"] m b d by simp
  have in2: "unat (push_bit 2 (a AND 3) OR drop_bit 6 b) = unat a mod 4 * 4 + unat b div 64"
    using byte_or_disjoint [OF p2, of "drop_bit 6 b"] m b d by simp
  show "unat (0x70 OR (push_bit 2 (a AND 3) OR drop_bit 6 b)) = 112 + (unat a mod 4 * 4 + unat b div 64)"
    using byte_or_disjoint [of "0x70" 7 4 "push_bit 2 (a AND 3) OR drop_bit 6 b"] in2 m b by simp
  show "unat (push_bit 2 (a AND 63) OR drop_bit 6 b) = unat a mod 64 * 4 + unat b div 64"
    using byte_or_disjoint [OF p2', of "drop_bit 6 b"] m b d by simp
  show "unat (0x80 OR (a AND 63)) = 128 + unat a mod 64"
    using byte_or_disjoint [of "0x80" 2 6 "a AND 63"] m by (simp add: byte_and_mask)
qed

lemma nth_packed:
  assumes "ub p = mixdig (replicate 16 256) T" "i < 16"
  shows "unat (p ! i) = T div 256 ^ (15 - i) mod 256"
proof -
  have "length p = 16" using arg_cong [OF assms(1), of length] by simp
  then have "unat (p ! i) = ub p ! i" using assms(2) by simp
  then show ?thesis unfolding assms(1) using assms(2) by (simp add: mixdig_replicate_nth)
qed

lemma ub_uuid_of_packed:
  assumes T: "ub p = mixdig (replicate 16 256) T" and ds: "mixdig (64 # uuid_radices) T = h # ds"
  shows "ub (uuid_of_packed p) = [ds ! 0, ds ! 1, ds ! 2, ds ! 3, ds ! 4, ds ! 5, 112 + ds ! 6, ds ! 7,
    128 + ds ! 8, ds ! 9, ds ! 10, ds ! 11, ds ! 12, ds ! 13, ds ! 14, ds ! 15]"
proof -
  have p: "unat (p ! i) = T div 256 ^ (15 - i) mod 256" if "i < 16" for i
    using nth_packed [OF T that] .
  have ds: "ds = mixdig uuid_radices T" using ds by simp
  have last: "T div 72057594037927936 mod 256 mod 64 = T div 72057594037927936 mod 64"
    by (rule mod_mod_cancel) simp
  show ?thesis
    unfolding ds uuid_radices_def uuid_of_packed_def list.map unat_joined
    by (simp add: p last
        digit_high [where m = "256 ^ 14", simplified] digit_high [where m = "256 ^ 13", simplified]
        digit_high [where m = "256 ^ 12", simplified] digit_high [where m = "256 ^ 11", simplified]
        digit_high [where m = "256 ^ 10", simplified] digit_high [where m = "256 ^ 9", simplified]
        digit_nibble [where m = "256 ^ 8", simplified] digit_seven [where m = "256 ^ 7", simplified])
qed

lemma ub_uuid_of_packed_value:
  assumes "v7_bytes B"
  shows "ub (uuid_of_packed (bigIntToBytes (uuid_value B))) = B"
proof -
  have B: "length B = 16" "\<forall>b \<in> set B. b < 256" using assms by (auto simp: v7_bytes_def)
  have "mixdig (64 # uuid_radices) (uuid_value B) = 32 # uuid_digits B"
    unfolding uuid_value_def using uuid_digits_ok [OF B] by (intro mixdig_mixv) simp
  from ub_uuid_of_packed [OF ub_bigIntToBytes this]
  have *: "ub (uuid_of_packed (bigIntToBytes (uuid_value B))) =
    [B ! 0, B ! 1, B ! 2, B ! 3, B ! 4, B ! 5, 112 + B ! 6 mod 16, B ! 7, 128 + B ! 8 mod 64,
     B ! 9, B ! 10, B ! 11, B ! 12, B ! 13, B ! 14, B ! 15]"
    by (simp add: uuid_digits_def)
  have "112 + B ! 6 mod 16 = B ! 6" "128 + B ! 8 mod 64 = B ! 8"
    using assms div_mult_mod_eq [of "B ! 6" 16] div_mult_mod_eq [of "B ! 8" 64]
    by (auto simp: v7_bytes_def)
  then show ?thesis using B(1) unfolding * by (elim list_16) simp
qed

text \<open>A packed UUID as the decoder accepts it: family bit set, reserved bits clear.\<close>

definition uuid_packed :: "byte list \<Rightarrow> bool" where
  "uuid_packed p \<longleftrightarrow> length p = 16 \<and> unat (p ! 0) div 4 = 32"

lemma uuid_value_packed:
  assumes "uuid_packed p"
  shows "v7_bytes (ub (uuid_of_packed p)) \<and> bigIntToBytes (uuid_value (ub (uuid_of_packed p))) = p"
proof -
  let ?T = "mixv (replicate 16 256) (ub p)"
  have len: "length p = 16" using assms by (simp add: uuid_packed_def)
  have T: "ub p = mixdig (replicate 16 256) ?T"
    by (rule mixdig_mixv [symmetric]) (simp only: digits_ok_bytes len)
  have "?T < 2 ^ 128"
    using mixv_bound [of "replicate 16 256" "ub p"] by (simp add: prod_list_replicate digits_ok_bytes len)
  then have rest: "?T mod prod_list (64 # uuid_radices) = ?T" by (simp add: prod_uuid_radices)
  have "unat (p ! 0) = ?T div 256 ^ 15 mod 256" using nth_packed [OF T, of 0] by simp
  then have "?T div 256 ^ 15 mod 256 div 4 = 32" using assms by (simp add: uuid_packed_def)
  then have top: "?T div 2 ^ 122 mod 64 = 32"
    using mod_mult2_eq [of "?T div 256 ^ 15" 4 64] div_mult2_eq [of ?T "256 ^ 15" 4] by simp
  define ds where "ds = mixdig uuid_radices ?T"
  have ds: "mixdig (64 # uuid_radices) ?T = 32 # ds"
    using top by (simp add: prod_uuid_radices ds_def)
  have ok: "digits_ok uuid_radices ds" unfolding ds_def by (rule mixdig_ok) (simp add: uuid_radices_def)
  have B: "ub (uuid_of_packed p) = [ds ! 0, ds ! 1, ds ! 2, ds ! 3, ds ! 4, ds ! 5, 112 + ds ! 6, ds ! 7,
    128 + ds ! 8, ds ! 9, ds ! 10, ds ! 11, ds ! 12, ds ! 13, ds ! 14, ds ! 15]"
    by (rule ub_uuid_of_packed [OF T ds])
  have dl: "length ds = 16" by (simp add: ds_def uuid_radices_def)
  have b6: "ds ! 6 < 16" and b8: "ds ! 8 < 64" using ok by (auto simp: uuid_radices_def)
  have "uuid_digits (ub (uuid_of_packed p)) = ds"
    unfolding B uuid_digits_def using b6 b8 dl by (elim list_16) (simp add: mod_add_left_eq [symmetric])
  then have "uuid_value (ub (uuid_of_packed p)) = ?T"
    unfolding uuid_value_def using ds rest by (metis mixv_mixdig)
  then have "bigIntToBytes (uuid_value (ub (uuid_of_packed p))) = p"
    by (simp add: T [symmetric] ub_bigIntToBytes flip: ub_inj)
  moreover have "v7_bytes (ub (uuid_of_packed p))"
  proof -
    have "\<forall>b \<in> set (ub (uuid_of_packed p)). b < 256" by auto
    moreover have "(112 + ds ! 6) div 16 = 7" "(128 + ds ! 8) div 64 = 2"
      using b6 b8 by (auto intro: div_nat_eqI)
    then have "ub (uuid_of_packed p) ! 6 div 16 = 7 \<and> ub (uuid_of_packed p) ! 8 div 64 = 2"
      unfolding B by simp
    ultimately show ?thesis unfolding v7_bytes_def by (simp add: uuid_of_packed_def)
  qed
  ultimately show ?thesis by simp
qed

subsection \<open>The text form\<close>

lemma less_16_cases:
  "d < 16 \<longleftrightarrow> d \<in> {0, 1, 2, 3, 4, 5, 6, 7, 8, 9, 10, 11, 12, 13, 14, 15 :: nat}"
  by simp arith

lemma hex_digit_facts:
  "d < 16 \<Longrightarrow> hexval (hex_digit d) = Some d \<and> hex_digit d \<noteq> CHR ''-'' \<and> is_lower_hex (hex_digit d)"
  unfolding less_16_cases by (auto simp: hex_digit_def hexval_def is_lower_hex_def)

lemma lower_hexE:
  assumes "is_lower_hex c"
  obtains d where "d < 16" "c = hex_digit d" "hexval c = Some d"
proof -
  have "cc c \<in> cc ` set ''0123456789abcdef''"
    using assms by (simp add: is_lower_hex_def) presburger
  then have "c \<in> set ''0123456789abcdef''" by (elim imageE) (simp only: of_char_eq_iff)
  then obtain d where "d < length ''0123456789abcdef''" "''0123456789abcdef'' ! d = c"
    unfolding in_set_conv_nth by blast
  then have "d < 16" "c = hex_digit d" by (simp_all add: hex_digit_def)
  then show ?thesis using that hex_digit_facts by metis
qed

lemma nibbles [simp]: "unat (b :: byte) div 16 < 16" "unat (b :: byte) mod 16 < 16"
  using unat_byte_less [of b] by arith+

lemma HEX2_no_hyphen: "filter (\<lambda>c. c \<noteq> CHR ''-'') (HEX2 b) = HEX2 b"
  by (simp add: HEX2_def hex_digit_facts)

lemma length_HEX2 [simp]: "length (HEX2 b) = 2"
  by (simp add: HEX2_def)

lemma parse_hex_HEX2: "word_of_nat (parse_hex 0 (HEX2 b)) = b"
proof -
  have "parse_hex 0 (HEX2 b) = unat b div 16 * 16 + unat b mod 16"
    by (simp add: HEX2_def hex_digit_facts)
  also have "\<dots> = unat b" by (rule div_mult_mod_eq)
  finally show ?thesis by simp
qed

lemma take_drop_concat_HEX2:
  "i < length bs \<Longrightarrow> take 2 (drop (i * 2) (concat (map HEX2 bs))) = HEX2 (bs ! i)"
proof (induction bs arbitrary: i)
  case (Cons b bs)
  then show ?case by (cases i) (auto simp: HEX2_def)
qed simp

lemma filter_formatUuidBytes:
  "length bs = 16 \<Longrightarrow> filter (\<lambda>c. c \<noteq> CHR ''-'') (formatUuidBytes bs) = concat (map HEX2 bs)"
  by (erule list_16) (simp add: formatUuidBytes_def HEX2_no_hyphen)

lemma parse_formatUuidBytes: "length bs = 16 \<Longrightarrow> parseUuidBytes (formatUuidBytes bs) = bs"
  by (rule nth_equalityI)
    (auto simp: parseUuidBytes_def Let_def docid_consts filter_formatUuidBytes
      take_drop_concat_HEX2 parse_hex_HEX2)

definition hex_pair :: "char \<Rightarrow> char \<Rightarrow> byte" where
  "hex_pair c d = word_of_nat (16 * the (hexval c) + the (hexval d))"

lemma HEX2_hex_pair: "is_lower_hex c \<Longrightarrow> is_lower_hex d \<Longrightarrow> HEX2 (hex_pair c d) = [c, d]"
proof (elim lower_hexE)
  fix x y
  assume *: "x < 16" "y < 16" "c = hex_digit x" "d = hex_digit y" "hexval c = Some x" "hexval d = Some y"
  then have "16 * x + y < 256" by arith
  then have "unat (word_of_nat (16 * x + y) :: byte) = 16 * x + y" by (subst unat_of_nat) simp
  with * show ?thesis by (simp add: HEX2_def hex_pair_def)
qed

lemma upt_36: "[0..<36] = [0, 1, 2, 3, 4, 5, 6, 7, 8, 9, 10, 11, 12, 13, 14, 15, 16, 17, 18, 19, 20,
   21, 22, 23, 24, 25, 26, 27, 28, 29, 30, 31, 32, 33, 34, 35 :: nat]"
  by code_simp

lemma UUID_V7_REGEX_list: "UUID_V7_REGEX =
  (let h = is_lower_hex; m = \<lambda>c. c = CHR ''-'' in
   [h, h, h, h, h, h, h, h, m, h, h, h, h, m, \<lambda>c. c = CHR ''7'', h, h, h, m,
    \<lambda>c. c \<in> set ''89ab'', h, h, h, m, h, h, h, h, h, h, h, h, h, h, h, h])"
  by (simp add: UUID_V7_REGEX_def Let_def numeral_eq_Suc)

lemma unat_hex_pair:
  assumes "is_lower_hex c" "is_lower_hex d"
  shows "unat (hex_pair c d) div 16 = the (hexval c)"
proof -
  have "hex_digit (unat (hex_pair c d) div 16) = c"
    using HEX2_hex_pair [OF assms] by (simp add: HEX2_def)
  then show ?thesis using hex_digit_facts [of "unat (hex_pair c d) div 16"] by auto
qed

lemma canonical_nth:
  assumes "isCanonicalUUIDv7 s"
  shows "length s = 36" and "i < 36 \<Longrightarrow> (UUID_V7_REGEX ! i) (s ! i)"
proof -
  have "length UUID_V7_REGEX = 36" by (simp add: UUID_V7_REGEX_list Let_def)
  with assms show "length s = 36" and "i < 36 \<Longrightarrow> (UUID_V7_REGEX ! i) (s ! i)"
    by (auto simp: isCanonicalUUIDv7_def list_all2_conv_all_nth)
qed

lemma canonical_format:
  assumes "isCanonicalUUIDv7 s"
  shows "\<exists>bs. length bs = 16 \<and> v7_bytes (ub bs) \<and> s = formatUuidBytes bs"
proof -
  note len = canonical_nth(1) [OF assms]
  have "\<forall>i \<in> set [0..<36]. (UUID_V7_REGEX ! i) (s ! i)" using canonical_nth(2) [OF assms] by simp
  then have raw: "\<forall>i \<in> set [0, 1, 2, 3, 4, 5, 6, 7, 9, 10, 11, 12, 15, 16, 17, 20, 21, 22,
      24, 25, 26, 27, 28, 29, 30, 31, 32, 33, 34, 35]. is_lower_hex (s ! i)"
    "\<forall>i \<in> set [8, 13, 18, 23]. s ! i = CHR ''-''" "s ! 14 = CHR ''7''" "s ! 19 \<in> set ''89ab''"
    unfolding upt_36 UUID_V7_REGEX_list Let_def by simp_all
  have "is_lower_hex (s ! 14)" "is_lower_hex (s ! 19)" using raw(3,4) by (auto simp: is_lower_hex_def)
  note pat = raw this
  define bs where "bs = map (\<lambda>i. hex_pair (s ! i) (s ! Suc i))
    [0, 2, 4, 6, 9, 11, 14, 16, 19, 21, 24, 26, 28, 30, 32, 34]"
  have "s = map ((!) s) [0..<36]" using len by (metis map_nth)
  also have "\<dots> = formatUuidBytes bs"
    unfolding upt_36 formatUuidBytes_def bs_def using pat by (simp add: HEX2_hex_pair)
  finally have s: "s = formatUuidBytes bs" .
  have v: "the (hexval (s ! 19)) \<in> {8, 9, 10, 11}" using pat(4) by (auto simp: hexval_def)
  have l: "length bs = 16" by (simp add: bs_def)
  have b6: "bs ! 6 = hex_pair (s ! 14) (s ! Suc 14)" and b8: "bs ! 8 = hex_pair (s ! 19) (s ! Suc 19)"
    by (simp_all add: bs_def)
  have h15: "is_lower_hex (s ! Suc 14)" and h20: "is_lower_hex (s ! Suc 19)" using pat(1) by simp_all
  have "unat (bs ! 6) div 16 = 7"
    using unat_hex_pair [OF pat(5) h15] b6 pat(3) by (simp add: hexval_def)
  moreover have "unat (bs ! 8) div 16 div 4 = 2"
    using unat_hex_pair [OF pat(6) h20] b8 v by auto
  then have "unat (bs ! 8) div 64 = 2" by (simp only: div_mult2_eq [symmetric]) simp
  ultimately have "v7_bytes (ub bs)" using l unfolding v7_bytes_def
    by (auto simp: l unsigned_less [where 'b = 8, simplified])
  then show ?thesis using s l by blast
qed

lemma format_canonical:
  assumes "length bs = 16" "v7_bytes (ub bs)"
  shows "isCanonicalUUIDv7 (formatUuidBytes bs)"
proof -
  have h: "is_lower_hex (hex_digit (unat b div 16))" "is_lower_hex (hex_digit (unat b mod 16))" for b :: byte
    by (simp_all add: hex_digit_facts)
  have v: "unat (bs ! 6) div 16 = 7" "unat (bs ! 8) div 64 = 2" using assms by (auto simp: v7_bytes_def)
  have "unat (bs ! 8) div 16 \<in> {8, 9, 10, 11}" using v(2) by auto
  then have "hex_digit (unat (bs ! 8) div 16) \<in> set ''89ab''" by (auto simp: hex_digit_def)
  moreover have "hex_digit (unat (bs ! 6) div 16) = CHR ''7''" using v(1) by (simp add: hex_digit_def)
  ultimately show ?thesis
    unfolding isCanonicalUUIDv7_def UUID_V7_REGEX_list Let_def formatUuidBytes_def HEX2_def
    using h by simp
qed

end
