(* ===== verification/DocIdSpec.thy ===== *)
theory DocIdSpec
  imports DocIdProofs
begin

text \<open>
  The contract of \<open>doc_id.ts\<close>: the uncached decoder that the cached one refines, the
  invariant of the three caches, the two round trips of the packing, and the order.
\<close>

section \<open>Bit tests\<close>

lemma byte_all:
  assumes "\<forall>n \<in> set [m..<256]. P (word_of_nat n :: byte) n" "m \<le> unat b"
  shows "P b (unat b)"
proof -
  have "unat b \<in> set [m..<256]" using assms(2) by (simp only: set_upt) simp
  from bspec [OF assms(1) this] show ?thesis by simp
qed

lemma byte_bit7: "(b :: byte) AND 0x80 \<noteq> 0 \<longleftrightarrow> 128 \<le> unat b"
proof -
  have "\<forall>n \<in> set [0..<256]. ((word_of_nat n :: byte) AND 0x80 = 0) = (n < 128)" by code_simp
  from byte_all [where P = "\<lambda>b n. (b AND 0x80 = 0) = (n < 128)", OF this, of b] show ?thesis by (simp only: not_less [symmetric])
qed

lemma byte_reserved:
  assumes "128 \<le> unat (b :: byte)"
  shows "b AND 0x7c \<noteq> 0 \<longleftrightarrow> unat b div 4 \<noteq> 32"
proof -
  have "\<forall>n \<in> set [128..<256]. ((word_of_nat n :: byte) AND 0x7c = 0) = (n div 4 = 32)" by code_simp
  from byte_all [where P = "\<lambda>b n. (b AND 0x7c = 0) = (n div 4 = 32)", OF this assms] show ?thesis by (simp only:)
qed

section \<open>The uncached decoder and the caches\<close>

definition unpack_ref :: "byte list \<Rightarrow> thrown + string" where
  \<comment> \<open>what \<open>unpackDocId\<close> answers when every cache misses\<close>
  "unpack_ref p =
     (if length p \<noteq> 16
      then Inl (invalidDocIdError
             (''Invalid document ID byte length '' @ show_nat (length p) @ ''; expected 16.'')
             ''INVALID_MESSAGE'')
      else if 128 \<le> unat (p ! 0)
      then if unat (p ! 0) div 4 = 32 then Inr (formatUuidBytes (uuid_of_packed p))
           else Inl (invalidDocIdError ''Invalid packed UUIDv7 document ID'' ''INVALID_MESSAGE'')
      else decodeShortDocId (bytesToBigInt p))"

definition sort_family :: "string \<Rightarrow> nat" where
  "sort_family did = (if isCanonicalUUIDv7 did then 1 else if isValidShortDocId did then 0 else 2)"

definition entry_ok :: "cache_entry option \<Rightarrow> bool" where
  "entry_ok w = (case w of None \<Rightarrow> True
     | Some e \<Rightarrow> length (ce_packed e) = 16 \<and> unpack_ref (ce_packed e) = Inr (ce_id e))"

definition caches_ok :: "docid_caches \<Rightarrow> bool" where
  "caches_ok s \<longleftrightarrow>
     (\<forall>i. entry_ok (shortDocIdHotCache s i) \<and> entry_ok (uuidDecodeCachePrimary s i)
        \<and> entry_ok (uuidDecodeCacheSecondary s i))
     \<and> (\<forall>i \<ge> 4096. shortDocIdHotCache s i = None \<and> uuidDecodeCachePrimary s i = None
        \<and> uuidDecodeCacheSecondary s i = None)
     \<and> om_wf (docIdSortFamilyCache s) \<and> length (docIdSortFamilyCache s) \<le> 4096
     \<and> (\<forall>(k, f) \<in> set (docIdSortFamilyCache s). f = sort_family k)"

lemma entry_ok_None [simp]: "entry_ok None" by (simp add: entry_ok_def)

lemma lookupCachedUuid_hit:
  assumes "entry_ok w" "length p = 16" "lookupCachedUuid p w = Some did"
  shows "unpack_ref p = Inr did"
proof -
  obtain e where e: "w = Some e" "\<forall>i < 16. p ! i = ce_packed e ! i" "ce_id e = did"
    using assms(3) by (auto simp: lookupCachedUuid_def docid_consts list_all_iff split: option.splits if_splits)
  with assms have "p = ce_packed e" by (intro nth_equalityI) (auto simp: entry_ok_def)
  with assms e show ?thesis by (simp add: entry_ok_def)
qed

lemma mask_4095: "n AND (DOC_ID_CACHE_LIMIT - 1) < 4096"
proof -
  have "n AND 4095 = n mod (4096 :: nat)"
    using take_bit_eq_mask [of 12 n] by (simp add: take_bit_eq_mod mask_eq_exp_minus_1 and.commute)
  then show ?thesis by (simp add: DOC_ID_CACHE_LIMIT_def)
qed

lemma cache_index_less [simp]: "uuid_cache_index p < 4096" "short_cache_index p < 4096"
  by (simp_all only: uuid_cache_index_def short_cache_index_def mask_4095)

lemma index_less_not_ge: "4096 \<le> i \<Longrightarrow> i \<noteq> uuid_cache_index p" "4096 \<le> i \<Longrightarrow> i \<noteq> short_cache_index p"
  by (metis cache_index_less not_le)+

lemma caches_ok_empty: "caches_ok empty_caches"
  by (simp add: caches_ok_def empty_caches_def)

lemma decodeUuid_refines:
  assumes s: "caches_ok s" and p: "length p = 16" "128 \<le> unat (p ! 0)"
  shows "fst (decodeUuidV7DocId s p) = unpack_ref p \<and> caches_ok (snd (decodeUuidV7DocId s p))"
proof (cases "unat (p ! 0) div 4 = 32")
  case False
  then show ?thesis using s p by (simp add: decodeUuidV7DocId_def byte_reserved unpack_ref_def)
next
  case True
  let ?i = "uuid_cache_index p"
  have e: "entry_ok (uuidDecodeCachePrimary s ?i)" "entry_ok (uuidDecodeCacheSecondary s ?i)"
    using s by (simp_all add: caches_ok_def)
  have r: "unpack_ref p = Inr (formatUuidBytes (uuid_of_packed p))" using True p by (simp add: unpack_ref_def)
  consider (hit) did where "lookupCachedUuid p (uuidDecodeCachePrimary s ?i) = Some did"
    | (hit2) did where "lookupCachedUuid p (uuidDecodeCachePrimary s ?i) = None"
        "lookupCachedUuid p (uuidDecodeCacheSecondary s ?i) = Some did"
    | (miss) "lookupCachedUuid p (uuidDecodeCachePrimary s ?i) = None"
        "lookupCachedUuid p (uuidDecodeCacheSecondary s ?i) = None"
    by fastforce
  then show ?thesis
  proof cases
    case hit
    then show ?thesis using True p s lookupCachedUuid_hit [OF e(1) p(1)]
      by (simp add: decodeUuidV7DocId_def byte_reserved)
  next
    case hit2
    then show ?thesis using True p s lookupCachedUuid_hit [OF e(2) p(1)]
      by (simp add: decodeUuidV7DocId_def byte_reserved)
  next
    case miss
    have new: "entry_ok (Some \<lparr>ce_packed = p, ce_id = formatUuidBytes (uuid_of_packed p)\<rparr>)"
      using p r by (simp add: entry_ok_def)
    show ?thesis using miss True p s e r new
      by (simp add: decodeUuidV7DocId_def byte_reserved caches_ok_def Let_def index_less_not_ge)
  qed
qed

lemma unpackDocId_refines:
  assumes s: "caches_ok s"
  shows "fst (unpackDocId s p) = unpack_ref p \<and> caches_ok (snd (unpackDocId s p))"
proof -
  let ?i = "short_cache_index p"
  consider (len) "length p \<noteq> 16" | (uuid) "length p = 16" "128 \<le> unat (p ! 0)"
    | (short) "length p = 16" "\<not> 128 \<le> unat (p ! 0)" by blast
  then show ?thesis
  proof cases
    case len
    then show ?thesis using s by (simp add: unpackDocId_def unpack_ref_def docid_consts)
  next
    case uuid
    then show ?thesis using decodeUuid_refines [OF s] by (simp add: unpackDocId_def docid_consts byte_bit7)
  next
    case short
    have r: "unpack_ref p = decodeShortDocId (bytesToBigInt p)" using short by (simp add: unpack_ref_def)
    have e: "entry_ok (shortDocIdHotCache s ?i)" using s by (simp add: caches_ok_def)
    show ?thesis
    proof (cases "lookupCachedUuid p (shortDocIdHotCache s ?i)")
      case (Some did)
      then show ?thesis using s short lookupCachedUuid_hit [OF e short(1) Some]
        by (simp add: unpackDocId_def docid_consts byte_bit7)
    next
      case None
      show ?thesis
      proof (cases "decodeShortDocId (bytesToBigInt p)")
        case (Inl err)
        with None show ?thesis using s short r by (simp add: unpackDocId_def docid_consts byte_bit7)
      next
        case (Inr did)
        then have new: "entry_ok (Some \<lparr>ce_packed = p, ce_id = did\<rparr>)"
          using short r by (simp add: entry_ok_def)
        show ?thesis using None Inr s short r new
          by (simp add: unpackDocId_def docid_consts byte_bit7 caches_ok_def Let_def index_less_not_ge)
      qed
    qed
  qed
qed

text \<open>The state of the caches never shows: any well-formed state gives the uncached answer.\<close>

lemma unpackDocId_fst [simp]: "caches_ok s \<Longrightarrow> fst (unpackDocId s p) = unpack_ref p"
  and caches_ok_unpack [simp, inv_intros]: "caches_ok s \<Longrightarrow> caches_ok (snd (unpackDocId s p))"
  using unpackDocId_refines by blast+

section \<open>Valid ids and their packed form\<close>

definition valid_doc_id :: "string \<Rightarrow> bool" where
  "valid_doc_id did \<longleftrightarrow> isCanonicalUUIDv7 did \<or> isValidShortDocId did"

definition pack_of :: "string \<Rightarrow> byte list" where
  "pack_of did = (if isCanonicalUUIDv7 did then encodeUuidV7DocId did else encodeShortDocId did)"

lemma packDocId_valid: "valid_doc_id did \<Longrightarrow> packDocId did code = Inr (pack_of did)"
  by (auto simp: valid_doc_id_def packDocId_def pack_of_def)

lemma packDocId_Inr_iff: "packDocId did code = Inr p \<longleftrightarrow> valid_doc_id did \<and> p = pack_of did"
  by (auto simp: valid_doc_id_def packDocId_def pack_of_def split: if_splits)

lemma canonical_length: "isCanonicalUUIDv7 s \<Longrightarrow> length s = 36"
  by (rule canonical_nth)

lemma short_not_canonical: "isValidShortDocId s \<Longrightarrow> \<not> isCanonicalUUIDv7 s"
  using canonical_length [of s] by (auto simp: isValidShortDocId_iff)

lemma valid_doc_id_cases:
  assumes "valid_doc_id did"
  obtains (short) "isValidShortDocId did" "\<not> isCanonicalUUIDv7 did"
      "pack_of did = bigIntToBytes (mixv (replicate 24 39) (short_digits did))"
  | (uuid) bs where "isCanonicalUUIDv7 did" "length bs = 16" "v7_bytes (ub bs)"
      "did = formatUuidBytes bs" "pack_of did = bigIntToBytes (uuid_value (ub bs))"
proof (cases "isCanonicalUUIDv7 did")
  case True
  then obtain bs where bs: "length bs = 16" "v7_bytes (ub bs)" "did = formatUuidBytes bs"
    using canonical_format by blast
  then show ?thesis using that(2) [OF True bs] True
    by (simp add: pack_of_def encodeUuidV7DocId_value parse_formatUuidBytes)
next
  case False
  then have "isValidShortDocId did" using assms by (simp add: valid_doc_id_def)
  then show ?thesis using that(1) False by (simp add: pack_of_def encodeShortDocId_value isValidShortDocId_iff)
qed

lemma first_byte: "v < 2 ^ 128 \<Longrightarrow> unat (bigIntToBytes v ! 0) = v div 2 ^ 120"
proof -
  assume "v < 2 ^ 128"
  then have "v div 2 ^ 120 < 256" by (simp add: less_mult_imp_div_less)
  moreover have "unat (bigIntToBytes v ! 0) = v div 256 ^ 15 mod 256"
    using arg_cong [OF ub_bigIntToBytes [of v], of "\<lambda>l. l ! 0"] mixdig_replicate_nth [of 0 16 256 v]
    by simp
  ultimately show ?thesis by simp
qed

section \<open>The two round trips\<close>

lemma uuid_value_range:
  assumes "v7_bytes B"
  shows "2 ^ 127 \<le> uuid_value B" and "uuid_value B < 2 ^ 127 + 2 ^ 122"
proof -
  have "digits_ok uuid_radices (uuid_digits B)" using assms by (auto simp: v7_bytes_def intro: uuid_digits_ok)
  from mixv_bound [OF this] have "mixv uuid_radices (uuid_digits B) < 2 ^ 122" by (simp add: prod_uuid_radices)
  then show "2 ^ 127 \<le> uuid_value B" "uuid_value B < 2 ^ 127 + 2 ^ 122"
    by (simp_all add: uuid_value_def prod_uuid_radices)
qed

lemma first_byte_uuid:
  assumes "v7_bytes B"
  shows "unat (bigIntToBytes (uuid_value B) ! 0) div 4 = 32"
proof -
  note r = uuid_value_range [OF assms]
  have "unat (bigIntToBytes (uuid_value B) ! 0) = uuid_value B div 2 ^ 120" using r by (intro first_byte) simp
  then have "unat (bigIntToBytes (uuid_value B) ! 0) div 4 = uuid_value B div 2 ^ 122"
    by (simp add: div_mult2_eq [symmetric])
  also have "\<dots> = 32" using r by (intro div_nat_eqI) simp_all
  finally show ?thesis .
qed

lemma first_byte_short:
  assumes "v < 2 ^ 127"
  shows "unat (bigIntToBytes v ! 0) < 128"
  using assms first_byte [of v] by (simp add: less_mult_imp_div_less)

lemma unpack_pack: "valid_doc_id did \<Longrightarrow> unpack_ref (pack_of did) = Inr did"
proof (erule valid_doc_id_cases)
  assume s: "isValidShortDocId did" "pack_of did = bigIntToBytes (mixv (replicate 24 39) (short_digits did))"
  let ?v = "mixv (replicate 24 39) (short_digits did)"
  have "?v < 2 ^ 127" using s(1) by (intro short_value_bound) (simp add: isValidShortDocId_iff)
  then have "\<not> 128 \<le> unat (bigIntToBytes ?v ! 0)" "bytesToBigInt (bigIntToBytes ?v) = ?v"
    using first_byte_short by (simp_all add: not_le bytesToBigInt_bigIntToBytes)
  then show ?thesis using s by (simp add: unpack_ref_def decodeShortDocId_encode)
next
  fix bs
  assume u: "length bs = 16" "v7_bytes (ub bs)" "did = formatUuidBytes bs"
    "pack_of did = bigIntToBytes (uuid_value (ub bs))"
  have "uuid_of_packed (bigIntToBytes (uuid_value (ub bs))) = bs"
    using ub_uuid_of_packed_value [OF u(2)] by (simp add: ub_inj)
  moreover have "unat (bigIntToBytes (uuid_value (ub bs)) ! 0) div 4 = 32" by (rule first_byte_uuid [OF u(2)])
  moreover from this have "128 \<le> unat (bigIntToBytes (uuid_value (ub bs)) ! 0)" by arith
  ultimately show ?thesis using u by (simp add: unpack_ref_def)
qed

lemma pack_unpack:
  assumes "unpack_ref p = Inr did"
  shows "valid_doc_id did \<and> pack_of did = p"
proof -
  have len: "length p = 16" using assms by (simp add: unpack_ref_def split: if_splits)
  show ?thesis
  proof (cases "128 \<le> unat (p ! 0)")
    case True
    then have did: "did = formatUuidBytes (uuid_of_packed p)" and p: "uuid_packed p"
      using assms len by (auto simp: unpack_ref_def uuid_packed_def split: if_splits)
    have len': "length (uuid_of_packed p) = 16" by (simp add: uuid_of_packed_def)
    have v: "v7_bytes (ub (uuid_of_packed p))" "bigIntToBytes (uuid_value (ub (uuid_of_packed p))) = p"
      using uuid_value_packed [OF p] by simp_all
    have c: "isCanonicalUUIDv7 did" unfolding did by (rule format_canonical [OF len' v(1)])
    then have "pack_of did = encodeUuidV7DocId did" by (simp add: pack_of_def)
    also have "\<dots> = p" unfolding encodeUuidV7DocId_value unfolding did by (simp add: parse_formatUuidBytes len' v(2))
    finally show ?thesis using c by (simp add: valid_doc_id_def)
  next
    case False
    then have "decodeShortDocId (bytesToBigInt p) = Inr did" using assms len by (simp add: unpack_ref_def)
    from encode_decodeShortDocId [OF this]
    have s: "isValidShortDocId did" "bytesToBigInt p = mixv (replicate 24 39) (short_digits did)" by simp_all
    then have "pack_of did = bigIntToBytes (bytesToBigInt p)"
      using short_not_canonical [OF s(1)]
      by (simp add: pack_of_def encodeShortDocId_value isValidShortDocId_iff)
    also have "\<dots> = p" using len by (rule bigIntToBytes_bytesToBigInt)
    finally show ?thesis using s by (simp add: valid_doc_id_def)
  qed
qed

lemma pack_length: "valid_doc_id did \<Longrightarrow> length (pack_of did) = 16"
  using unpack_pack [of did] by (simp add: unpack_ref_def split: if_splits)

section \<open>The contract of an id codec\<close>

text \<open>
  What the wire layer relies on: packing a valid id gives bytes that unpack to it, and only
  packed valid ids unpack. The facts about whole lists of ids are proved from this alone.
\<close>

locale id_codec =
  fixes pack :: "'i \<Rightarrow> 'e + 'p"
    and unpack :: "'p \<Rightarrow> 'e + 'i"
  assumes pack_then_unpack: "pack i = Inr p \<Longrightarrow> unpack p = Inr i"
    and unpack_then_pack: "unpack p = Inr i \<Longrightarrow> pack i = Inr p"
begin

lemma pack_inj: "pack i = Inr p \<Longrightarrow> pack j = Inr p \<Longrightarrow> i = j"
  by (auto dest!: pack_then_unpack)

lemma unpack_inj: "unpack p = Inr i \<Longrightarrow> unpack q = Inr i \<Longrightarrow> p = q"
  by (auto dest!: unpack_then_pack)

lemma traverse_round: "traverse pack is = Inr ps \<longleftrightarrow> traverse unpack ps = Inr is"
  unfolding traverse_eq_Inr list_all2_conv_all_nth by (auto intro: pack_then_unpack unpack_then_pack)

end

interpretation docids: id_codec "\<lambda>did. packDocId did code" unpack_ref
  by unfold_locales (auto simp: packDocId_Inr_iff unpack_pack dest: pack_unpack)

section \<open>The order of packed ids\<close>

lemma list_lt_bigIntToBytes:
  assumes "v < 2 ^ 128" "w < 2 ^ 128"
  shows "list_lt (ub (bigIntToBytes v)) (ub (bigIntToBytes w)) \<longleftrightarrow> v < w"
proof -
  let ?rs = "replicate 16 256"
  have "digits_ok ?rs (mixdig ?rs v)" "digits_ok ?rs (mixdig ?rs w)" by (rule mixdig_ok; simp)+
  from mixv_less_iff [OF this] show ?thesis
    using assms by (simp add: ub_bigIntToBytes mixv_mixdig prod_list_replicate)
qed

lemma list_lt_relabel:
  fixes f :: "'a \<Rightarrow> 'b::linorder" and g :: "'a \<Rightarrow> 'c::linorder"
  assumes "\<And>c d. c \<in> set a \<union> set b \<Longrightarrow> d \<in> set a \<union> set b \<Longrightarrow> g c < g d \<longleftrightarrow> f c < f d"
    and "\<And>c d. c \<in> set a \<union> set b \<Longrightarrow> d \<in> set a \<union> set b \<Longrightarrow> g c = g d \<longleftrightarrow> f c = f d"
  shows "list_lt (map f a) (map f b) = list_lt (map g a) (map g b)"
  using assms
proof (induction a arbitrary: b)
  case Nil
  then show ?case by (cases b) auto
next
  case (Cons x a)
  then show ?case by (cases b) auto
qed

lemma short_order:
  assumes "isValidShortDocId a" "isValidShortDocId b"
  shows "mixv (replicate 24 39) (short_digits a) < mixv (replicate 24 39) (short_digits b) \<longleftrightarrow> js_str_lt a b"
proof -
  have a: "length a \<le> 24" "\<forall>c \<in> set a. shortCharToDigit c \<noteq> None"
    and b: "length b \<le> 24" "\<forall>c \<in> set b. shortCharToDigit c \<noteq> None"
    using assms by (auto simp: isValidShortDocId_iff)
  have "mixv (replicate 24 39) (short_digits a) < mixv (replicate 24 39) (short_digits b)
      \<longleftrightarrow> list_lt (short_digits a) (short_digits b)"
    using a b by (intro mixv_less_iff short_digits_ok)
  also have "\<dots> \<longleftrightarrow> list_lt (map short_digit a) (map short_digit b)"
    unfolding short_digits_def using a b by (intro list_lt_pad) (auto simp: short_digit_bounds)
  also have "\<dots> \<longleftrightarrow> list_lt (map cc a) (map cc b)"
  proof -
    have o: "cc c < cc d \<longleftrightarrow> short_digit c < short_digit d" "cc c = cc d \<longleftrightarrow> short_digit c = short_digit d"
      if "c \<in> set a \<union> set b" "d \<in> set a \<union> set b" for c d
      using short_digit_order [of c d] a b that by auto
    show ?thesis using o by (rule list_lt_relabel)
  qed
  finally show ?thesis by (simp add: js_str_lt_def)
qed

lemma hex_digit_order:
  "d < 16 \<Longrightarrow> e < 16 \<Longrightarrow> cc (hex_digit d) < cc (hex_digit e) \<longleftrightarrow> d < e"
  "d < 16 \<Longrightarrow> e < 16 \<Longrightarrow> hex_digit d = hex_digit e \<longleftrightarrow> d = e"
proof -
  have "\<forall>d \<in> set [0..<16]. \<forall>e \<in> set [0..<16].
    (cc (hex_digit d) < cc (hex_digit e) \<longleftrightarrow> d < e) \<and> (hex_digit d = hex_digit e \<longleftrightarrow> d = e)"
    by code_simp
  then show "d < 16 \<Longrightarrow> e < 16 \<Longrightarrow> cc (hex_digit d) < cc (hex_digit e) \<longleftrightarrow> d < e"
    "d < 16 \<Longrightarrow> e < 16 \<Longrightarrow> hex_digit d = hex_digit e \<longleftrightarrow> d = e"
    by (simp_all only: set_upt atLeast0LessThan lessThan_iff Ball_def)
qed

lemma HEX2_order:
  "list_lt (map cc (HEX2 x @ s)) (map cc (HEX2 y @ t)) \<longleftrightarrow> x < y \<or> x = y \<and> list_lt (map cc s) (map cc t)"
proof -
  have eq: "x = y \<longleftrightarrow> unat x div 16 = unat y div 16 \<and> unat x mod 16 = unat y mod 16"
    by (metis div_mult_mod_eq word_unat_eq_iff)
  have lt: "x < y \<longleftrightarrow> unat x div 16 < unat y div 16
      \<or> unat x div 16 = unat y div 16 \<and> unat x mod 16 < unat y mod 16"
    using div_mult_mod_eq [of "unat x" 16] div_mult_mod_eq [of "unat y" 16] nibbles [of x] nibbles [of y]
    unfolding word_less_nat_alt by arith
  show ?thesis unfolding eq lt HEX2_def
    by (auto simp: hex_digit_order)
qed

lemma list_lt_hyphen: "list_lt (map cc (''-'' @ s)) (map cc (''-'' @ t)) \<longleftrightarrow> list_lt (map cc s) (map cc t)"
  by simp

lemma HEX2_order_last: "list_lt (map cc (HEX2 x)) (map cc (HEX2 y)) \<longleftrightarrow> x < y"
  using HEX2_order [of x "[]" y "[]"] by simp

lemma format_order:
  assumes "length a = 16" "length b = 16"
  shows "js_str_lt (formatUuidBytes a) (formatUuidBytes b) \<longleftrightarrow> list_lt (ub a) (ub b)"
  apply (insert assms, elim list_16)
  apply (simp only: formatUuidBytes_def js_str_lt_def nth_Cons_0 nth_Cons_numeral HEX2_order
      list_lt_hyphen HEX2_order_last list.map list_lt.simps diff_numeral_simps word_less_nat_alt
      word_unat_eq_iff)
  apply simp
  done

lemma uuid_order:
  assumes "v7_bytes A" "v7_bytes B"
  shows "uuid_value A < uuid_value B \<longleftrightarrow> list_lt A B"
proof -
  have A: "length A = 16" "\<forall>b \<in> set A. b < 256" and B: "length B = 16" "\<forall>b \<in> set B. b < 256"
    using assms by (auto simp: v7_bytes_def)
  have "uuid_value A < uuid_value B \<longleftrightarrow> list_lt (uuid_digits A) (uuid_digits B)"
    using mixv_less_iff [OF uuid_digits_ok [OF A] uuid_digits_ok [OF B]] by (simp add: uuid_value_def)
  also have "\<dots> \<longleftrightarrow> list_lt A B"
  proof -
    have s6: "A ! 6 = 112 + A ! 6 mod 16" "B ! 6 = 112 + B ! 6 mod 16"
      and s8: "A ! 8 = 128 + A ! 8 mod 64" "B ! 8 = 128 + B ! 8 mod 64"
      using assms div_mult_mod_eq [of "A ! 6" 16] div_mult_mod_eq [of "B ! 6" 16]
        div_mult_mod_eq [of "A ! 8" 64] div_mult_mod_eq [of "B ! 8" 64] by (auto simp: v7_bytes_def)
    then have "A ! 6 mod 16 < B ! 6 mod 16 \<longleftrightarrow> A ! 6 < B ! 6" "A ! 6 mod 16 = B ! 6 mod 16 \<longleftrightarrow> A ! 6 = B ! 6"
      "A ! 8 mod 64 < B ! 8 mod 64 \<longleftrightarrow> A ! 8 < B ! 8" "A ! 8 mod 64 = B ! 8 mod 64 \<longleftrightarrow> A ! 8 = B ! 8"
      by arith+
    moreover have "A = map ((!) A) [0..<16]" "B = map ((!) B) [0..<16]"
      using A(1) B(1) by (metis map_nth)+
    then have "list_lt A B = list_lt (map ((!) A) [0..<16]) (map ((!) B) [0..<16])" by metis
    ultimately show ?thesis unfolding uuid_digits_def upt_small by (simp del: nth_Cons_numeral)
  qed
  finally show ?thesis .
qed

lemma pack_order:
  assumes "valid_doc_id a" "valid_doc_id b"
  shows "list_lt (ub (pack_of a)) (ub (pack_of b)) \<longleftrightarrow>
    sort_family a < sort_family b \<or> sort_family a = sort_family b \<and> js_str_lt a b"
proof -
  have u: "uuid_value B < 2 ^ 128" "\<not> uuid_value B < 2 ^ 127" if "v7_bytes B" for B
    using uuid_value_range [OF that] by simp_all
  have v: "mixv (replicate 24 39) (short_digits s) < 2 ^ 127" if "isValidShortDocId s" for s
    using that by (intro short_value_bound) (simp add: isValidShortDocId_iff)
  then have v': "mixv (replicate 24 39) (short_digits s) < 2 ^ 128" if "isValidShortDocId s" for s
    using that less_trans by fastforce
  show ?thesis
    using assms(1)
  proof (cases rule: valid_doc_id_cases)
    case short
    note A = this
    show ?thesis using assms(2)
    proof (cases rule: valid_doc_id_cases)
      case short
      then show ?thesis using A by (simp add: sort_family_def list_lt_bigIntToBytes v' short_order del: power_numeral)
    next
      case (uuid bs)
      have "mixv (replicate 24 39) (short_digits a) < uuid_value (ub bs)" using v [OF A(1)] u [OF uuid(3)] by linarith
      then show ?thesis using A uuid
        by (simp add: sort_family_def list_lt_bigIntToBytes v' u del: power_numeral)
    qed
  next
    case (uuid as)
    note A = this
    show ?thesis using assms(2)
    proof (cases rule: valid_doc_id_cases)
      case short
      have "\<not> uuid_value (ub as) < mixv (replicate 24 39) (short_digits b)" using v [OF short(1)] u [OF A(3)] by linarith
      then show ?thesis using A short
        by (simp add: sort_family_def list_lt_bigIntToBytes v' u del: power_numeral)
    next
      case (uuid bs)
      then show ?thesis using A
        by (simp add: sort_family_def list_lt_bigIntToBytes u uuid_order format_order del: power_numeral)
    qed
  qed
qed

section \<open>The comparison\<close>

definition compare_ref :: "string \<Rightarrow> string \<Rightarrow> int" where
  \<comment> \<open>\<open>compareDocIds\<close> without the family cache\<close>
  "compare_ref a b =
     (if sort_family a \<noteq> sort_family b then int (sort_family a) - int (sort_family b)
      else if js_str_lt a b then -1 else if js_str_lt b a then 1 else 0)"

lemma docIdSortFamily_refines:
  assumes s: "caches_ok s"
  shows "fst (docIdSortFamily s did) = sort_family did \<and> caches_ok (snd (docIdSortFamily s did))"
proof (cases "om_get (docIdSortFamilyCache s) did")
  case (Some f)
  then show ?thesis using s by (auto simp: docIdSortFamily_def caches_ok_def dest: om_get_SomeD)
next
  case None
  let ?m = "docIdSortFamilyCache s"
  let ?e = "if length ?m \<ge> 4096 then (case ?m of [] \<Rightarrow> ?m | (first, _) # _ \<Rightarrow> om_delete ?m first) else ?m"
  have m: "om_wf ?m" "length ?m \<le> 4096" "\<forall>(k, f) \<in> set ?m. f = sort_family k"
    using s by (auto simp: caches_ok_def)
  have e: "om_wf ?e" "length ?e < 4096" "set ?e \<subseteq> set ?m"
  proof -
    show "om_wf ?e" using m by (auto split: list.splits)
    show "set ?e \<subseteq> set ?m" by (auto simp: om_delete_def split: list.splits)
    show "length ?e < 4096"
    proof (cases ?m)
      case (Cons p r)
      then have "om_delete ?m (fst p) = r" using m(1) by (cases p) (force simp: om_delete_def filter_id_conv)
      then show ?thesis using Cons m(2) by (auto split: prod.splits)
    qed simp
  qed
  have fresh: "did \<notin> fst ` set ?e" using None e(3) by (auto simp: om_get_None_iff)
  let ?m' = "om_set ?e did (sort_family did)"
  have m': "?m' = ?e @ [(did, sort_family did)]" using fresh by (rule om_set_fresh)
  have "om_wf ?m'" using e(1) by (rule om_wf_set)
  moreover have "length ?m' \<le> 4096" using e(2) unfolding m' by simp
  moreover have "\<forall>(k, f) \<in> set ?m'. f = sort_family k" using e(3) m(3) unfolding m' by auto
  ultimately have ok: "caches_ok (s\<lparr>docIdSortFamilyCache := ?m'\<rparr>)" using s by (simp add: caches_ok_def)
  have "docIdSortFamily s did = (sort_family did, s\<lparr>docIdSortFamilyCache := ?m'\<rparr>)"
    unfolding docIdSortFamily_def None sort_family_def Let_def DOC_ID_CACHE_LIMIT_def by simp
  with ok show ?thesis by simp
qed

lemma compareDocIds_refines:
  assumes "caches_ok s"
  shows "fst (compareDocIds s a b) = compare_ref a b \<and> caches_ok (snd (compareDocIds s a b))"
proof -
  obtain s1 where 1: "docIdSortFamily s a = (sort_family a, s1)" "caches_ok s1"
    using docIdSortFamily_refines [OF assms, of a] by (cases "docIdSortFamily s a") auto
  obtain s2 where 2: "docIdSortFamily s1 b = (sort_family b, s2)" "caches_ok s2"
    using docIdSortFamily_refines [OF 1(2), of b] by (cases "docIdSortFamily s1 b") auto
  show ?thesis using 1 2 by (simp add: compareDocIds_def compare_ref_def)
qed

lemma js_str_lt_linear: "js_str_lt a b \<or> a = b \<or> js_str_lt b a"
  using list_lt_linear [of "map cc a" "map cc b"] by (auto simp: js_str_lt_def inj_map_eq_map inj_def)

lemma js_str_lt_facts:
  "\<not> js_str_lt a a" "js_str_lt a b \<Longrightarrow> \<not> js_str_lt b a"
  "js_str_lt a b \<Longrightarrow> js_str_lt b c \<Longrightarrow> js_str_lt a c"
  by (auto simp: js_str_lt_def dest: list_lt_asym list_lt_trans)

lemma compare_ref_lt:
  "compare_ref a b < 0 \<longleftrightarrow>
     sort_family a < sort_family b \<or> sort_family a = sort_family b \<and> js_str_lt a b"
  by (auto simp: compare_ref_def)

lemma compare_ref_eq: "compare_ref a b = 0 \<longleftrightarrow> a = b"
  using js_str_lt_linear [of a b] js_str_lt_facts(1) [of a] by (auto simp: compare_ref_def)

lemma compare_ref_flip: "compare_ref b a < 0 \<longleftrightarrow> 0 < compare_ref a b"
  using js_str_lt_facts(2) [of a b] by (auto simp: compare_ref_def)

lemma compare_ref_trans: "compare_ref a b < 0 \<Longrightarrow> compare_ref b c < 0 \<Longrightarrow> compare_ref a c < 0"
  unfolding compare_ref_lt by (auto dest: js_str_lt_facts(3))

section \<open>Runs of the module\<close>

datatype docid_op = OpUnpack "byte list" | OpCompare string string

datatype docid_result = RId "thrown + string" | RSign int

fun docid_step :: "docid_caches \<Rightarrow> docid_op \<Rightarrow> docid_result \<times> docid_caches" where
  "docid_step s (OpUnpack p) = (case unpackDocId s p of (r, s') \<Rightarrow> (RId r, s'))"
| "docid_step s (OpCompare a b) = (case compareDocIds s a b of (c, s') \<Rightarrow> (RSign c, s'))"

fun docid_run :: "docid_caches \<Rightarrow> docid_op list \<Rightarrow> docid_result list \<times> docid_caches" where
  "docid_run s [] = ([], s)"
| "docid_run s (x # xs) =
     (case docid_step s x of (r, s1) \<Rightarrow> case docid_run s1 xs of (rs, s2) \<Rightarrow> (r # rs, s2))"

fun docid_answer :: "docid_op \<Rightarrow> docid_result" where
  "docid_answer (OpUnpack p) = RId (unpack_ref p)"
| "docid_answer (OpCompare a b) = RSign (compare_ref a b)"

lemma docid_step_refines:
  "caches_ok s \<Longrightarrow> fst (docid_step s x) = docid_answer x \<and> caches_ok (snd (docid_step s x))"
  by (cases x) (simp_all add: case_prod_beta unpackDocId_refines compareDocIds_refines)

lemma docid_run_refines:
  "caches_ok s \<Longrightarrow> fst (docid_run s xs) = map docid_answer xs \<and> caches_ok (snd (docid_run s xs))"
proof (induction xs arbitrary: s)
  case (Cons x xs)
  obtain r s1 where 1: "docid_step s x = (r, s1)" by fastforce
  with docid_step_refines [OF Cons.prems, of x] have r: "r = docid_answer x" "caches_ok s1" by auto
  from Cons.IH [OF r(2)] show ?case using 1 r by (auto split: prod.splits)
qed simp

abbreviation after_run :: "docid_op list \<Rightarrow> docid_caches" where
  "after_run xs \<equiv> snd (docid_run empty_caches xs)"

lemma after_run_ok: "caches_ok (after_run xs)"
  by (simp add: docid_run_refines caches_ok_empty)

section \<open>Properties\<close>

text \<open>C3: The three decode caches and the sort-family cache never change an answer: however
  many ids a session decodes and compares, in whatever order, every result is the one of the
  uncached decoder and comparison, and the caches stay within their 4096 slots with every
  entry true.\<close>

theorem docid_caches_transparent:
  "fst (docid_run empty_caches xs) = map docid_answer xs \<and> caches_ok (after_run xs)"
  by (simp add: docid_run_refines caches_ok_empty)

text \<open>C2: Packing and unpacking are inverse in both directions, after any history of the
  caches: an id packs to given bytes exactly when those bytes unpack to it. So no two ids
  share a packed form and no two packed forms decode to the same id.\<close>

theorem docid_roundtrip:
  "packDocId did code = Inr p \<longleftrightarrow> fst (unpackDocId (after_run xs) p) = Inr did"
  using docids.pack_then_unpack [of did code p] docids.unpack_then_pack [of p did code] after_run_ok
  by auto

text \<open>\<open>packDocId\<close> accepts exactly the canonical UUIDv7s and the short ids, gives
  sixteen bytes whose top bit tells the two families apart, and refuses anything else with a
  non-retryable error of the code it was asked to use, in the category \<open>client\<close> for a path
  error and \<open>validation\<close> otherwise.\<close>

theorem packDocId_spec:
  "case packDocId did code of
     Inr p \<Rightarrow> valid_doc_id did \<and> length p = 16 \<and> (p ! 0 AND 0x80 \<noteq> 0 \<longleftrightarrow> isCanonicalUUIDv7 did)
   | Inl e \<Rightarrow> \<not> valid_doc_id did \<and> (\<exists>z. e = TZync z \<and> ze_code z = code \<and> \<not> ze_retryable z
       \<and> ze_category z = (if code = ''INVALID_PATH'' then ''client'' else ''validation''))"
proof (cases "valid_doc_id did")
  case True
  have "128 \<le> unat (pack_of did ! 0) \<longleftrightarrow> isCanonicalUUIDv7 did"
    using True
  proof (cases rule: valid_doc_id_cases)
    case short
    then have "mixv (replicate 24 39) (short_digits did) < 2 ^ 127"
      by (intro short_value_bound) (simp add: isValidShortDocId_iff)
    from first_byte_short [OF this] show ?thesis using short by simp
  next
    case (uuid bs)
    then show ?thesis using first_byte_uuid [OF uuid(3)] by simp
  qed
  then show ?thesis using True by (simp add: packDocId_valid pack_length byte_bit7)
next
  case False
  then show ?thesis by (simp add: valid_doc_id_def packDocId_def invalidDocIdError_def new_ZyncBaseError_def)
qed

text \<open>C4: \<open>compareDocIds\<close> is the order of the packed form: on valid ids its sign is
  that of the byte-wise comparison of what \<open>packDocId\<close> gives, and it is 0 only for equal ids.\<close>

theorem compareDocIds_packed_order:
  assumes "packDocId a code = Inr p" "packDocId b code' = Inr q"
  shows "(fst (compareDocIds (after_run xs) a b) < 0 \<longleftrightarrow> list_lt (map unat p) (map unat q))
    \<and> (fst (compareDocIds (after_run xs) a b) = 0 \<longleftrightarrow> p = q)"
proof -
  have v: "valid_doc_id a" "valid_doc_id b" "p = pack_of a" "q = pack_of b"
    using assms by (auto simp: packDocId_Inr_iff)
  have "fst (compareDocIds (after_run xs) a b) = compare_ref a b"
    using compareDocIds_refines [OF after_run_ok] by blast
  moreover have "pack_of a = pack_of b \<longleftrightarrow> a = b"
    using unpack_pack [OF v(1)] unpack_pack [OF v(2)] by (metis sum.inject(2))
  ultimately show ?thesis unfolding v(3,4)
    by (simp only: pack_order [OF v(1,2)] compare_ref_lt compare_ref_eq)
qed

lemma compareDocIds_packed_order_witness:
  "(fst (compareDocIds (after_run []) ''a'' ''b'') < 0
      \<longleftrightarrow> list_lt (map unat (pack_of ''a'')) (map unat (pack_of ''b'')))
    \<and> (fst (compareDocIds (after_run []) ''a'' ''b'') = 0 \<longleftrightarrow> pack_of ''a'' = pack_of ''b'')"
proof -
  have "valid_doc_id ''a''" "valid_doc_id ''b''" by code_simp+
  then show ?thesis by (intro compareDocIds_packed_order [of _ "[]" _ _ "[]"]) (simp_all add: packDocId_valid)
qed

text \<open>C5: \<open>compareDocIds\<close> is a strict total order on all strings, invalid ids included
  (they come after both families): comparing the other way round flips the sign, equality is
  identity, and it is transitive, whatever the caches hold at each of the three calls.\<close>

theorem compareDocIds_total_order:
  "(fst (compareDocIds (after_run x) a b) < 0 \<longleftrightarrow> 0 < fst (compareDocIds (after_run y) b a))
   \<and> (fst (compareDocIds (after_run x) a b) = 0 \<longleftrightarrow> a = b)
   \<and> (fst (compareDocIds (after_run x) a b) < 0 \<and> fst (compareDocIds (after_run y) b c) < 0
      \<longrightarrow> fst (compareDocIds (after_run z) a c) < 0)
   \<and> (valid_doc_id a \<and> \<not> valid_doc_id b \<longrightarrow> fst (compareDocIds (after_run x) a b) < 0)"
proof -
  have r: "fst (compareDocIds (after_run x) a b) = compare_ref a b" for x a b
    using compareDocIds_refines [OF after_run_ok] by blast
  have "valid_doc_id a \<and> \<not> valid_doc_id b \<longrightarrow> compare_ref a b < 0"
    by (auto simp: compare_ref_lt sort_family_def valid_doc_id_def)
  then show ?thesis unfolding r
    using compare_ref_flip [of a b] compare_ref_eq [of a b] compare_ref_trans [of a b c] by blast
qed

lemma compareDocIds_total_order_witness:
  "fst (compareDocIds (after_run []) ''a'' ''c'') < 0"
proof -
  have "fst (compareDocIds (after_run []) ''a'' ''b'') < 0 \<and> fst (compareDocIds (after_run []) ''b'' ''c'') < 0"
    by code_simp
  then show ?thesis using compareDocIds_total_order [of "[]" "''a''" "''b''" "[]" "''c''" "[]"] by blast
qed

end
