(* ===== verification/Schema.thy ===== *)
theory Schema
  imports Paths DocIdSpec
begin

text \<open>
  \<open>schema_dictionary.ts\<close>: the dictionary between schema names and wire indices, built from
  the server's SchemaSync, and the encoding of paths, values, records, presence data and
  action fields through it.

  A table or field index is an \<open>int\<close> (the code tests \<open>index < 0\<close>). A wire path is given by
  its length, the elements past the third are never read. A sparse field array and a wire
  record are lists of values. Decoding a packed id uses \<open>unpack_ref\<close>, which is what
  \<open>unpackDocId\<close> answers whatever its caches hold (\<open>DocIdSpec\<close>). The 64-bit string hash is a
  library outside the repository: \<open>H\<close> stands for it on the canonical form of the payload.
\<close>

section \<open>Printing numbers in messages\<close>

definition show_int :: "int \<Rightarrow> string" where
  "show_int i = (if i < 0 then ''-'' @ show_nat (nat (- i)) else show_nat (nat i))"

definition show_num :: "jnum \<Rightarrow> string" where
  \<comment> \<open>only integers print as in JavaScript; the digits of a fraction are left out\<close>
  "show_num a = (case a of NaN \<Rightarrow> ''NaN'' | NegInf \<Rightarrow> ''-Infinity'' | PosInf \<Rightarrow> ''Infinity''
     | Fin r \<Rightarrow> show_int (floor r))"

definition quoted :: "string \<Rightarrow> string" where
  "quoted s = ''\"'' @ s @ ''\"''"

section \<open>The dictionary\<close>

type_synonym sparse = "jv list"

type_synonym field_paths = "string list option list"

datatype action_scope = ScopeStore | ScopePresence

record action_entry =
  ae_id :: nat
  ae_name :: string
  ae_scope :: action_scope
  ae_hasReturns :: bool
  ae_params :: "string list"
  ae_returns :: "string list"
  ae_paramFieldToIndex :: "(string, nat) omap"
  ae_returnFieldToIndex :: "(string, nat) omap"
  ae_paramPaths :: field_paths
  ae_returnPaths :: field_paths

record schema_sync =
  ss_tables :: "string list"
  ss_fields :: "string list list"
  ss_fieldFlags :: "nat list list option"   \<comment> \<open>\<open>None\<close>: not an array\<close>
  ss_presenceUserFields :: "string list option"
  ss_presenceSharedFields :: "string list option"
  ss_actions :: "string list option"
  ss_actionParams :: "string list list option"
  ss_actionReturns :: "string list list option"
  ss_actionFlags :: "nat list option"

record dict =
  tables :: "string list"
  field_names :: "string list list"
  fieldFlags :: "nat list list"
  fieldPaths :: "field_paths list"
  presenceUserFields :: "string list"
  presenceSharedFields :: "string list"
  presenceUserFieldPaths :: field_paths
  presenceSharedFieldPaths :: field_paths
  tableToIndex :: "(string, nat) omap"
  fieldToIndex :: "(nat, (string, nat) omap) omap"
  presenceUserFieldToIndex :: "(string, nat) omap"
  presenceSharedFieldToIndex :: "(string, nat) omap"
  actionNames :: "string list"
  actionParams :: "string list list"
  actionReturns :: "string list list"
  actionFlags :: "nat list"
  actionToIndex :: "(string, nat) omap"
  actionsByIndex :: "action_entry list"
  schema_hash :: "nat option"
  previousHash :: "nat option"
  ready :: bool

definition new_dict :: dict where
  "new_dict = \<lparr>tables = [], field_names = [], fieldFlags = [], fieldPaths = [], presenceUserFields = [],
     presenceSharedFields = [], presenceUserFieldPaths = [], presenceSharedFieldPaths = [],
     tableToIndex = [], fieldToIndex = [], presenceUserFieldToIndex = [],
     presenceSharedFieldToIndex = [], actionNames = [], actionParams = [], actionReturns = [],
     actionFlags = [], actionToIndex = [], actionsByIndex = [], schema_hash = None,
     previousHash = None, ready = False\<rparr>"

definition opt_list :: "'a list option \<Rightarrow> 'a list" where
  "opt_list x = (case x of Some l \<Rightarrow> l | None \<Rightarrow> [])"

definition buildFieldIndexMap :: "'k list \<Rightarrow> ('k, nat) omap" where
  "buildFieldIndexMap names = foldl (\<lambda>m i. om_set m (names ! i) i) [] [0..<length names]"

definition buildFieldPaths :: "string list \<Rightarrow> field_paths" where
  \<comment> \<open>\<open>field.includes("__") ? splitFieldPath(field) : undefined\<close>\<close>
  "buildFieldPaths names = map (\<lambda>field. if has_uu field then Some (splitFieldPath field) else None) names"

definition buildActionEntry :: "string \<Rightarrow> nat \<Rightarrow> string list \<Rightarrow> string list \<Rightarrow> nat \<Rightarrow> action_entry" where
  "buildActionEntry name i params returns flags =
     \<lparr>ae_id = i, ae_name = name,
      ae_scope = (if flags AND 2 \<noteq> 0 then ScopePresence else ScopeStore),
      ae_hasReturns = (flags AND 1 \<noteq> 0),
      ae_params = params, ae_returns = returns,
      ae_paramFieldToIndex = buildFieldIndexMap params,
      ae_returnFieldToIndex = buildFieldIndexMap returns,
      ae_paramPaths = buildFieldPaths params, ae_returnPaths = buildFieldPaths returns\<rparr>"

section \<open>Processing SchemaSync\<close>

definition validateSchemaSyncPayload :: "schema_sync \<Rightarrow> thrown + nat list list" where
  \<comment> \<open>gives the validated \<open>fieldFlags\<close>\<close>
  "validateSchemaSyncPayload p =
     (case ss_fieldFlags p of
        None \<Rightarrow> Inl (TError ''SchemaDictionary: SchemaSync missing fieldFlags'')
      | Some flags \<Rightarrow>
          if length flags \<noteq> length (ss_fields p)
          then Inl (TError ''SchemaDictionary: SchemaSync fieldFlags table count mismatch'')
          else
            (case filter (\<lambda>ti. map_option length (nth_opt flags ti) \<noteq> map_option length (nth_opt (ss_fields p) ti))
                    [0..<length (ss_fields p)] of
               [] \<Rightarrow> Inr flags
             | ti # _ \<Rightarrow> Inl (TError
                 (''SchemaDictionary: SchemaSync fieldFlags length mismatch for table index '' @ show_nat ti))))"

definition validateActionArrays :: "schema_sync \<Rightarrow> thrown + unit" where
  "validateActionArrays p =
     (let names = opt_list (ss_actions p); params = opt_list (ss_actionParams p);
          returns = opt_list (ss_actionReturns p); flags = opt_list (ss_actionFlags p)
      in if length params \<noteq> length names \<or> length returns \<noteq> length names \<or> length flags \<noteq> length names
         then Inl (TError ''SchemaDictionary: SchemaSync action dictionary length mismatch'')
         else Inr ())"

definition buildStoreMaps :: "schema_sync \<Rightarrow> nat list list \<Rightarrow> dict \<Rightarrow> dict" where
  "buildStoreMaps p flags s =
     s\<lparr>tables := ss_tables p, field_names := ss_fields p, fieldFlags := flags,
       fieldPaths := map buildFieldPaths (ss_fields p),
       tableToIndex := buildFieldIndexMap (ss_tables p),
       fieldToIndex := foldl (\<lambda>m ti. om_set m ti (buildFieldIndexMap (ss_fields p ! ti))) []
         [0..<length (ss_fields p)]\<rparr>"

definition buildPresenceMaps :: "schema_sync \<Rightarrow> dict \<Rightarrow> dict" where
  "buildPresenceMaps p s =
     (let user = opt_list (ss_presenceUserFields p); shared = opt_list (ss_presenceSharedFields p)
      in s\<lparr>presenceUserFields := user, presenceSharedFields := shared,
           presenceUserFieldPaths := buildFieldPaths user,
           presenceSharedFieldPaths := buildFieldPaths shared,
           presenceUserFieldToIndex := buildFieldIndexMap user,
           presenceSharedFieldToIndex := buildFieldIndexMap shared\<rparr>)"

definition buildActionMaps :: "schema_sync \<Rightarrow> dict \<Rightarrow> dict" where
  "buildActionMaps p s =
     (let names = opt_list (ss_actions p); params = opt_list (ss_actionParams p);
          returns = opt_list (ss_actionReturns p); flags = opt_list (ss_actionFlags p)
      in s\<lparr>actionNames := names, actionParams := params, actionReturns := returns, actionFlags := flags,
           actionToIndex := buildFieldIndexMap names,
           actionsByIndex := map (\<lambda>i. buildActionEntry (names ! i) i
               (opt_list (nth_opt params i)) (opt_list (nth_opt returns i))
               (case nth_opt flags i of Some f \<Rightarrow> f | None \<Rightarrow> 0)) [0..<length names]\<rparr>)"

type_synonym schema_canon =
  "string list \<times> string list list \<times> nat list list \<times> string list \<times> string list
   \<times> string list \<times> string list list \<times> string list list \<times> nat list"

definition schema_canonical :: "schema_sync \<Rightarrow> nat list list \<Rightarrow> schema_canon" where
  \<comment> \<open>the object that \<open>computeHash\<close> serialises\<close>
  "schema_canonical p flags =
     (ss_tables p, ss_fields p, flags, opt_list (ss_presenceUserFields p),
      opt_list (ss_presenceSharedFields p), opt_list (ss_actions p), opt_list (ss_actionParams p),
      opt_list (ss_actionReturns p), opt_list (ss_actionFlags p))"

definition processSchemaSync :: "(schema_canon \<Rightarrow> nat) \<Rightarrow> schema_sync \<Rightarrow> dict \<Rightarrow> (thrown + bool) \<times> dict" where
  "processSchemaSync H p s =
     (let s = s\<lparr>previousHash := schema_hash s\<rparr> in
      case validateSchemaSyncPayload p of
        Inl e \<Rightarrow> (Inl e, s)
      | Inr flags \<Rightarrow>
          (case validateActionArrays p of
             Inl e \<Rightarrow> (Inl e, s)
           | Inr _ \<Rightarrow>
               let s = buildActionMaps p (buildPresenceMaps p (buildStoreMaps p flags s));
                   s = s\<lparr>schema_hash := Some (H (schema_canonical p flags)), ready := True\<rparr>
               in (Inr (previousHash s \<noteq> None \<and> previousHash s \<noteq> schema_hash s), s)))"

section \<open>Lookups\<close>

definition getTableIndex :: "dict \<Rightarrow> string \<Rightarrow> thrown + nat" where
  "getTableIndex s name =
     (case om_get (tableToIndex s) name of
        None \<Rightarrow> Inl (TSchema (''SchemaDictionary: unknown table '' @ quoted name) TABLE_NOT_FOUND)
      | Some i \<Rightarrow> Inr i)"

definition getFieldIndex :: "dict \<Rightarrow> nat \<Rightarrow> string \<Rightarrow> thrown + nat" where
  "getFieldIndex s ti name =
     (case om_get (fieldToIndex s) ti of
        None \<Rightarrow> Inl (TSchema (''SchemaDictionary: unknown table index '' @ show_nat ti) TABLE_NOT_FOUND)
      | Some m \<Rightarrow>
          (case om_get m name of
             None \<Rightarrow> Inl (TSchema (''SchemaDictionary: unknown field '' @ quoted name @
                       '' in table index '' @ show_nat ti) FIELD_NOT_FOUND)
           | Some i \<Rightarrow> Inr i))"

definition table_range_error :: "int \<Rightarrow> thrown" where
  "table_range_error i =
     TSchema (''SchemaDictionary: table index '' @ show_int i @ '' out of range'') TABLE_NOT_FOUND"

definition field_range_error :: "int \<Rightarrow> int \<Rightarrow> thrown" where
  "field_range_error ti fi =
     TSchema (''SchemaDictionary: field index '' @ show_int fi @ '' out of range for table index '' @
       show_int ti) FIELD_NOT_FOUND"

definition getTableName :: "dict \<Rightarrow> int \<Rightarrow> thrown + string" where
  "getTableName s i =
     (if i < 0 \<or> i \<ge> int (length (tables s)) then Inl (table_range_error i)
      else Inr (tables s ! nat i))"

definition getFieldName :: "dict \<Rightarrow> int \<Rightarrow> int \<Rightarrow> thrown + string" where
  "getFieldName s ti fi =
     (if ti < 0 \<or> ti \<ge> int (length (tables s)) then Inl (table_range_error ti)
      else case nth_opt (field_names s) (nat ti) of
          None \<Rightarrow> Inl type_error
        | Some tableFields \<Rightarrow>
            if fi < 0 \<or> fi \<ge> int (length tableFields) then Inl (field_range_error ti fi)
            else Inr (tableFields ! nat fi))"

definition getFieldFlags :: "dict \<Rightarrow> int \<Rightarrow> int \<Rightarrow> thrown + nat" where
  "getFieldFlags s ti fi =
     (if ti < 0 \<or> ti \<ge> int (length (tables s)) then Inl (table_range_error ti)
      else case nth_opt (fieldFlags s) (nat ti) of
          None \<Rightarrow> Inl (field_range_error ti fi)
        | Some flagsForTable \<Rightarrow>
            if fi < 0 \<or> fi \<ge> int (length flagsForTable) then Inl (field_range_error ti fi)
            else Inr (flagsForTable ! nat fi))"

definition getFields :: "dict \<Rightarrow> int \<Rightarrow> thrown + string list option" where
  \<comment> \<open>\<open>undefined\<close> when there are fewer field arrays than tables\<close>
  "getFields s ti =
     (if ti < 0 \<or> ti \<ge> int (length (tables s)) then Inl (table_range_error ti)
      else Inr (nth_opt (field_names s) (nat ti)))"

definition isDocIdField :: "dict \<Rightarrow> int \<Rightarrow> int \<Rightarrow> thrown + bool" where
  "isDocIdField s ti fi = and_then (getFieldFlags s ti fi) (\<lambda>f. Inr (f AND 2 \<noteq> 0))"

definition isBytesField :: "dict \<Rightarrow> int \<Rightarrow> int \<Rightarrow> thrown + bool" where
  "isBytesField s ti fi = and_then (getFieldFlags s ti fi) (\<lambda>f. Inr (f AND 8 \<noteq> 0))"

definition isRequiredField :: "dict \<Rightarrow> int \<Rightarrow> int \<Rightarrow> thrown + bool" where
  "isRequiredField s ti fi = and_then (getFieldFlags s ti fi) (\<lambda>f. Inr (f AND 4 \<noteq> 0))"

definition isSystemField :: "dict \<Rightarrow> int \<Rightarrow> int \<Rightarrow> thrown + bool" where
  "isSystemField s ti fi = and_then (getFieldFlags s ti fi) (\<lambda>f. Inr (f AND 1 \<noteq> 0))"

section \<open>Paths\<close>

datatype wire_id = WBin "byte list" | WText string | WNum int

datatype wire_path = WEmpty | WTable int | WDoc int wire_id | WField int wire_id int

definition encodePath :: "dict \<Rightarrow> string list \<Rightarrow> thrown + wire_path" where
  "encodePath s segments =
     (case segments of
        [] \<Rightarrow> Inl (TSchema ''SchemaDictionary: empty path'' INVALID_PATH)
      | t # rest \<Rightarrow> and_then (getTableIndex s t) (\<lambda>ti.
          case rest of
            [] \<Rightarrow> Inr (WTable (int ti))
          | d # field \<Rightarrow> and_then (packDocId d ''INVALID_PATH'') (\<lambda>p.
              if field = [] then Inr (WDoc (int ti) (WBin p))
              else and_then (getFieldIndex s ti (joinFieldPath field)) (\<lambda>fi.
                Inr (WField (int ti) (WBin p) (int fi))))))"

definition decodeWireId :: "wire_id \<Rightarrow> thrown + string" where
  \<comment> \<open>\<open>rawDocId instanceof Uint8Array ? unpackDocId(rawDocId) : String(rawDocId)\<close>\<close>
  "decodeWireId w = (case w of WBin p \<Rightarrow> unpack_ref p | WText t \<Rightarrow> Inr t | WNum i \<Rightarrow> Inr (show_int i))"

definition decodePath :: "dict \<Rightarrow> wire_path \<Rightarrow> thrown + string list" where
  "decodePath s w =
     (case w of
        WEmpty \<Rightarrow> Inl (TSchema ''SchemaDictionary: empty wire path'' INVALID_PATH)
      | WTable ti \<Rightarrow> and_then (getTableName s ti) (\<lambda>t. Inr [t])
      | WDoc ti d \<Rightarrow> and_then (getTableName s ti) (\<lambda>t. and_then (decodeWireId d) (\<lambda>did. Inr [t, did]))
      | WField ti d fi \<Rightarrow> and_then (getTableName s ti) (\<lambda>t. and_then (decodeWireId d) (\<lambda>did.
          and_then (getFieldName s ti fi) (\<lambda>flat. Inr (t # did # splitFieldPath flat)))))"

section \<open>Values and records\<close>

definition pack_item :: "jv \<Rightarrow> thrown + jv" where
  "pack_item v = (case v of JStr t \<Rightarrow> and_then (packDocId t ''INVALID_MESSAGE'') (\<lambda>p. Inr (JBytes p)) | _ \<Rightarrow> Inr v)"

definition unpack_item :: "jv \<Rightarrow> thrown + jv" where
  "unpack_item v = (case v of JBytes p \<Rightarrow> and_then (unpack_ref p) (\<lambda>t. Inr (JStr t)) | _ \<Rightarrow> Inr v)"

definition encodeFieldValue :: "dict \<Rightarrow> int \<Rightarrow> int \<Rightarrow> jv \<Rightarrow> thrown + jv" where
  "encodeFieldValue s ti fi value =
     and_then (isDocIdField s ti fi) (\<lambda>is_id.
       if \<not> is_id then Inr value
       else case value of
           JStr _ \<Rightarrow> pack_item value
         | JArr items \<Rightarrow> and_then (traverse pack_item items) (\<lambda>ws. Inr (JArr ws))
         | _ \<Rightarrow> Inr value)"

definition decodeFieldValueWithFlags :: "nat \<Rightarrow> jv \<Rightarrow> thrown + jv" where
  "decodeFieldValueWithFlags flags value =
     (if flags AND 2 = 0 then Inr value
      else case value of
          JBytes _ \<Rightarrow> unpack_item value
        | JArr items \<Rightarrow> and_then (traverse unpack_item items) (\<lambda>vs. Inr (JArr vs))
        | _ \<Rightarrow> Inr value)"

definition decodeFieldValue :: "dict \<Rightarrow> int \<Rightarrow> int \<Rightarrow> jv \<Rightarrow> thrown + jv" where
  "decodeFieldValue s ti fi value =
     and_then (getFieldFlags s ti fi) (\<lambda>flags. decodeFieldValueWithFlags flags value)"

fun encodeValue_loop :: "dict \<Rightarrow> nat \<Rightarrow> props \<Rightarrow> thrown + sparse" where
  "encodeValue_loop s ti [] = Inr []"
| "encodeValue_loop s ti ((key, val) # rest) =
     and_then (getFieldIndex s ti key) (\<lambda>fi.
     and_then (encodeFieldValue s (int ti) (int fi) val) (\<lambda>w.
     and_then (encodeValue_loop s ti rest) (\<lambda>ws. Inr (JNum (nat_num fi) # w # ws))))"

definition encodeValue :: "dict \<Rightarrow> nat \<Rightarrow> props \<Rightarrow> thrown + sparse" where
  "encodeValue s ti value = encodeValue_loop s ti value"

definition put_field :: "string list option \<Rightarrow> string \<Rightarrow> jv \<Rightarrow> props \<Rightarrow> props" where
  \<comment> \<open>\<open>if (fieldPath) setDeepProperty(result, fieldPath, value); else result[fieldName] = value\<close>\<close>
  "put_field path name value result =
     (case path of Some parts \<Rightarrow> setDeepProperty result parts value | None \<Rightarrow> js_assign result name value)"

fun decodeRecord_loop :: "string list \<Rightarrow> nat list \<Rightarrow> field_paths \<Rightarrow> jv list \<Rightarrow> props \<Rightarrow> thrown + props" where
  \<comment> \<open>the loop over \<open>fieldIndex\<close>; the four arrays have one length\<close>
  "decodeRecord_loop (name # names) (flag # flags) (path # paths) (w # ws) result =
     and_then (decodeFieldValueWithFlags flag w) (\<lambda>value.
       decodeRecord_loop names flags paths ws (put_field path name value result))"
| "decodeRecord_loop _ _ _ _ result = Inr result"

definition decodeRecord :: "dict \<Rightarrow> int \<Rightarrow> jv list \<Rightarrow> thrown + props" where
  "decodeRecord s ti wireRecord =
     and_then (getFields s ti) (\<lambda>fo.
       case fo of
         None \<Rightarrow> Inl type_error
       | Some names \<Rightarrow>
           if length wireRecord \<noteq> length names
           then Inl (TError (''SchemaDictionary: record field count '' @ show_nat (length wireRecord) @
                  '' does not match schema field count '' @ show_nat (length names) @
                  '' for table index '' @ show_int ti))
           else decodeRecord_loop names (fieldFlags s ! nat ti) (fieldPaths s ! nat ti) wireRecord [])"

section \<open>Sparse field arrays of presence data and actions\<close>

definition assertSparseLength :: "sparse \<Rightarrow> string \<Rightarrow> thrown + unit" where
  "assertSparseLength wireData label =
     (if length wireData mod 2 \<noteq> 0
      then Inl (TSchema (''SchemaDictionary: odd-length sparse field array for '' @ label @ '' ('' @
             show_nat (length wireData) @ '')'') INVALID_MESSAGE_FORMAT)
      else Inr ())"

fun encode_sparse :: "(string \<Rightarrow> thrown) \<Rightarrow> (string, nat) omap \<Rightarrow> props \<Rightarrow> thrown + sparse" where
  \<comment> \<open>the loop that the three \<open>encode*\<close> methods share, with its error\<close>
  "encode_sparse err indexMap [] = Inr []"
| "encode_sparse err indexMap ((key, value) # rest) =
     (case om_get indexMap key of
        None \<Rightarrow> Inl (err key)
      | Some i \<Rightarrow> and_then (encode_sparse err indexMap rest) (\<lambda>ws. Inr (JNum (nat_num i) # value # ws)))"

definition num_index :: "jv \<Rightarrow> 'a list \<Rightarrow> 'a option" where
  \<comment> \<open>\<open>xs[index as number]\<close>\<close>
  "num_index w xs =
     (case w of JNum (Fin r) \<Rightarrow> if 0 \<le> r \<and> of_int (floor r) = r then nth_opt xs (nat (floor r)) else None
      | _ \<Rightarrow> None)"

definition show_index :: "jv \<Rightarrow> string" where
  "show_index w = (case w of JNum a \<Rightarrow> show_num a | _ \<Rightarrow> [])"

fun decode_sparse :: "(string \<Rightarrow> thrown) \<Rightarrow> string list \<Rightarrow> field_paths \<Rightarrow> sparse \<Rightarrow> props \<Rightarrow> thrown + props" where
  \<comment> \<open>the loop over \<open>i += 2\<close> that the three \<open>decode*\<close> methods share\<close>
  "decode_sparse err names paths (w # value # rest) result =
     (case num_index w names of
        None \<Rightarrow> Inl (err (show_index w))
      | Some name \<Rightarrow>
          decode_sparse err names paths rest
            (put_field (case num_index w paths of Some path \<Rightarrow> path | None \<Rightarrow> None) name value result))"
| "decode_sparse err names paths _ result = Inr result"

definition presence_user_error :: "string \<Rightarrow> thrown" where
  "presence_user_error key =
     TSchema (''SchemaDictionary: unknown presence user field '' @ key) FIELD_NOT_FOUND"

definition presence_shared_error :: "string \<Rightarrow> thrown" where
  "presence_shared_error key =
     TSchema (''SchemaDictionary: unknown presence shared field '' @ key) FIELD_NOT_FOUND"

definition encodePresenceUserValue :: "dict \<Rightarrow> props \<Rightarrow> thrown + sparse" where
  "encodePresenceUserValue s data =
     encode_sparse (\<lambda>key. presence_user_error (quoted key)) (presenceUserFieldToIndex s) (flatten data)"

definition encodePresenceSharedValue :: "dict \<Rightarrow> props \<Rightarrow> thrown + sparse" where
  "encodePresenceSharedValue s data =
     encode_sparse (\<lambda>key. presence_shared_error (quoted key)) (presenceSharedFieldToIndex s) (flatten data)"

definition decodePresenceUserValue :: "dict \<Rightarrow> sparse \<Rightarrow> thrown + props" where
  "decodePresenceUserValue s wireData =
     and_then (assertSparseLength wireData ''presence user data'') (\<lambda>_.
       decode_sparse (\<lambda>i. presence_user_error (''index '' @ i)) (presenceUserFields s)
         (presenceUserFieldPaths s) wireData [])"

definition decodePresenceSharedValue :: "dict \<Rightarrow> sparse \<Rightarrow> thrown + props" where
  "decodePresenceSharedValue s wireData =
     and_then (assertSparseLength wireData ''presence shared data'') (\<lambda>_.
       decode_sparse (\<lambda>i. presence_shared_error (''index '' @ i)) (presenceSharedFields s)
         (presenceSharedFieldPaths s) wireData [])"

definition decodePresenceUserId :: "byte list \<Rightarrow> thrown + string" where
  "decodePresenceUserId bin =
     (if length bin \<noteq> 16
      then Inl (TError (''SchemaDictionary: invalid userId binary length '' @ show_nat (length bin)))
      else unpack_ref bin)"

definition hasPresenceUserFields :: "dict \<Rightarrow> bool" where
  "hasPresenceUserFields s \<longleftrightarrow> length (presenceUserFields s) > 0"

definition hasPresenceSharedFields :: "dict \<Rightarrow> bool" where
  "hasPresenceSharedFields s \<longleftrightarrow> length (presenceSharedFields s) > 0"

definition getAction :: "dict \<Rightarrow> string \<Rightarrow> thrown + action_entry" where
  "getAction s name =
     (case om_get (actionToIndex s) name of
        None \<Rightarrow> Inl (TSchema (''SchemaDictionary: unknown action '' @ quoted name) ACTION_NOT_FOUND)
      | Some i \<Rightarrow> Inr (actionsByIndex s ! i))"

definition getActionName :: "dict \<Rightarrow> jv \<Rightarrow> thrown + string" where
  "getActionName s w =
     (case num_index w (actionsByIndex s) of
        None \<Rightarrow> Inl (TSchema (''SchemaDictionary: unknown action index '' @ show_index w) ACTION_NOT_FOUND)
      | Some action \<Rightarrow> Inr (ae_name action))"

definition encodeActionFields :: "props \<Rightarrow> (string, nat) omap \<Rightarrow> string \<Rightarrow> thrown + sparse" where
  "encodeActionFields data indexMap label =
     encode_sparse (\<lambda>key. TSchema (''SchemaDictionary: unknown field '' @ quoted key @ '' in '' @ label)
       FIELD_NOT_FOUND) indexMap (flatten data)"

definition decodeActionFields :: "sparse \<Rightarrow> string list \<Rightarrow> field_paths \<Rightarrow> string \<Rightarrow> thrown + props" where
  "decodeActionFields wireData names paths label =
     and_then (assertSparseLength wireData label) (\<lambda>_.
       decode_sparse (\<lambda>i. TSchema (''SchemaDictionary: unknown field index '' @ i @ '' in '' @ label)
         FIELD_NOT_FOUND) names paths wireData [])"

definition encodeActionParams :: "action_entry \<Rightarrow> props \<Rightarrow> thrown + sparse" where
  "encodeActionParams action data =
     encodeActionFields data (ae_paramFieldToIndex action) (''action '' @ quoted (ae_name action) @ '' params'')"

definition encodeActionReturns :: "action_entry \<Rightarrow> props \<Rightarrow> thrown + sparse" where
  "encodeActionReturns action data =
     encodeActionFields data (ae_returnFieldToIndex action) (''action '' @ quoted (ae_name action) @ '' returns'')"

definition decodeActionParams :: "action_entry \<Rightarrow> sparse \<Rightarrow> thrown + props" where
  "decodeActionParams action wireData =
     decodeActionFields wireData (ae_params action) (ae_paramPaths action)
       (''action '' @ quoted (ae_name action) @ '' params'')"

definition decodeActionReturns :: "action_entry \<Rightarrow> sparse \<Rightarrow> thrown + props" where
  "decodeActionReturns action wireData =
     decodeActionFields wireData (ae_returns action) (ae_returnPaths action)
       (''action '' @ quoted (ae_name action) @ '' returns'')"

end
