(* ===== verification/SchemaSpec.thy ===== *)
theory SchemaSpec
  imports Schema
begin

text \<open>
  The dictionary's invariant (every map is the index of its list) and the round trips of
  paths, records, sparse field arrays and document-id fields through it.
\<close>

section \<open>Index maps\<close>

lemma index_map_upto:
  "om_get (foldl (\<lambda>m i. om_set m (xs ! i) i) [] [0..<n]) k = Some i \<Longrightarrow> i < n \<and> xs ! i = k"
  by (induction n) (auto split: if_splits)

lemma index_map_upto_None:
  "om_get (foldl (\<lambda>m i. om_set m (xs ! i) i) [] [0..<n]) k = None \<longleftrightarrow> (\<forall>i < n. xs ! i \<noteq> k)"
  by (induction n) (auto simp: less_Suc_eq)

lemma index_map_Some: "om_get (buildFieldIndexMap xs) k = Some i \<Longrightarrow> i < length xs \<and> xs ! i = k"
  unfolding buildFieldIndexMap_def by (rule index_map_upto)

lemma index_map_None: "om_get (buildFieldIndexMap xs) k = None \<longleftrightarrow> k \<notin> set xs"
  unfolding buildFieldIndexMap_def index_map_upto_None by (auto simp: in_set_conv_nth)

lemma index_map_distinct:
  assumes "distinct xs"
  shows "om_get (buildFieldIndexMap xs) k = Some i \<longleftrightarrow> i < length xs \<and> xs ! i = k"
proof
  assume i: "i < length xs \<and> xs ! i = k"
  then have "om_get (buildFieldIndexMap xs) k \<noteq> None" unfolding index_map_None by auto
  then obtain j where j: "om_get (buildFieldIndexMap xs) k = Some j" by auto
  with index_map_Some [OF j] i assms have "j = i" by (auto simp: nth_eq_iff_index_eq)
  with j show "om_get (buildFieldIndexMap xs) k = Some i" by simp
qed (rule index_map_Some)

lemma field_map_upto:
  "om_get (foldl (\<lambda>m ti. om_set m ti (f ti)) [] [0..<n]) ti = (if ti < n then Some (f ti) else None)"
  by (induction n) auto

section \<open>The invariant\<close>

definition dict_ok :: "dict \<Rightarrow> bool" where
  "dict_ok s \<longleftrightarrow>
     tableToIndex s = buildFieldIndexMap (tables s)
     \<and> fieldPaths s = map buildFieldPaths (field_names s)
     \<and> (\<forall>ti. om_get (fieldToIndex s) ti = map_option buildFieldIndexMap (nth_opt (field_names s) ti))
     \<and> map length (fieldFlags s) = map length (field_names s)
     \<and> presenceUserFieldPaths s = buildFieldPaths (presenceUserFields s)
     \<and> presenceSharedFieldPaths s = buildFieldPaths (presenceSharedFields s)
     \<and> presenceUserFieldToIndex s = buildFieldIndexMap (presenceUserFields s)
     \<and> presenceSharedFieldToIndex s = buildFieldIndexMap (presenceSharedFields s)
     \<and> length (actionParams s) = length (actionNames s)
     \<and> length (actionReturns s) = length (actionNames s)
     \<and> length (actionFlags s) = length (actionNames s)
     \<and> actionToIndex s = buildFieldIndexMap (actionNames s)
     \<and> actionsByIndex s = map (\<lambda>i. buildActionEntry (actionNames s ! i) i (actionParams s ! i)
         (actionReturns s ! i) (actionFlags s ! i)) [0..<length (actionNames s)]"

lemma dict_okD:
  assumes "dict_ok s"
  shows "tableToIndex s = buildFieldIndexMap (tables s)"
    and "fieldPaths s = map buildFieldPaths (field_names s)"
    and "om_get (fieldToIndex s) ti = map_option buildFieldIndexMap (nth_opt (field_names s) ti)"
    and "map length (fieldFlags s) = map length (field_names s)"
    and "presenceUserFieldPaths s = buildFieldPaths (presenceUserFields s)"
    and "presenceSharedFieldPaths s = buildFieldPaths (presenceSharedFields s)"
    and "presenceUserFieldToIndex s = buildFieldIndexMap (presenceUserFields s)"
    and "presenceSharedFieldToIndex s = buildFieldIndexMap (presenceSharedFields s)"
    and "actionToIndex s = buildFieldIndexMap (actionNames s)"
    and "actionsByIndex s = map (\<lambda>i. buildActionEntry (actionNames s ! i) i (actionParams s ! i)
         (actionReturns s ! i) (actionFlags s ! i)) [0..<length (actionNames s)]"
  using assms unfolding dict_ok_def by blast+

lemma validate_flags:
  "validateSchemaSyncPayload p = Inr flags \<Longrightarrow>
   ss_fieldFlags p = Some flags \<and> map length flags = map length (ss_fields p)"
  by (auto simp: validateSchemaSyncPayload_def filter_empty_conv nth_opt_def
      split: option.splits if_splits list.splits intro!: nth_equalityI)

lemma validate_flags_iff:
  "(\<exists>flags. validateSchemaSyncPayload p = Inr flags) \<longleftrightarrow>
   (\<exists>flags. ss_fieldFlags p = Some flags \<and> map length flags = map length (ss_fields p))"
proof
  assume "\<exists>flags. ss_fieldFlags p = Some flags \<and> map length flags = map length (ss_fields p)"
  then obtain flags where f: "ss_fieldFlags p = Some flags" "map length flags = map length (ss_fields p)" by blast
  from f(2) have l: "length flags = length (ss_fields p)" by (rule map_eq_imp_length_eq)
  have "length (flags ! ti) = length (ss_fields p ! ti)" if "ti < length (ss_fields p)" for ti
    using f(2) that l by (metis nth_map)
  then have "filter (\<lambda>ti. map_option length (nth_opt flags ti) \<noteq> map_option length (nth_opt (ss_fields p) ti))
      [0..<length (ss_fields p)] = []"
    using l by (auto simp: filter_empty_conv nth_opt_def)
  with f l show "\<exists>flags. validateSchemaSyncPayload p = Inr flags"
    by (simp add: validateSchemaSyncPayload_def)
qed (use validate_flags in blast)

definition payload_ok :: "schema_sync \<Rightarrow> bool" where
  "payload_ok p \<longleftrightarrow>
     (\<exists>flags. ss_fieldFlags p = Some flags \<and> map length flags = map length (ss_fields p))
     \<and> length (opt_list (ss_actionParams p)) = length (opt_list (ss_actions p))
     \<and> length (opt_list (ss_actionReturns p)) = length (opt_list (ss_actions p))
     \<and> length (opt_list (ss_actionFlags p)) = length (opt_list (ss_actions p))"

lemma validate_actions: "validateActionArrays p = Inr u \<longleftrightarrow>
   length (opt_list (ss_actionParams p)) = length (opt_list (ss_actions p))
   \<and> length (opt_list (ss_actionReturns p)) = length (opt_list (ss_actions p))
   \<and> length (opt_list (ss_actionFlags p)) = length (opt_list (ss_actions p))"
  by (auto simp: validateActionArrays_def Let_def)

lemma dict_ok_previousHash [simp]: "dict_ok (s\<lparr>previousHash := h\<rparr>) = dict_ok s"
  by (simp add: dict_ok_def)

lemma dict_ok_built:
  assumes "map length flags = map length (ss_fields p)" "validateActionArrays p = Inr u"
  shows "dict_ok (buildActionMaps p (buildPresenceMaps p (buildStoreMaps p flags s))
    \<lparr>schema_hash := h, ready := r\<rparr>)"
proof -
  have "length (opt_list (ss_actionParams p)) = length (opt_list (ss_actions p))"
    "length (opt_list (ss_actionReturns p)) = length (opt_list (ss_actions p))"
    "length (opt_list (ss_actionFlags p)) = length (opt_list (ss_actions p))"
    using assms(2) validate_actions by blast+
  then show ?thesis using assms(1)
    by (simp add: dict_ok_def buildStoreMaps_def buildPresenceMaps_def buildActionMaps_def Let_def
        field_map_upto nth_opt_def opt_list_def)
qed

lemma process_ok: "dict_ok s \<Longrightarrow> dict_ok (snd (processSchemaSync H p s))"
proof -
  assume s: "dict_ok s"
  show ?thesis
  proof (cases "validateSchemaSyncPayload p")
    case (Inl e)
    then show ?thesis using s by (simp add: processSchemaSync_def Let_def)
  next
    case (Inr flags)
    note f = this
    show ?thesis
    proof (cases "validateActionArrays p")
      case (Inl e)
      then show ?thesis using f s by (simp add: processSchemaSync_def Let_def)
    next
      case (Inr u)
      have "map length flags = map length (ss_fields p)" using validate_flags [OF f] by blast
      from dict_ok_built [OF this Inr] show ?thesis using f Inr by (simp add: processSchemaSync_def Let_def)
    qed
  qed
qed

lemma dict_ok_new: "dict_ok new_dict"
  by (simp add: dict_ok_def new_dict_def nth_opt_def buildFieldIndexMap_def buildFieldPaths_def)

definition sync_run :: "(schema_canon \<Rightarrow> nat) \<Rightarrow> schema_sync list \<Rightarrow> dict" where
  \<comment> \<open>the dictionary after a history of SchemaSync messages, refused ones included\<close>
  "sync_run H ps = foldl (\<lambda>s p. snd (processSchemaSync H p s)) new_dict ps"

lemma sync_run_ok: "dict_ok (sync_run H ps)"
  unfolding sync_run_def
  by (rule foldl_invariant [where P = dict_ok, OF dict_ok_new]) (rule process_ok)

section \<open>Lookups\<close>

lemma getTableIndex_nth: "dict_ok s \<Longrightarrow> getTableIndex s t = Inr i \<Longrightarrow> i < length (tables s) \<and> tables s ! i = t"
  by (auto simp: getTableIndex_def dict_ok_def dest: index_map_Some split: option.splits)

lemma getTableName_of: "dict_ok s \<Longrightarrow> getTableIndex s t = Inr i \<Longrightarrow> getTableName s (int i) = Inr t"
  using getTableIndex_nth by (fastforce simp: getTableName_def)

lemma getFieldIndex_nth:
  "dict_ok s \<Longrightarrow> getFieldIndex s ti f = Inr i \<Longrightarrow>
   ti < length (field_names s) \<and> i < length (field_names s ! ti) \<and> field_names s ! ti ! i = f"
  by (auto simp: getFieldIndex_def dict_ok_def nth_opt_def dest: index_map_Some split: option.splits if_splits)

lemma getFieldName_of:
  "dict_ok s \<Longrightarrow> ti < length (tables s) \<Longrightarrow> getFieldIndex s ti f = Inr i \<Longrightarrow>
   getFieldName s (int ti) (int i) = Inr f"
  by (auto simp: getFieldName_def nth_opt_def dest: getFieldIndex_nth)

lemma getTableIndex_distinct:
  assumes "dict_ok s" "distinct (tables s)"
  shows "getTableName s i = Inr t \<longleftrightarrow> 0 \<le> i \<and> getTableIndex s t = Inr (nat i)"
proof -
  have "getTableIndex s t = Inr n \<longleftrightarrow> om_get (buildFieldIndexMap (tables s)) t = Some n" for n
    by (simp add: getTableIndex_def dict_okD(1) [OF assms(1)] split: option.splits)
  then have "getTableIndex s t = Inr n \<longleftrightarrow> n < length (tables s) \<and> tables s ! n = t" for n
    by (simp add: index_map_distinct [OF assms(2)])
  from this [of "nat i"] show ?thesis
    by (cases "0 \<le> i \<and> nat i < length (tables s)") (auto simp: getTableName_def nat_less_iff)
qed

section \<open>Paths\<close>

lemma decode_encodePath:
  assumes s: "dict_ok s" and e: "encodePath s segs = Inr w"
    and f: "drop 2 segs = [] \<or> wf_segments (drop 2 segs)"
  shows "decodePath s w = Inr segs"
proof -
  obtain t rest ti where 1: "segs = t # rest" "getTableIndex s t = Inr ti"
    using e by (cases segs) (auto simp: encodePath_def)
  note tn = getTableName_of [OF s 1(2)] and tl = getTableIndex_nth [OF s 1(2)]
  show ?thesis
  proof (cases rest)
    case Nil
    then show ?thesis using e 1 tn by (auto simp: encodePath_def decodePath_def)
  next
    case (Cons d field)
    then obtain p where p: "packDocId d ''INVALID_PATH'' = Inr p"
      using e 1 by (auto simp: encodePath_def)
    have d: "decodeWireId (WBin p) = Inr d" using docids.pack_then_unpack [OF p] by (simp add: decodeWireId_def)
    show ?thesis
    proof (cases field)
      case Nil
      then show ?thesis using e 1 p Cons tn d by (auto simp: encodePath_def decodePath_def)
    next
      case (Cons x xs)
      then obtain fi where fi: "getFieldIndex s ti (joinFieldPath field) = Inr fi"
        using e 1 p \<open>rest = d # field\<close> by (auto simp: encodePath_def)
      have w: "w = WField (int ti) (WBin p) (int fi)"
        using e 1 p \<open>rest = d # field\<close> Cons fi by (auto simp: encodePath_def)
      have "splitFieldPath (joinFieldPath field) = field"
        using f 1 \<open>rest = d # field\<close> Cons by (intro split_join) simp
      then show ?thesis using w tn d 1 \<open>rest = d # field\<close> getFieldName_of [OF s _ fi] tl
        by (simp add: decodePath_def)
    qed
  qed
qed

lemma join_split_nonempty: "joinFieldPath (splitFieldPath f) = f" "splitFieldPath f \<noteq> []"
  by (simp_all add: join_split)

definition names_distinct :: "dict \<Rightarrow> bool" where
  "names_distinct s \<longleftrightarrow> distinct (tables s) \<and> (\<forall>fs \<in> set (field_names s). distinct fs)"

lemma encode_decodePath:
  assumes s: "dict_ok s" "names_distinct s" and d: "decodePath s w = Inr segs"
    and bin: "\<forall>i t. w \<noteq> WDoc i (WText t)" "\<forall>i n. w \<noteq> WDoc i (WNum n)"
      "\<forall>i t j. w \<noteq> WField i (WText t) j" "\<forall>i n j. w \<noteq> WField i (WNum n) j"
  shows "encodePath s segs = Inr w"
proof -
  have idx: "getTableIndex s t = Inr (nat i) \<and> 0 \<le> i" if "getTableName s i = Inr t" for i t
    using that s getTableIndex_distinct [OF s(1)] by (auto simp: names_distinct_def)
  have pk: "packDocId t code = Inr p" if "decodeWireId (WBin p) = Inr t" for p t code
    using that by (simp add: decodeWireId_def docids.unpack_then_pack)
  have fx: "getFieldIndex s (nat i) f = Inr (nat j) \<and> 0 \<le> j" if "getFieldName s i j = Inr f" for i j f
  proof -
    have *: "0 \<le> i" "0 \<le> j" "nat i < length (field_names s)" "nat j < length (field_names s ! nat i)"
      "field_names s ! nat i ! nat j = f"
      using that by (auto simp: getFieldName_def nth_opt_def nat_less_iff split: if_splits)
    then have "distinct (field_names s ! nat i)" using s(2) by (auto simp: names_distinct_def)
    then have "om_get (buildFieldIndexMap (field_names s ! nat i)) f = Some (nat j)"
      using * by (simp add: index_map_distinct)
    then show ?thesis using * by (simp add: getFieldIndex_def dict_okD(3) [OF s(1)] nth_opt_def)
  qed
  show ?thesis
  proof (cases w)
    case (WField i r j)
    then obtain p where r: "r = WBin p" using bin by (cases r) auto
    obtain t did f where *: "getTableName s i = Inr t" "decodeWireId (WBin p) = Inr did"
      "getFieldName s i j = Inr f" "segs = t # did # splitFieldPath f"
      using d WField r by (auto simp: decodePath_def)
    then show ?thesis using idx [OF *(1)] fx [OF *(3)] pk [OF *(2)] WField r
      by (simp add: encodePath_def join_split)
  next
    case (WDoc i r)
    then obtain p where r: "r = WBin p" using bin by (cases r) auto
    obtain t did where *: "getTableName s i = Inr t" "decodeWireId (WBin p) = Inr did" "segs = [t, did]"
      using d WDoc r by (auto simp: decodePath_def)
    then show ?thesis using idx [OF *(1)] pk [OF *(2)] WDoc r by (simp add: encodePath_def)
  qed (use d idx in \<open>auto simp: decodePath_def encodePath_def\<close>)
qed

section \<open>Records and sparse arrays\<close>

lemma put_field_deep:
  "put_field (if has_uu name then Some (splitFieldPath name) else None) name v r
    = setDeepProperty r (splitFieldPath name) v"
  by (simp add: put_field_def splitFieldPath_plain)

lemma put_field_simps [simp]:
  "put_field (Some ps) name v r = setDeepProperty r ps v"
  "\<not> has_uu name \<Longrightarrow> put_field None name v r = setDeepProperty r (splitFieldPath name) v"
  by (simp_all add: put_field_def splitFieldPath_plain)

lemma num_index_nat [simp]: "num_index (JNum (nat_num i)) xs = nth_opt xs i"
  by (simp add: num_index_def)

lemma nth_opt_paths: "i < length names \<Longrightarrow>
  nth_opt (buildFieldPaths names) i = Some (if has_uu (names ! i) then Some (splitFieldPath (names ! i)) else None)"
  by (simp add: buildFieldPaths_def nth_opt_def)

lemma encode_sparse_even: "encode_sparse err m kvs = Inr w \<Longrightarrow> length w = 2 * length kvs"
  by (induction kvs arbitrary: w) (auto split: option.splits)

lemma decode_encode_sparse:
  "encode_sparse err (buildFieldIndexMap names) kvs = Inr w \<Longrightarrow>
   decode_sparse err' names (buildFieldPaths names) w r
     = Inr (foldl (\<lambda>r (k, v). setDeepProperty r (splitFieldPath k) v) r kvs)"
proof (induction kvs arbitrary: w r)
  case (Cons kv kvs)
  obtain k v where kv: "kv = (k, v)" by (cases kv)
  then obtain i ws where i: "om_get (buildFieldIndexMap names) k = Some i"
    and ws: "encode_sparse err (buildFieldIndexMap names) kvs = Inr ws"
    and w: "w = JNum (nat_num i) # v # ws"
    using Cons.prems by (auto split: option.splits)
  have n: "i < length names" "names ! i = k" using index_map_Some [OF i] by auto
  then have "nth_opt names i = Some k" by (simp add: nth_opt_def)
  then show ?case
    using Cons.IH [OF ws] n by (simp add: w kv nth_opt_paths put_field_deep)
qed simp

lemma encode_sparse_total:
  "fst ` set kvs \<subseteq> set names \<Longrightarrow> \<exists>w. encode_sparse err (buildFieldIndexMap names) kvs = Inr w"
proof (induction kvs)
  case (Cons kv kvs)
  obtain k v where kv: "kv = (k, v)" by (cases kv)
  with Cons have "om_get (buildFieldIndexMap names) k \<noteq> None" by (simp add: index_map_None)
  with Cons kv show ?case by auto
qed simp

lemma assertSparseLength_ok: "assertSparseLength w label = Inr u \<longleftrightarrow> even (length w)"
  by (auto simp: assertSparseLength_def even_iff_mod_2_eq_zero)

lemma sparse_roundtrip:
  assumes "wf_nested data" "encode_sparse err (buildFieldIndexMap names) (flatten data) = Inr w"
  shows "and_then (assertSparseLength w label) (\<lambda>_. decode_sparse err' names (buildFieldPaths names) w []) = Inr data"
proof -
  have "even (length w)" using encode_sparse_even [OF assms(2)] by simp
  then have "assertSparseLength w label = Inr ()" by (simp add: assertSparseLength_ok)
  moreover have "decode_sparse err' names (buildFieldPaths names) w [] = Inr (unflatten (flatten data))"
    using decode_encode_sparse [OF assms(2)] by (simp add: unflatten_def)
  ultimately show ?thesis using unflatten_flatten_nested [OF assms(1)] by simp
qed

lemma decodeRecord_loop_eq:
  "length flags = length names \<Longrightarrow> length ws = length names \<Longrightarrow>
   decodeRecord_loop names flags (buildFieldPaths names) ws r =
     and_then (traverse (\<lambda>(f, w). decodeFieldValueWithFlags f w) (zip flags ws)) (\<lambda>vs.
       Inr (foldl (\<lambda>r (k, v). setDeepProperty r (splitFieldPath k) v) r (zip names vs)))"
proof (induction names arbitrary: flags ws r)
  case Nil
  then show ?case by (simp add: buildFieldPaths_def)
next
  case (Cons n names)
  then obtain f fs w wss where *: "flags = f # fs" "ws = w # wss" "length fs = length names" "length wss = length names"
    by (cases flags; cases ws) auto
  have p: "buildFieldPaths (n # names) = (if has_uu n then Some (splitFieldPath n) else None) # buildFieldPaths names"
    by (simp add: buildFieldPaths_def)
  show ?case
  proof (cases "decodeFieldValueWithFlags f w")
    case (Inr v)
    then show ?thesis using Cons.IH [OF *(3,4)]
      by (cases "traverse (\<lambda>(f, w). decodeFieldValueWithFlags f w) (zip fs wss)")
        (simp_all add: * p put_field_deep)
  qed (simp add: * p)
qed

lemma decodeRecord_eq:
  assumes s: "dict_ok s" and ti: "ti < length (tables s)" "ti < length (field_names s)"
  shows "decodeRecord s (int ti) ws =
    (if length ws \<noteq> length (field_names s ! ti)
     then Inl (TError (''SchemaDictionary: record field count '' @ show_nat (length ws) @
            '' does not match schema field count '' @ show_nat (length (field_names s ! ti)) @
            '' for table index '' @ show_int (int ti)))
     else and_then (traverse (\<lambda>(f, w). decodeFieldValueWithFlags f w) (zip (fieldFlags s ! ti) ws)) (\<lambda>vs.
       Inr (unflatten (zip (field_names s ! ti) vs))))"
proof -
  note flags = dict_okD(4) [OF s]
  have "length (fieldFlags s) = length (field_names s)" using flags by (rule map_eq_imp_length_eq)
  then have "length (fieldFlags s ! ti) = length (field_names s ! ti)"
    using flags ti by (metis nth_map)
  moreover have "fieldPaths s ! ti = buildFieldPaths (field_names s ! ti)" using ti by (simp add: dict_okD(2) [OF s])
  ultimately show ?thesis using ti
    by (simp add: decodeRecord_def getFields_def nth_opt_def decodeRecord_loop_eq unflatten_def)
qed

lemma getAction_entry:
  assumes s: "dict_ok s" and act: "getAction s name = Inr action"
  shows "ae_paramFieldToIndex action = buildFieldIndexMap (ae_params action)
      \<and> ae_returnFieldToIndex action = buildFieldIndexMap (ae_returns action)
      \<and> ae_paramPaths action = buildFieldPaths (ae_params action)
      \<and> ae_returnPaths action = buildFieldPaths (ae_returns action)"
proof -
  note d = dict_okD(9,10) [OF s]
  obtain i where i: "om_get (actionToIndex s) name = Some i" "actionsByIndex s ! i = action"
    using act unfolding getAction_def by (auto split: option.splits)
  have "i < length (actionNames s)" using index_map_Some [OF i(1) [unfolded d(1)]] by (rule conjunct1)
  then have "actionsByIndex s ! i = buildActionEntry (actionNames s ! i) i (actionParams s ! i)
      (actionReturns s ! i) (actionFlags s ! i)" unfolding d(2) by simp
  then show ?thesis unfolding i(2) [symmetric] by (simp add: buildActionEntry_def)
qed

section \<open>Document ids in fields\<close>

definition no_bytes :: "jv \<Rightarrow> bool" where
  \<comment> \<open>neither a byte array nor an array that holds one\<close>
  "no_bytes v = (case v of JBytes _ \<Rightarrow> False | JArr xs \<Rightarrow> (\<forall>x \<in> set xs. \<forall>b. x \<noteq> JBytes b) | _ \<Rightarrow> True)"

lemma unpack_pack_item: "pack_item v = Inr w \<Longrightarrow> (\<And>b. v \<noteq> JBytes b) \<Longrightarrow> unpack_item w = Inr v"
  by (cases v) (auto simp: pack_item_def unpack_item_def dest: docids.pack_then_unpack)

lemma unpack_pack_items:
  "traverse pack_item xs = Inr ws \<Longrightarrow> \<forall>x \<in> set xs. \<forall>b. x \<noteq> JBytes b \<Longrightarrow> traverse unpack_item ws = Inr xs"
  unfolding traverse_eq_Inr list_all2_conv_all_nth by (auto intro: unpack_pack_item)

lemma decode_encodeFieldValue:
  assumes "encodeFieldValue s ti fi v = Inr w" "no_bytes v"
  shows "decodeFieldValue s ti fi w = Inr v"
proof -
  obtain flags where f: "getFieldFlags s ti fi = Inr flags"
    using assms(1) by (auto simp: encodeFieldValue_def isDocIdField_def)
  show ?thesis
  proof (cases "flags AND 2 = 0")
    case True
    then show ?thesis using assms f
      by (simp add: encodeFieldValue_def isDocIdField_def decodeFieldValue_def decodeFieldValueWithFlags_def)
  next
    case False
    show ?thesis
    proof (cases v)
      case (JStr t)
      then obtain p where "packDocId t ''INVALID_MESSAGE'' = Inr p" "w = JBytes p"
        using assms f False by (auto simp: encodeFieldValue_def isDocIdField_def pack_item_def)
      then show ?thesis using f False JStr docids.pack_then_unpack
        by (simp add: decodeFieldValue_def decodeFieldValueWithFlags_def unpack_item_def)
    next
      case (JArr xs)
      then obtain ws where "traverse pack_item xs = Inr ws" "w = JArr ws"
        using assms f False by (auto simp: encodeFieldValue_def isDocIdField_def)
      then show ?thesis using f False JArr assms(2) unpack_pack_items
        by (simp add: decodeFieldValue_def decodeFieldValueWithFlags_def no_bytes_def)
    qed (use assms f False in
        \<open>auto simp: encodeFieldValue_def isDocIdField_def decodeFieldValue_def decodeFieldValueWithFlags_def no_bytes_def\<close>)
  qed
qed

lemma encodeValue_loop_values:
  "encodeValue_loop s ti kvs = Inr w \<Longrightarrow> dict_ok s \<Longrightarrow>
   \<exists>is ws. list_all2 (\<lambda>(k, v) (i, u). getFieldIndex s ti k = Inr i
        \<and> encodeFieldValue s (int ti) (int i) v = Inr u) kvs (zip is ws)
     \<and> length is = length kvs \<and> length ws = length kvs
     \<and> w = concat (map (\<lambda>(i, u). [JNum (nat_num i), u]) (zip is ws))"
proof (induction kvs arbitrary: w)
  case (Cons kv kvs)
  obtain k v where kv: "kv = (k, v)" by (cases kv)
  obtain i u w' where 1: "getFieldIndex s ti k = Inr i" "encodeFieldValue s (int ti) (int i) v = Inr u"
    "encodeValue_loop s ti kvs = Inr w'" "w = JNum (nat_num i) # u # w'"
    using Cons.prems kv by auto
  from Cons.IH [OF 1(3) Cons.prems(2)] obtain "is" ws where 2: "list_all2 (\<lambda>(k, v) (i, u). getFieldIndex s ti k = Inr i
        \<and> encodeFieldValue s (int ti) (int i) v = Inr u) kvs (zip is ws)"
    "length is = length kvs" "length ws = length kvs"
    "w' = concat (map (\<lambda>(i, u). [JNum (nat_num i), u]) (zip is ws))" by blast
  show ?case by (rule exI [of _ "i # is"], rule exI [of _ "u # ws"]) (use 1 2 kv in simp)
qed simp

fun wire_values :: "sparse \<Rightarrow> jv list" where
  \<comment> \<open>the values of a sparse array, as a positional record when the indices run in order\<close>
  "wire_values (i # v # rest) = v # wire_values rest"
| "wire_values _ = []"

lemma wire_values_concat: "length is = length ws \<Longrightarrow>
  wire_values (concat (map (\<lambda>(i, u). [JNum (nat_num i), u]) (zip is ws))) = ws"
  by (induction "is" ws rule: list_induct2) simp_all

lemma decode_encodeValue:
  assumes s: "dict_ok s" "distinct (field_names s ! ti)" and ti: "ti < length (tables s)"
    and e: "encodeValue s ti kvs = Inr w" "map fst kvs = field_names s ! ti" "ti < length (field_names s)"
    and nb: "\<forall>(k, v) \<in> set kvs. no_bytes v"
  shows "decodeRecord s (int ti) (wire_values w) = Inr (unflatten kvs)"
proof -
  obtain "is" ws where w: "list_all2 (\<lambda>(k, v) (i, u). getFieldIndex s ti k = Inr i
        \<and> encodeFieldValue s (int ti) (int i) v = Inr u) kvs (zip is ws)"
    "length is = length kvs" "length ws = length kvs"
    "w = concat (map (\<lambda>(i, u). [JNum (nat_num i), u]) (zip is ws))"
    using encodeValue_loop_values [OF e(1) [unfolded encodeValue_def] s(1)] by blast
  have len: "length ws = length (field_names s ! ti)" using w(3) e(2) by (metis length_map)
  note flags = dict_okD(4) [OF s(1)]
  have fl: "length (fieldFlags s) = length (field_names s)" using flags by (rule map_eq_imp_length_eq)
  then have fl': "length (fieldFlags s ! ti) = length (field_names s ! ti)"
    using flags e(3) by (metis nth_map)
  have dec: "decodeFieldValueWithFlags (fieldFlags s ! ti ! j) (ws ! j) = Inr (snd (kvs ! j))"
    if j: "j < length kvs" for j
  proof -
    have *: "getFieldIndex s ti (fst (kvs ! j)) = Inr (is ! j)"
      "encodeFieldValue s (int ti) (int (is ! j)) (snd (kvs ! j)) = Inr (ws ! j)"
      using w(1-3) j by (auto simp: list_all2_conv_all_nth case_prod_beta)
    have "field_names s ! ti ! j = fst (kvs ! j)" using j e(2) by (metis nth_map)
    with getFieldIndex_nth [OF s(1) *(1)] have "is ! j < length (field_names s ! ti)"
      "field_names s ! ti ! (is ! j) = field_names s ! ti ! j" by simp_all
    then have ij: "is ! j = j" using s(2) j e(2) by (metis length_map nth_eq_iff_index_eq)
    have "no_bytes (snd (kvs ! j))" using nb nth_mem [OF j] by (auto simp: case_prod_beta)
    from decode_encodeFieldValue [OF *(2) this]
    moreover have "getFieldFlags s (int ti) (int j) = Inr (fieldFlags s ! ti ! j)"
      using ti e(3) fl fl' len w(3) j by (simp add: getFieldFlags_def nth_opt_def)
    ultimately show ?thesis unfolding ij by (simp add: decodeFieldValue_def)
  qed
  have "traverse (\<lambda>(f, w). decodeFieldValueWithFlags f w) (zip (fieldFlags s ! ti) ws) = Inr (map snd kvs)"
    unfolding traverse_eq_Inr list_all2_conv_all_nth using dec w(3) fl' len by simp
  moreover have "zip (field_names s ! ti) (map snd kvs) = kvs" unfolding e(2) [symmetric] by (rule zip_map_fst_snd)
  ultimately show ?thesis using len w
    by (simp add: decodeRecord_eq [OF s(1) ti e(3)] wire_values_concat)
qed

section \<open>Properties\<close>


text \<open>C7: A path survives its wire form: what \<open>encodePath\<close> accepts, \<open>decodePath\<close> gives back,
  when the field part has no segment with the delimiter in it and none but the last ending
  in an underscore. The names in the dictionary need not be distinct for that.\<close>

theorem encodePath_roundtrip:
  assumes "encodePath (sync_run H ps) segs = Inr w" "drop 2 segs = [] \<or> wf_segments (drop 2 segs)"
  shows "decodePath (sync_run H ps) w = Inr segs"
  using decode_encodePath [OF sync_run_ok assms] .

definition demo_sync :: schema_sync where
  "demo_sync = \<lparr>ss_tables = [''users''], ss_fields = [[''id'', ''address__city'']],
     ss_fieldFlags = Some [[3, 0]], ss_presenceUserFields = Some [''cursor__x'', ''cursor__y''],
     ss_presenceSharedFields = None, ss_actions = None, ss_actionParams = None,
     ss_actionReturns = None, ss_actionFlags = None\<rparr>"

definition demo_dict :: dict where
  "demo_dict = sync_run (\<lambda>_. 7) [demo_sync]"

lemma demo_lookups:
  "getTableIndex demo_dict ''users'' = Inr 0" "getFieldIndex demo_dict 0 ''id'' = Inr 0"
  "getFieldIndex demo_dict 0 ''address__city'' = Inr (Suc 0)"
  "getFieldFlags demo_dict 0 0 = Inr 3" "getFieldFlags demo_dict 0 1 = Inr 0"
  "field_names demo_dict = [[''id'', ''address__city'']]" "tables demo_dict = [''users'']"
  "fieldFlags demo_dict = [[3, 0]]" "valid_doc_id ''u1''" "joinFieldPath [''address'', ''city''] = ''address__city''"
  by code_simp+

lemma encodePath_roundtrip_witness:
  "decodePath demo_dict (WField 0 (WBin (pack_of ''u1'')) 1) = Inr [''users'', ''u1'', ''address'', ''city'']"
proof (unfold demo_dict_def, rule encodePath_roundtrip, fold demo_dict_def)
  show "encodePath demo_dict [''users'', ''u1'', ''address'', ''city''] = Inr (WField 0 (WBin (pack_of ''u1'')) 1)"
    by (simp add: encodePath_def demo_lookups packDocId_valid)
  show "drop 2 [''users'', ''u1'', ''address'', ''city''] = []
      \<or> wf_segments (drop 2 [''users'', ''u1'', ''address'', ''city''])" by code_simp
qed

text \<open>With distinct names the other direction holds too: a wire path with a packed id that
  decodes is the encoding of what it decodes to, so two wire paths never denote one path.\<close>

theorem decodePath_roundtrip:
  assumes "names_distinct (sync_run H ps)" "decodePath (sync_run H ps) w = Inr segs"
    and "case w of WDoc _ r \<Rightarrow> (\<exists>p. r = WBin p) | WField _ r _ \<Rightarrow> (\<exists>p. r = WBin p) | _ \<Rightarrow> True"
  shows "encodePath (sync_run H ps) segs = Inr w"
  using encode_decodePath [OF sync_run_ok assms(1,2)] assms(3) by (cases w) auto

lemma decodePath_roundtrip_witness:
  "encodePath demo_dict [''users''] = Inr (WTable 0)"
proof (unfold demo_dict_def, rule decodePath_roundtrip, fold demo_dict_def)
  show "names_distinct demo_dict" by code_simp
  show "decodePath demo_dict (WTable 0) = Inr [''users'']" by code_simp
qed simp


definition demo_record :: props where
  "demo_record = [(''id'', JStr ''u1''), (''address'', JObj [(''city'', JStr ''Oslo'')])]"

lemma demo_flatten: "flatten demo_record = [(''id'', JStr ''u1''), (''address__city'', JStr ''Oslo'')]"
  by code_simp


text \<open>Decoding a row is unflattening the pairs of field names and decoded values: the
  precomputed paths are an optimisation only, and a row is refused exactly when its length
  is wrong or one of its document ids does not unpack.\<close>

theorem decodeRecord_reference:
  assumes "ti < length (tables (sync_run H ps))" "ti < length (field_names (sync_run H ps))"
  shows "decodeRecord (sync_run H ps) (int ti) row = Inr r \<longleftrightarrow>
    (\<exists>vs. length row = length (field_names (sync_run H ps) ! ti)
       \<and> traverse (\<lambda>(flag, w). decodeFieldValueWithFlags flag w) (zip (fieldFlags (sync_run H ps) ! ti) row) = Inr vs
       \<and> r = unflatten (zip (field_names (sync_run H ps) ! ti) vs))"
  unfolding decodeRecord_eq [OF sync_run_ok assms] by auto

lemma decodeRecord_reference_witness:
  "decodeRecord demo_dict (int 0) [JNull, JNull]
    = Inr (unflatten (zip [''id'', ''address__city''] [JNull, JNull]))"
proof -
  have "traverse (\<lambda>(flag, w). decodeFieldValueWithFlags flag w) (zip (fieldFlags demo_dict ! 0) [JNull, JNull])
      = Inr [JNull, JNull]"
    by (simp add: demo_lookups decodeFieldValueWithFlags_def)
  then show ?thesis unfolding demo_dict_def
    by (intro decodeRecord_reference [THEN iffD2, OF _ _ exI [of _ "[JNull, JNull]"]])
      (simp_all add: demo_lookups [unfolded demo_dict_def])
qed

text \<open>C8: Presence data and action fields survive the wire: whatever nested record an encoder
  accepts, the matching decoder gives back, for user and shared presence data, action
  parameters and action results.\<close>

theorem sparse_fields_roundtrip:
  assumes "wf_nested data"
  shows "(encodePresenceUserValue (sync_run H ps) data = Inr w \<longrightarrow>
            decodePresenceUserValue (sync_run H ps) w = Inr data)
    \<and> (encodePresenceSharedValue (sync_run H ps) data = Inr w \<longrightarrow>
            decodePresenceSharedValue (sync_run H ps) w = Inr data)
    \<and> (getAction (sync_run H ps) name = Inr action \<and> encodeActionParams action data = Inr w \<longrightarrow>
            decodeActionParams action w = Inr data)
    \<and> (getAction (sync_run H ps) name = Inr action \<and> encodeActionReturns action data = Inr w \<longrightarrow>
            decodeActionReturns action w = Inr data)"
proof -
  note d = dict_okD [OF sync_run_ok [of H ps]]
  note a = getAction_entry [OF sync_run_ok [of H ps]]
  show ?thesis using a sparse_roundtrip [OF assms]
    by (auto simp: encodePresenceUserValue_def decodePresenceUserValue_def encodePresenceSharedValue_def
      decodePresenceSharedValue_def encodeActionParams_def decodeActionParams_def encodeActionReturns_def
      decodeActionReturns_def encodeActionFields_def decodeActionFields_def d(5-8))
qed

lemma sparse_fields_roundtrip_witness:
  "encodePresenceUserValue demo_dict [(''cursor'', JObj [(''x'', JNull), (''y'', JBool True)])]
     = Inr [JNum (nat_num 0), JNull, JNum (nat_num 1), JBool True]
   \<and> decodePresenceUserValue demo_dict [JNum (nat_num 0), JNull, JNum (nat_num 1), JBool True]
     = Inr [(''cursor'', JObj [(''x'', JNull), (''y'', JBool True)])]"
proof -
  have w: "wf_nested [(''cursor'', JObj [(''x'', JNull), (''y'', JBool True)])]" by code_simp
  have e: "encodePresenceUserValue demo_dict [(''cursor'', JObj [(''x'', JNull), (''y'', JBool True)])]
     = Inr [JNum (nat_num 0), JNull, JNum (nat_num 1), JBool True]" by code_simp
  then show ?thesis
    using sparse_fields_roundtrip [OF w, where H = "\<lambda>_. 7" and ps = "[demo_sync]", folded demo_dict_def] by blast
qed

text \<open>Document-id fields round-trip: a value that \<open>encodeFieldValue\<close> accepts decodes to
  itself, single ids and arrays of ids alike, unless it holds raw bytes.\<close>

theorem docid_field_roundtrip:
  assumes "encodeFieldValue s ti fi v = Inr w" "no_bytes v"
  shows "decodeFieldValue s ti fi w = Inr v"
  using assms by (rule decode_encodeFieldValue)

lemma docid_field_roundtrip_witness:
  "decodeFieldValue demo_dict 0 0 (JArr [JBytes (pack_of ''u1''), JNull]) = Inr (JArr [JStr ''u1'', JNull])"
  by (rule docid_field_roundtrip)
    (simp_all add: no_bytes_def encodeFieldValue_def isDocIdField_def demo_lookups pack_item_def packDocId_valid)

text \<open>A SchemaSync with more tables than field arrays passes the validation, and a later
  field lookup in the last table then fails on \<open>undefined\<close> and not with a schema error.\<close>

theorem schemaSync_missing_fields_accepted:
  assumes "payload_ok p" "length (ss_fields p) < length (ss_tables p)"
  shows "\<exists>c. fst (processSchemaSync H p (sync_run H ps)) = Inr c
    \<and> getFieldName (snd (processSchemaSync H p (sync_run H ps))) (int (length (ss_fields p))) 0 = Inl type_error"
proof -
  obtain flags where f: "validateSchemaSyncPayload p = Inr flags"
    using assms(1) validate_flags_iff [of p] by (auto simp: payload_ok_def)
  have a: "validateActionArrays p = Inr ()" using assms(1) by (auto simp: payload_ok_def validate_actions)
  show ?thesis using f a assms(2)
    by (simp add: processSchemaSync_def Let_def buildStoreMaps_def buildPresenceMaps_def buildActionMaps_def
        getFieldName_def nth_opt_def)
qed

lemma schemaSync_missing_fields_accepted_witness:
  "\<exists>c. fst (processSchemaSync (\<lambda>_. 1) (demo_sync\<lparr>ss_tables := [''users'', ''posts'']\<rparr>) (sync_run (\<lambda>_. 1) [])) = Inr c"
proof -
  have "payload_ok (demo_sync\<lparr>ss_tables := [''users'', ''posts'']\<rparr>)"
    by (simp add: payload_ok_def demo_sync_def opt_list_def)
  then show ?thesis
    using schemaSync_missing_fields_accepted [of "demo_sync\<lparr>ss_tables := [''users'', ''posts'']\<rparr>" "\<lambda>_. 1" "[]"]
    by (auto simp: demo_sync_def)
qed

end
