(* ===== verification/Uuid.thy ===== *)
theory Uuid
  imports DocIdSpec
begin

text \<open>
  \<open>uuid.ts\<close>: the UUIDv7 generator. The module state is the last millisecond and the
  counter; the clock reading and the random bytes are arguments. The lemmas show that every
  generated id is a canonical UUIDv7 and that ids are strictly increasing, in text order and
  so in packed order, while the clock does not go back and stays within 4096 ids per
  millisecond; the 4097th id of a millisecond sorts below the 4096 before it.
\<close>

record uuid_state =
  lastMsecs :: nat
  counter :: nat

definition uuid_init :: uuid_state where
  "uuid_init = \<lparr>lastMsecs = 0, counter = 0\<rparr>"

definition low_byte :: "nat \<Rightarrow> byte" where
  \<comment> \<open>\<open>n & 0xff\<close> stored in a byte: \<open>n\<close> is first cut to 32 bits\<close>
  "low_byte n = ucast ((word_of_nat n :: 32 word) AND 0xff)"

definition uuid_tick :: "uuid_state \<Rightarrow> nat \<Rightarrow> uuid_state" where
  \<comment> \<open>the two conditionals on the clock and the assignment of \<open>lastMsecs\<close>\<close>
  "uuid_tick s msecs =
     (let s = (if msecs < lastMsecs s then s\<lparr>counter := 0\<rparr> else s);
          s = (if msecs = lastMsecs s then s\<lparr>counter := counter s + 1\<rparr> else s\<lparr>counter := 0\<rparr>)
      in s\<lparr>lastMsecs := msecs\<rparr>)"

definition uuid_bytes :: "nat \<Rightarrow> nat \<Rightarrow> byte list \<Rightarrow> byte list" where
  \<comment> \<open>the nine assignments to \<open>bytes\<close>, which holds sixteen random bytes; a millisecond
      count divided by a power of two is cut to its integer part by \<open>&\<close>\<close>
  "uuid_bytes msecs cnt bytes =
     (let bytes = bytes[0 := low_byte (msecs div 0x10000000000)];
          bytes = bytes[1 := low_byte (msecs div 0x100000000)];
          bytes = bytes[2 := low_byte (msecs div 0x1000000)];
          bytes = bytes[3 := low_byte (msecs div 0x10000)];
          bytes = bytes[4 := low_byte (msecs div 0x100)];
          bytes = bytes[5 := low_byte msecs];
          bytes = bytes[6 := 0x70 OR ucast (drop_bit 8 (word_of_nat cnt :: 32 word) AND 0x0f)];
          bytes = bytes[7 := low_byte cnt]
      in bytes[8 := (bytes ! 8 AND 0x3f) OR 0x80])"

definition slice :: "nat \<Rightarrow> nat \<Rightarrow> 'a list \<Rightarrow> 'a list" where
  "slice i j xs = drop i (take j xs)"

definition generateUUIDv7 :: "uuid_state \<Rightarrow> nat \<Rightarrow> byte list \<Rightarrow> string \<times> uuid_state" where
  "generateUUIDv7 s msecs random =
     (let s = uuid_tick s msecs;
          hex = concat (map HEX2 (uuid_bytes msecs (counter s) random))
      in (slice 0 8 hex @ ''-'' @ slice 8 12 hex @ ''-'' @ slice 12 16 hex @ ''-'' @
          slice 16 20 hex @ ''-'' @ drop 20 hex, s))"

fun uuid_run :: "uuid_state \<Rightarrow> (nat \<times> byte list) list \<Rightarrow> string list \<times> uuid_state" where
  "uuid_run s [] = ([], s)"
| "uuid_run s ((msecs, random) # calls) =
     (case generateUUIDv7 s msecs random of (u, s1) \<Rightarrow>
      case uuid_run s1 calls of (us, s2) \<Rightarrow> (u # us, s2))"

section \<open>The bytes\<close>

lemma unat_and_mask: "unat (a AND mask k) = unat (a :: 'a::len word) mod 2 ^ k"
  by (subst take_bit_eq_mask [symmetric], subst unsigned_take_bit_eq, rule take_bit_eq_mod)

lemma unat_ucast_byte: "unat (ucast (a :: 32 word) :: byte) = unat a mod 256"
  by (simp add: unsigned_ucast_eq take_bit_eq_mod)

lemma unat_low_byte32: "unat (low_byte n) = n mod 256"
proof -
  have "unat (low_byte n) = n mod 4294967296 mod 256 mod 256"
    unfolding low_byte_def unat_ucast_byte
    using unat_and_mask [of "word_of_nat n :: 32 word" 8]
    by (simp add: mask_eq_exp_minus_1 unat_of_nat)
  also have "\<dots> = n mod 256" by (simp add: mod_mod_cancel)
  finally show ?thesis .
qed

lemma unat_version: "unat (0x70 OR ucast (drop_bit 8 (word_of_nat c :: 32 word) AND 0x0f) :: byte)
    = 112 + c div 256 mod 16"
proof -
  let ?w = "ucast (drop_bit 8 (word_of_nat c :: 32 word) AND 0x0f) :: byte"
  have "unat ?w = c mod 4294967296 div 256 mod 16 mod 256"
    unfolding unat_ucast_byte
    using unat_and_mask [of "drop_bit 8 (word_of_nat c :: 32 word)" 4]
      unat_drop_bit_eq [of 8 "word_of_nat c :: 32 word"] drop_bit_eq_div [of 8 "unat (word_of_nat c :: 32 word)"]
    by (simp only: mask_eq_exp_minus_1) (simp add: unat_of_nat del: drop_bit_of_nat)
  also have "\<dots> = c div 256 mod 16"
  proof -
    have "c mod (256 * 16777216) = 256 * (c div 256 mod 16777216) + c mod 256" by (rule mod_mult2_eq)
    then have "c mod 4294967296 div 256 = c div 256 mod 16777216" by simp
    then show ?thesis by (simp add: mod_mod_cancel)
  qed
  finally have w: "unat ?w = c div 256 mod 16" .
  have "unat (0x70 OR ?w) = 7 * 2 ^ 4 + unat ?w"
    by (rule byte_or_disjoint) (simp_all add: w)
  then show ?thesis by (simp add: w)
qed

lemma unat_variant: "unat ((b AND 0x3f) OR 0x80 :: byte) = 128 + unat b mod 64"
proof -
  have "unat (0x80 OR (b AND 0x3f) :: byte) = 2 * 2 ^ 6 + unat (b AND 0x3f)"
    by (rule byte_or_disjoint) (simp_all add: byte_and_mask)
  then show ?thesis by (simp add: byte_and_mask or.commute)
qed

lemma list_update_numeral: "(x # xs)[numeral v := y] = x # xs[pred_numeral v := y]"
  by (simp add: numeral_eq_Suc)

lemma replicate_6: "replicate 6 x = [x, x, x, x, x, x]"
  by (simp add: numeral_eq_Suc)

lemma ub_uuid_bytes:
  assumes "length r = 16"
  shows "ub (uuid_bytes m c r) = mixdig (replicate 6 256) m @
    [112 + c div 256 mod 16, c mod 256, 128 + unat (r ! 8) mod 64] @ ub (drop 9 r)"
  using assms by (elim list_16)
    (simp add: uuid_bytes_def Let_def unat_low_byte32 unat_version unat_variant list_update_numeral replicate_6)

lemma uuid_bytes_length [simp]: "length (uuid_bytes m c r) = length r"
  by (simp add: uuid_bytes_def Let_def)

lemma uuid_bytes_v7: "length r = 16 \<Longrightarrow> v7_bytes (ub (uuid_bytes m c r))"
proof -
  assume r: "length r = 16"
  have "\<forall>b \<in> set (ub (uuid_bytes m c r)). b < 256" by auto
  moreover have "ub (uuid_bytes m c r) ! 6 = 112 + c div 256 mod 16"
    "ub (uuid_bytes m c r) ! 8 = 128 + unat (r ! 8) mod 64"
    unfolding ub_uuid_bytes [OF r] by (simp_all add: nth_append)
  ultimately show ?thesis using r unfolding v7_bytes_def by auto
qed

lemma slices_format:
  "length bs = 16 \<Longrightarrow>
   slice 0 8 (concat (map HEX2 bs)) @ ''-'' @ slice 8 12 (concat (map HEX2 bs)) @ ''-'' @
   slice 12 16 (concat (map HEX2 bs)) @ ''-'' @ slice 16 20 (concat (map HEX2 bs)) @ ''-'' @
   drop 20 (concat (map HEX2 bs)) = formatUuidBytes bs"
  by (erule list_16) (simp add: slice_def formatUuidBytes_def HEX2_def)

lemma generateUUIDv7_eq:
  "length r = 16 \<Longrightarrow> generateUUIDv7 s m r =
     (formatUuidBytes (uuid_bytes m (counter (uuid_tick s m)) r), uuid_tick s m)"
  using slices_format [of "uuid_bytes m (counter (uuid_tick s m)) r"]
  by (simp only: generateUUIDv7_def Let_def uuid_bytes_length)

section \<open>Order\<close>

lemma list_lt_append_same_length:
  "length xs = length ys \<Longrightarrow>
   list_lt (xs @ us) (ys @ vs) \<longleftrightarrow> list_lt xs ys \<or> xs = ys \<and> list_lt us vs"
  by (induction xs ys rule: list_induct2) auto

lemma uuid_bytes_order:
  assumes len: "length r = 16" "length r' = 16"
    and m: "m < 2 ^ 48" "m' < 2 ^ 48" and c: "c < 4096" "c' < 4096"
    and lt: "m < m' \<or> m = m' \<and> c < c'"
  shows "list_lt (ub (uuid_bytes m c r)) (ub (uuid_bytes m' c' r'))"
proof -
  let ?rs = "replicate 6 256"
  have ok: "digits_ok ?rs (mixdig ?rs m)" "digits_ok ?rs (mixdig ?rs m')" by (rule mixdig_ok; simp)+
  have v: "mixv ?rs (mixdig ?rs m) = m" "mixv ?rs (mixdig ?rs m') = m'"
    using m by (simp_all add: mixv_mixdig prod_list_replicate)
  have "list_lt (mixdig ?rs m) (mixdig ?rs m') \<longleftrightarrow> m < m'"
    using mixv_less_iff [OF ok] by (simp only: v)
  moreover have "c < c' \<Longrightarrow> c div 256 mod 16 < c' div 256 mod 16
      \<or> c div 256 mod 16 = c' div 256 mod 16 \<and> c mod 256 < c' mod 256"
  proof -
    assume "c < c'"
    then have "c div 256 \<le> c' div 256" by (simp add: div_le_mono)
    moreover have "c div 256 = c' div 256 \<Longrightarrow> c mod 256 < c' mod 256"
      using \<open>c < c'\<close> div_mult_mod_eq [of c 256] div_mult_mod_eq [of c' 256] by linarith
    moreover have "c div 256 < 16" "c' div 256 < 16" using c by (simp_all add: less_mult_imp_div_less)
    ultimately show ?thesis by (cases "c div 256 = c' div 256") simp_all
  qed
  ultimately show ?thesis using lt unfolding ub_uuid_bytes [OF len(1)] ub_uuid_bytes [OF len(2)]
    by (subst list_lt_append_same_length) auto
qed

definition key_lt :: "nat \<times> nat \<Rightarrow> nat \<times> nat \<Rightarrow> bool" where
  "key_lt k k' \<longleftrightarrow> fst k < fst k' \<or> fst k = fst k' \<and> snd k < snd k'"

lemma key_lt_trans: "key_lt a b \<Longrightarrow> key_lt b c \<Longrightarrow> key_lt a c"
  by (auto simp: key_lt_def)

fun uuid_keys :: "uuid_state \<Rightarrow> (nat \<times> byte list) list \<Rightarrow> ((nat \<times> nat) \<times> byte list) list" where
  \<comment> \<open>the clock and counter that each id of a run is made from\<close>
  "uuid_keys s [] = []"
| "uuid_keys s ((m, r) # calls) =
     ((m, counter (uuid_tick s m)), r) # uuid_keys (uuid_tick s m) calls"

definition key_id :: "(nat \<times> nat) \<times> byte list \<Rightarrow> string" where
  "key_id k = formatUuidBytes (uuid_bytes (fst (fst k)) (snd (fst k)) (snd k))"

lemma uuid_run_keys:
  "\<forall>(m, r) \<in> set calls. length r = 16 \<Longrightarrow> fst (uuid_run s calls) = map key_id (uuid_keys s calls)"
  by (induction s calls rule: uuid_run.induct) (auto simp: generateUUIDv7_eq key_id_def split: prod.splits)

lemma key_id_order:
  assumes k: "fst (fst x) < 2 ^ 48 \<and> snd (fst x) < 4096 \<and> length (snd x) = 16"
    "fst (fst y) < 2 ^ 48 \<and> snd (fst y) < 4096 \<and> length (snd y) = 16"
    and lt: "key_lt (fst x) (fst y)"
  shows "js_str_lt (key_id x) (key_id y) \<and> fst (compareDocIds empty_caches (key_id x) (key_id y)) < 0"
proof -
  have "js_str_lt (key_id x) (key_id y)"
    using k lt by (simp add: key_id_def format_order uuid_bytes_order key_lt_def)
  moreover have "isCanonicalUUIDv7 (key_id x)" "isCanonicalUUIDv7 (key_id y)"
    using k by (simp_all add: key_id_def format_canonical uuid_bytes_v7)
  ultimately show ?thesis
    using compareDocIds_refines [OF caches_ok_empty] by (simp add: compare_ref_lt sort_family_def)
qed

lemma uuid_tick_key:
  "lastMsecs s \<le> m \<Longrightarrow> key_lt (lastMsecs s, counter s) (m, counter (uuid_tick s m))"
  "lastMsecs (uuid_tick s m) = m"
  "counter (uuid_tick s m) = (if m = lastMsecs s then counter s + 1 else 0)"
  by (auto simp: uuid_tick_def key_lt_def)

lemma uuid_keys_sorted:
  assumes "sorted (map fst calls)" "\<forall>m \<in> set (map fst calls). lastMsecs s \<le> m"
  shows "sorted_wrt key_lt ((lastMsecs s, counter s) # map fst (uuid_keys s calls))"
  using assms
proof (induction s calls rule: uuid_keys.induct)
  case (2 s m r calls)
  have IH: "sorted_wrt key_lt ((m, counter (uuid_tick s m)) # map fst (uuid_keys (uuid_tick s m) calls))"
    using 2 by (simp add: uuid_tick_key)
  moreover have "key_lt (lastMsecs s, counter s) (m, counter (uuid_tick s m))"
    using 2 by (intro uuid_tick_key(1)) simp
  ultimately show ?case by (auto intro: key_lt_trans)
qed simp

lemma uuid_keys_bounded:
  assumes "\<forall>m. count_list (map fst calls) m + (if m = lastMsecs s then counter s + 1 else 0) \<le> 4096"
    and "\<forall>m \<in> set (map fst calls). m < 2 ^ 48" "\<forall>(m, r) \<in> set calls. length r = 16"
  shows "\<forall>((m, c), r) \<in> set (uuid_keys s calls). m < 2 ^ 48 \<and> c < 4096 \<and> length r = 16"
  using assms
proof (induction s calls rule: uuid_keys.induct)
  case (2 s m r calls)
  let ?s = "uuid_tick s m"
  have "\<forall>n. count_list (map fst calls) n + (if n = lastMsecs ?s then counter ?s + 1 else 0) \<le> 4096"
  proof
    fix n
    show "count_list (map fst calls) n + (if n = lastMsecs ?s then counter ?s + 1 else 0) \<le> 4096"
      using "2.prems"(1) [rule_format, of n] by (auto simp: uuid_tick_key split: if_splits)
  qed
  with 2 have IH: "\<forall>((m, c), r) \<in> set (uuid_keys ?s calls). m < 2 ^ 48 \<and> c < 4096 \<and> length r = 16"
    by auto
  have "counter ?s < 4096" using "2.prems"(1) [rule_format, of m] by (auto simp: uuid_tick_key split: if_splits)
  with IH "2.prems" show ?case by auto
qed simp

text \<open>C11: Every generated id is a canonical UUIDv7, whatever the generator's state, the
  clock and the random bytes.\<close>

theorem generateUUIDv7_canonical:
  assumes "length random = 16"
  shows "isCanonicalUUIDv7 (fst (generateUUIDv7 s msecs random))"
  using assms by (simp add: generateUUIDv7_eq format_canonical uuid_bytes_v7)

lemma generateUUIDv7_canonical_witness:
  "isCanonicalUUIDv7 (fst (generateUUIDv7 uuid_init 1700000000000 (replicate 16 0xff)))"
  by (rule generateUUIDv7_canonical) simp

text \<open>C10: Ids generated in sequence are strictly increasing as strings and under
  \<open>compareDocIds\<close>, while the clock does not go back, is a 48-bit count, and gives at most
  4096 ids in one millisecond.\<close>

theorem generateUUIDv7_increasing:
  assumes "sorted (map fst calls)" "\<forall>m \<in> set (map fst calls). 0 < m \<and> m < 2 ^ 48"
    and "\<forall>m. count_list (map fst calls) m \<le> 4096" "\<forall>(m, r) \<in> set calls. length r = 16"
  shows "sorted_wrt (\<lambda>u v. js_str_lt u v \<and> fst (compareDocIds empty_caches u v) < 0)
    (fst (uuid_run uuid_init calls))"
proof -
  have "\<forall>m. count_list (map fst calls) m + (if m = lastMsecs uuid_init then counter uuid_init + 1 else 0) \<le> 4096"
  proof
    fix m
    have "count_list (map fst calls) 0 = 0" using assms(2) by (auto simp: count_list_0_iff)
    then show "count_list (map fst calls) m + (if m = lastMsecs uuid_init then counter uuid_init + 1 else 0) \<le> 4096"
      using assms(3) by (auto simp: uuid_init_def)
  qed
  then have b: "\<forall>((m, c), r) \<in> set (uuid_keys uuid_init calls). m < 2 ^ 48 \<and> c < 4096 \<and> length r = 16"
    using assms by (intro uuid_keys_bounded) auto
  have "sorted_wrt key_lt (map fst (uuid_keys uuid_init calls))"
    using uuid_keys_sorted [OF assms(1), of uuid_init] by (simp add: uuid_init_def)
  then have "sorted_wrt (\<lambda>x y. key_lt (fst x) (fst y)) (uuid_keys uuid_init calls)"
    by (simp add: sorted_wrt_map)
  moreover have "js_str_lt (key_id x) (key_id y) \<and> fst (compareDocIds empty_caches (key_id x) (key_id y)) < 0"
    if "x \<in> set (uuid_keys uuid_init calls)" "y \<in> set (uuid_keys uuid_init calls)" "key_lt (fst x) (fst y)" for x y
    using b that by (intro key_id_order) auto
  ultimately have "sorted_wrt (\<lambda>x y. js_str_lt (key_id x) (key_id y)
      \<and> fst (compareDocIds empty_caches (key_id x) (key_id y)) < 0) (uuid_keys uuid_init calls)"
    by (elim sorted_wrt_mono_rel [rotated]) auto
  then show ?thesis using assms(4) by (simp add: uuid_run_keys sorted_wrt_map)
qed

lemma generateUUIDv7_increasing_witness:
  "sorted_wrt (\<lambda>u v. js_str_lt u v \<and> fst (compareDocIds empty_caches u v) < 0)
    (fst (uuid_run uuid_init [(1700000000000, replicate 16 0xff), (1700000000000, replicate 16 0),
       (1700000000001, replicate 16 0)]))"
  by (rule generateUUIDv7_increasing) auto

text \<open>The counter is kept unbounded but only its low twelve bits are in the id: after the
  id with counter 4095 the next one of the same millisecond sorts below it, so the
  sub-millisecond monotonicity that the comment promises ends there.\<close>

theorem generateUUIDv7_counter_wraps:
  assumes "length random1 = 16" "length random2 = 16" "s = \<lparr>lastMsecs = msecs, counter = 4094\<rparr>"
    and "generateUUIDv7 s msecs random1 = (u, s1)" "generateUUIDv7 s1 msecs random2 = (v, s2)"
  shows "js_str_lt v u"
proof -
  have s1: "s1 = \<lparr>lastMsecs = msecs, counter = 4095\<rparr>" "u = formatUuidBytes (uuid_bytes msecs 4095 random1)"
    using assms by (auto simp: generateUUIDv7_eq uuid_tick_def)
  then have v: "v = formatUuidBytes (uuid_bytes msecs 4096 random2)"
    using assms by (auto simp: generateUUIDv7_eq uuid_tick_def)
  have "list_lt (ub (uuid_bytes msecs 4096 random2)) (ub (uuid_bytes msecs 4095 random1))"
    using assms(1,2) by (simp add: ub_uuid_bytes list_lt_append)
  then show ?thesis using assms(1,2) by (simp add: s1 v format_order)
qed

lemma generateUUIDv7_counter_wraps_witness:
  "\<exists>u v s1 s2. generateUUIDv7 \<lparr>lastMsecs = 1, counter = 4094\<rparr> 1 (replicate 16 0) = (u, s1)
     \<and> generateUUIDv7 s1 1 (replicate 16 0) = (v, s2) \<and> js_str_lt v u"
proof -
  obtain u s1 where 1: "generateUUIDv7 \<lparr>lastMsecs = 1, counter = 4094\<rparr> 1 (replicate 16 0) = (u, s1)"
    by fastforce
  obtain v s2 where 2: "generateUUIDv7 s1 1 (replicate 16 0) = (v, s2)" by fastforce
  have "js_str_lt v u" by (rule generateUUIDv7_counter_wraps [OF _ _ refl 1 2]) simp_all
  then show ?thesis using 1 2 by blast
qed

end
