(* ===== verification/StoreWire.thy ===== *)
theory StoreWire
  imports Paths Uuid
begin

text \<open>
  \<open>store_wire.ts\<close>: the wire messages of the store operations and the shaping of their
  answers. Query conditions and sort clauses come from user code as arbitrary values, so
  they are taken as values here and every check of the encoder is a branch. A condition code
  is the number from \<open>OP_CODES\<close>, or the inherited property that \<open>op in OP_CODES\<close> also finds.
\<close>

section \<open>Messages\<close>

datatype op_code = OpCode nat | OpInherited string

type_synonym wire_condition = "string \<times> op_code \<times> jv option"

record query_fields =
  qf_conditions :: "wire_condition list option"
  qf_orConditions :: "wire_condition list option"
  qf_orderBy :: "(string \<times> nat) list option"
  qf_limit :: "jnum option"
  qf_after :: "string option"

definition no_query :: query_fields where
  "no_query = \<lparr>qf_conditions = None, qf_orConditions = None, qf_orderBy = None, qf_limit = None,
     qf_after = None\<rparr>"

datatype batch_op = BSet "string list" jv | BRemove "string list"

datatype store_message =
    StoreSet "string list" jv "string option" "string option"   \<comment> \<open>path, value, confirm, writeId\<close>
  | StoreRemove "string list" "string option" "string option"
  | StoreQuery string query_fields
  | StoreBatch "batch_op list" "string option" "string option"
  | StoreSubscribe string query_fields
  | StoreUnsubscribe nat
  | StoreLoadMore nat string

type_synonym command = "string list \<times> store_message"

definition client_error :: "string \<Rightarrow> string \<Rightarrow> thrown" where
  "client_error msg code = TZync (new_ZyncBaseError msg code ''client'' False)"

section \<open>Write values and identifiers\<close>

definition OP_CODES :: "(string \<times> nat) list" where
  "OP_CODES = [(''eq'', 0), (''ne'', 1), (''gt'', 2), (''lt'', 3), (''gte'', 4), (''lte'', 5),
     (''contains'', 6), (''startsWith'', 7), (''endsWith'', 8), (''in'', 9), (''notIn'', 10),
     (''isNull'', 11), (''isNotNull'', 12)]"

definition object_proto_names :: "string list" where
  \<comment> \<open>the properties every ordinary object inherits\<close>
  "object_proto_names = [''constructor'', ''__defineGetter__'', ''__defineSetter__'', ''hasOwnProperty'',
     ''__lookupGetter__'', ''__lookupSetter__'', ''isPrototypeOf'', ''propertyIsEnumerable'',
     ''toString'', ''valueOf'', ''__proto__'', ''toLocaleString'']"

definition encodeWriteValue :: "jv \<Rightarrow> jv" where
  "encodeWriteValue value = (case value of JObj ps \<Rightarrow> JObj (flatten ps) | _ \<Rightarrow> value)"

type_synonym uuid_source = "uuid_state \<times> nat \<times> byte list"  \<comment> \<open>generator state, clock, random bytes\<close>

definition writeIdFor :: "string option \<Rightarrow> uuid_source \<Rightarrow> string option \<times> string option \<times> uuid_state" where
  \<comment> \<open>the two conditional spreads on \<open>options?.confirm\<close>: confirm, writeId, generator\<close>
  "writeIdFor confirm src =
     (case src of (g, msecs, random) \<Rightarrow>
        (if confirm = Some [] then None else confirm,
         if confirm = Some ''committed''
         then Some (filter (\<lambda>c. c \<noteq> CHR ''-'') (fst (generateUUIDv7 g msecs random))) else None,
         if confirm = Some ''committed'' then snd (generateUUIDv7 g msecs random) else g))"

definition wire_value :: "string list \<Rightarrow> jv \<Rightarrow> jv" where
  \<comment> \<open>\<open>segments.length >= 3 ? { [joinFieldPath(...segments.slice(2))]: value } : value\<close>\<close>
  "wire_value segments value =
     (if length segments \<ge> 3 then JObj [(joinFieldPath (drop 2 segments), value)] else value)"

section \<open>Builders\<close>

definition buildSet :: "path_arg \<Rightarrow> jv \<Rightarrow> string option \<Rightarrow> uuid_source \<Rightarrow> thrown + command \<times> uuid_state" where
  "buildSet path value confirm src =
     and_then (normalizePath path) (\<lambda>segments.
       if length segments = 1
       then Inl (client_error ''store.set requires a path of depth 2 or more'' ''INVALID_PATH'')
       else
         let wirePath = take 2 segments in
         case writeIdFor confirm src of (c, wid, g) \<Rightarrow>
           Inr ((wirePath, StoreSet wirePath (encodeWriteValue (wire_value segments value)) c wid), g))"

definition buildRemove :: "path_arg \<Rightarrow> string option \<Rightarrow> uuid_source \<Rightarrow> thrown + command \<times> uuid_state" where
  "buildRemove path confirm src =
     and_then (normalizePath path) (\<lambda>segments.
       if length segments \<noteq> 2
       then Inl (client_error ''store.remove requires a path of depth 2 (collection + document id)''
              ''INVALID_PATH'')
       else case writeIdFor confirm src of (c, wid, g) \<Rightarrow> Inr ((segments, StoreRemove segments c wid), g))"

definition buildCreate :: "string \<Rightarrow> jv \<Rightarrow> string \<Rightarrow> string option \<Rightarrow> uuid_source \<Rightarrow> command \<times> uuid_state" where
  "buildCreate collection value did confirm src =
     (case writeIdFor confirm src of (c, wid, g) \<Rightarrow>
        (([collection, did], StoreSet [collection, did] (encodeWriteValue value) c wid), g))"

definition id_conditions :: "string \<Rightarrow> query_fields" where
  "id_conditions did = no_query\<lparr>qf_conditions := Some [(''id'', OpCode 0, Some (JStr did))]\<rparr>"

definition buildIdQuery :: "string list \<Rightarrow> store_message" where
  "buildIdQuery segments =
     (if length segments = 1 then StoreQuery (segments ! 0) no_query
      else StoreQuery (segments ! 0) (id_conditions (segments ! 1)))"

definition buildGet :: "path_arg \<Rightarrow> thrown + command" where
  "buildGet path = and_then (normalizePath path) (\<lambda>segments. Inr (segments, buildIdQuery segments))"

record batch_operation =
  bop_op :: string
  bop_path :: path_arg
  bop_value :: "jv option"

definition buildBatchOp :: "batch_operation \<Rightarrow> thrown + batch_op" where
  "buildBatchOp op =
     (if bop_op op \<noteq> ''set'' \<and> bop_op op \<noteq> ''remove''
      then Inl (client_error ''Batch operation must specify op as set or remove'' ''INVALID_MESSAGE'')
      else and_then (normalizePath (bop_path op)) (\<lambda>segments.
        if length segments < 2
        then Inl (client_error ''Batch operation path requires depth 2 or more'' ''INVALID_PATH'')
        else if bop_op op = ''remove''
        then if length segments \<noteq> 2
             then Inl (client_error ''store.remove requires a path of depth 2 (collection + document id)''
                    ''INVALID_PATH'')
             else Inr (BRemove segments)
        else
          let value = (case bop_value op of Some v \<Rightarrow> v | None \<Rightarrow> JNull)
          in Inr (BSet (take 2 segments) (encodeWriteValue (wire_value segments value)))))"

definition buildBatch :: "batch_operation list \<Rightarrow> string option \<Rightarrow> uuid_source \<Rightarrow> thrown + store_message \<times> uuid_state" where
  "buildBatch operations confirm src =
     (if length operations > 500
      then Inl (client_error ''Batch exceeds maximum of 500 operations'' ''BATCH_TOO_LARGE'')
      else and_then (traverse buildBatchOp operations) (\<lambda>ops.
        case writeIdFor confirm src of (c, wid, g) \<Rightarrow> Inr (StoreBatch ops c wid, g)))"

definition buildListen :: "path_arg \<Rightarrow> thrown + command" where
  "buildListen path =
     and_then (normalizePath path) (\<lambda>segments.
       if length segments = 1
       then Inl (client_error
         ''store.listen at collection level is not supported. Use store.subscribe() instead.'' ''INVALID_PATH'')
       else Inr (segments, StoreSubscribe (segments ! 0) (id_conditions (segments ! 1))))"

definition buildUnsubscribe :: "nat \<Rightarrow> store_message" where
  "buildUnsubscribe subId = StoreUnsubscribe subId"

definition buildLoadMore :: "nat \<Rightarrow> string \<Rightarrow> store_message" where
  "buildLoadMore subId nextCursor = StoreLoadMore subId nextCursor"

section \<open>Conditions\<close>

definition op_code_of :: "string \<Rightarrow> op_code option" where
  \<comment> \<open>\<open>op in OP_CODES\<close>, and then \<open>OP_CODES[op]\<close>\<close>
  "op_code_of op =
     (case map_of OP_CODES op of
        Some n \<Rightarrow> Some (OpCode n)
      | None \<Rightarrow> if op \<in> set object_proto_names then Some (OpInherited op) else None)"

definition encodeOperatorObject :: "string \<Rightarrow> props \<Rightarrow> string list \<Rightarrow> wire_condition list" where
  "encodeOperatorObject fieldKey value opKeys =
     map (\<lambda>op. (fieldKey, the (op_code_of op),
            if op = ''isNull'' \<or> op = ''isNotNull'' then None else om_get value op)) opKeys"

definition op_keys :: "props \<Rightarrow> string list" where
  "op_keys value = filter (\<lambda>op. op_code_of op \<noteq> None) (map fst value)"

fun encodeConditionObject :: "string \<Rightarrow> props \<Rightarrow> wire_condition list" where
  "encodeConditionObject prefix [] = []"
| "encodeConditionObject prefix ((key, val) # rest) =
     (case val of
        JObj value \<Rightarrow>
          if op_keys value \<noteq> [] then encodeOperatorObject (full_key prefix key) value (op_keys value)
          else encodeConditionObject (full_key prefix key) value
      | _ \<Rightarrow> [(full_key prefix key, OpCode 0, Some val)])
     @ encodeConditionObject prefix rest"

definition object_entries :: "jv \<Rightarrow> thrown + props" where
  \<comment> \<open>\<open>Object.entries\<close>\<close>
  "object_entries v =
     (case v of
        JNull \<Rightarrow> Inl type_error
      | JObj ps \<Rightarrow> Inr ps
      | JArr xs \<Rightarrow> Inr (map (\<lambda>i. (show_nat i, xs ! i)) [0..<length xs])
      | JBytes bs \<Rightarrow> Inr (map (\<lambda>i. (show_nat i, JNum (nat_num (unat (bs ! i))))) [0..<length bs])
      | JStr s \<Rightarrow> Inr (map (\<lambda>i. (show_nat i, JStr [s ! i])) [0..<length s])
      | _ \<Rightarrow> Inr [])"

definition extractOrConditions :: "jv list \<Rightarrow> thrown + wire_condition list" where
  "extractOrConditions alts =
     and_then (traverse object_entries alts) (\<lambda>clauses. Inr (concat (map (encodeConditionObject []) clauses)))"

definition encodeWhereClause :: "props \<Rightarrow> thrown + wire_condition list option \<times> wire_condition list option" where
  "encodeWhereClause where_clause =
     (let rest = om_delete where_clause ''or'';
          conditions = encodeConditionObject [] rest;
          c = (if length conditions > 0 then Some conditions else None)
      in case om_get where_clause ''or'' of
           Some (JArr alts) \<Rightarrow> and_then (extractOrConditions alts) (\<lambda>orConditions.
             Inr (c, if length orConditions > 0 then Some orConditions else None))
         | _ \<Rightarrow> Inr (c, None))"

section \<open>Sort clauses\<close>

definition invalidSortError :: "string \<Rightarrow> thrown" where
  "invalidSortError message = client_error message ''INVALID_MESSAGE''"

definition own_entries :: "jv \<Rightarrow> props option" where
  \<comment> \<open>the own properties of a non-null value of type object that is no array\<close>
  "own_entries v =
     (case v of JObj ps \<Rightarrow> Some ps
      | JBytes bs \<Rightarrow> Some (map (\<lambda>i. (show_nat i, JNum (nat_num (unat (bs ! i))))) [0..<length bs])
      | _ \<Rightarrow> None)"

definition sort_field :: "string \<Rightarrow> string" where
  "sort_field field = joinFieldPath (split_char CHR ''.'' field)"

definition encodeSortClause :: "jv \<Rightarrow> nat \<Rightarrow> string set \<Rightarrow> thrown + (string \<times> nat)" where
  \<comment> \<open>the caller adds the field to \<open>seen\<close>\<close>
  "encodeSortClause clause i seen =
     (case own_entries clause of
        None \<Rightarrow> Inl (invalidSortError (''orderBy clause '' @ show_nat i @ '' must be an object''))
      | Some [(field, dir)] \<Rightarrow>
          if dir \<noteq> JStr ''asc'' \<and> dir \<noteq> JStr ''desc''
          then Inl (invalidSortError (''orderBy clause '' @ show_nat i @ '' direction must be \"asc\" or \"desc\"''))
          else if sort_field field \<in> seen
          then Inl (invalidSortError (''orderBy clause '' @ show_nat i @ '' duplicates field \"'' @ field @ ''\"''))
          else Inr (sort_field field, if dir = JStr ''desc'' then 1 else 0)
      | Some _ \<Rightarrow> Inl (invalidSortError (''orderBy clause '' @ show_nat i @
          '' must contain exactly one field and direction'')))"

fun encodeSortClauses :: "jv list \<Rightarrow> nat \<Rightarrow> string set \<Rightarrow> thrown + (string \<times> nat) list" where
  \<comment> \<open>\<open>orderBy.map(...)\<close> with the shared set \<open>seen\<close>\<close>
  "encodeSortClauses [] i seen = Inr []"
| "encodeSortClauses (clause # rest) i seen =
     and_then (encodeSortClause clause i seen) (\<lambda>c.
     and_then (encodeSortClauses rest (Suc i) (insert (fst c) seen)) (\<lambda>cs. Inr (c # cs)))"

definition unique_field :: "string \<Rightarrow> bool" where
  "unique_field field \<longleftrightarrow> field = ''id'' \<or> field = ''created_at''"

fun findIndex :: "('a \<Rightarrow> bool) \<Rightarrow> 'a list \<Rightarrow> nat option" where
  "findIndex P [] = None"
| "findIndex P (x # xs) = (if P x then Some 0 else map_option Suc (findIndex P xs))"

definition encodeOrderBy :: "jv \<Rightarrow> thrown + (string \<times> nat) list" where
  "encodeOrderBy orderBy =
     (case orderBy of
        JArr clauses \<Rightarrow>
          if length clauses < 1 \<or> length clauses > 8
          then Inl (invalidSortError ''orderBy requires between 1 and 8 clauses'')
          else and_then (encodeSortClauses clauses 0 {}) (\<lambda>encoded.
            case findIndex (\<lambda>c. unique_field (fst c)) encoded of
              Some i \<Rightarrow>
                if i \<noteq> length encoded - 1
                then Inl (invalidSortError (''orderBy field \"'' @ fst (encoded ! i) @ ''\" must be the final clause''))
                else Inr encoded
            | None \<Rightarrow> Inr encoded)
      | _ \<Rightarrow> Inl (invalidSortError ''orderBy must be an array of sort clauses''))"

section \<open>Queries\<close>

record query_options =
  qo_where :: "props option"
  qo_orderBy :: "jv option"
  qo_limit :: "jnum option"
  qo_after :: "string option"

definition encodeQueryOptions :: "query_options \<Rightarrow> thrown + query_fields" where
  "encodeQueryOptions options =
     and_then (case qo_where options of Some w \<Rightarrow> encodeWhereClause w | None \<Rightarrow> Inr (None, None)) (\<lambda>(c, oc).
     and_then (case qo_orderBy options of
         Some ob \<Rightarrow> and_then (encodeOrderBy ob) (\<lambda>l. Inr (Some l)) | None \<Rightarrow> Inr None) (\<lambda>ob.
     Inr \<lparr>qf_conditions = c, qf_orConditions = oc, qf_orderBy = ob, qf_limit = qo_limit options,
          qf_after = qo_after options\<rparr>))"

definition buildQuery :: "string \<Rightarrow> query_options option \<Rightarrow> thrown + command" where
  "buildQuery collection options =
     and_then (case options of Some q \<Rightarrow> encodeQueryOptions q | None \<Rightarrow> Inr no_query) (\<lambda>fields.
       Inr ([collection], StoreQuery collection fields))"

definition buildSubscribe :: "string \<Rightarrow> query_options \<Rightarrow> thrown + command" where
  "buildSubscribe collection options =
     and_then (encodeQueryOptions options) (\<lambda>fields. Inr ([collection], StoreSubscribe collection fields))"

section \<open>Shaping answers\<close>

datatype shaped = Shaped jv | ShapedUndefined | ShapedInherited string

definition field_not_found :: "string \<Rightarrow> string list \<Rightarrow> thrown" where
  "field_not_found part segments =
     client_error (''Field '' @ part @ '' not found at path '' @
       concat (map (\<lambda>(i, p). if i = 0 then p else CHR ''.'' # p) (zip [0..<length segments] segments)))
       ''FIELD_NOT_FOUND''"

fun shape_walk :: "string list \<Rightarrow> shaped \<Rightarrow> string list \<Rightarrow> thrown + shaped" where
  \<comment> \<open>the loop over \<open>segments.slice(2)\<close>; of the names that a value inherits, those of
      \<open>Object.prototype\<close> are modelled\<close>
  "shape_walk segments value [] = Inr value"
| "shape_walk segments (Shaped v) (part # parts) =
     (case v of
        JObj _ \<Rightarrow>
          (case js_own v part of
             Some w \<Rightarrow> shape_walk segments (Shaped w) parts
           | None \<Rightarrow> if part \<in> set object_proto_names then shape_walk segments (ShapedInherited part) parts
                     else Inl (field_not_found part segments))
      | JArr _ \<Rightarrow>
          (case js_own v part of
             Some w \<Rightarrow> shape_walk segments (Shaped w) parts
           | None \<Rightarrow> if part \<in> set object_proto_names then shape_walk segments (ShapedInherited part) parts
                     else Inl (field_not_found part segments))
      | JBytes _ \<Rightarrow>
          (case js_own v part of
             Some w \<Rightarrow> shape_walk segments (Shaped w) parts
           | None \<Rightarrow> if part \<in> set object_proto_names then shape_walk segments (ShapedInherited part) parts
                     else Inl (field_not_found part segments))
      | _ \<Rightarrow> Inl (field_not_found part segments))"
| "shape_walk segments (ShapedInherited name) (part # parts) =
     (if name = ''__proto__'' \<and> part \<in> set object_proto_names
      then shape_walk segments (if part = ''__proto__'' then Shaped JNull else ShapedInherited part) parts
      else Inl (field_not_found part segments))"
| "shape_walk segments ShapedUndefined (part # parts) = Inl (field_not_found part segments)"

definition shapeGetResult :: "string list \<Rightarrow> jv list \<Rightarrow> thrown + shaped" where
  "shapeGetResult segments rows =
     (if length segments = 1 then Inr (Shaped (JArr rows))
      else case rows of
          [] \<Rightarrow> Inr (if length segments = 2 then Shaped JNull else ShapedUndefined)
        | row # _ \<Rightarrow>
            if length segments = 2 then Inr (Shaped row)
            else shape_walk segments (Shaped row) (drop 2 segments))"

record ok_response =
  ok_value :: "jv option"
  ok_nextCursor :: "string option"
  ok_subId :: "nat option"

definition shapeQueryResult :: "ok_response \<Rightarrow> thrown + jv \<times> string option" where
  \<comment> \<open>the value and the \<open>nextCursor\<close> set on it; on a primitive the assignment throws\<close>
  "shapeQueryResult ok =
     (case (case ok_value ok of None \<Rightarrow> JArr [] | Some JNull \<Rightarrow> JArr [] | Some v \<Rightarrow> v) of
        JBool _ \<Rightarrow> Inl type_error
      | JNum _ \<Rightarrow> Inl type_error
      | JStr _ \<Rightarrow> Inl type_error
      | v \<Rightarrow> Inr (v, ok_nextCursor ok))"

end
