(* ===== verification/StoreWireSpec.thy ===== *)
theory StoreWireSpec
  imports StoreWire
begin

text \<open>
  What the builders of \<open>StoreWire\<close> promise: a write at a field path is the write of the
  nested record, a batch operation carries what the single operation would send, conditions
  are the leaves of the filter, and sort clauses are accepted exactly when well formed.
\<close>

section \<open>Writes at field paths\<close>

fun nest :: "string list \<Rightarrow> jv \<Rightarrow> jv" where
  "nest [] v = v"
| "nest (f # fs) v = JObj [(f, nest fs v)]"

definition field_path_ok :: "string list \<Rightarrow> jv \<Rightarrow> bool" where
  "field_path_ok fs v \<longleftrightarrow> fs \<noteq> [] \<and> wf_nested [(hd fs, nest (tl fs) v)]"

lemma leaves_nest_obj:
  "leaves [(f, nest fs (JObj ps))] = map (\<lambda>(p, w). (f # fs @ p, w)) (leaves ps)"
proof (induction fs arbitrary: f)
  case (Cons g gs)
  have "leaves [(f, nest (g # gs) (JObj ps))] = map (\<lambda>(p, w). (f # p, w)) (leaves [(g, nest gs (JObj ps))])"
    by simp
  then show ?case unfolding Cons by (simp add: case_prod_beta)
qed simp

lemma leaves_nest_leaf: "\<not> is_plain_record v \<Longrightarrow> leaves [(f, nest fs v)] = [(f # fs, v)]"
proof (induction fs arbitrary: f)
  case Nil
  then show ?case by (cases v) simp_all
next
  case (Cons g gs)
  have "leaves [(f, nest (g # gs) v)] = map (\<lambda>(p, w). (f # p, w)) (leaves [(g, nest gs v)])" by simp
  then show ?case unfolding Cons.IH [OF Cons.prems] by simp
qed

lemma nest_prefix: "wf_nested [(f, nest fs (JObj ps))] \<Longrightarrow> prefix_ok (f # fs) \<and> wf_nested ps"
proof (induction fs arbitrary: f)
  case (Cons g gs)
  have "wf_nested [(g, nest gs (JObj ps))]" using Cons.prems by simp
  from Cons.IH [OF this] show ?case using Cons.prems by (simp add: prefix_ok_def)
qed (simp add: prefix_ok_def)

lemma flatten_field:
  assumes "field_path_ok fs v"
  shows "flatten [(joinFieldPath fs, v)] = flatten [(hd fs, nest (tl fs) v)]"
proof -
  obtain f fs' where fs: "fs = f # fs'" using assms by (cases fs) (auto simp: field_path_ok_def)
  have wf: "wf_nested [(f, nest fs' v)]" using assms fs by (simp add: field_path_ok_def)
  have rhs: "flatten [(f, nest fs' v)] = join_leaves [] (leaves [(f, nest fs' v)])" by (rule flatten_leaves [OF wf])
  show ?thesis
  proof (cases "is_plain_record v")
    case False
    have "leaf_path fs" using leaves_leaf_path [OF wf, of fs v] leaves_nest_leaf [OF False] fs by simp
    then have p: "plain_key (joinFieldPath fs)" by (rule leaf_path_plain_key)
    have "flatten [(joinFieldPath fs, v)] = [(joinFieldPath fs, v)]"
      using False p by (cases v) (auto simp: flatten_def full_key_def js_assign_fresh)
    then show ?thesis using rhs leaves_nest_leaf [OF False] fs by (simp add: join_leaves_def)
  next
    case True
    then obtain ps where v: "v = JObj ps" by (cases v) auto
    have pre: "prefix_ok fs" and ps: "wf_nested ps" using nest_prefix [of f fs' ps] wf v fs by auto
    have fl: "flatten_loop (joinFieldPath fs) ps [] = join_leaves fs (leaves ps)"
      using flatten_loop_leaves [OF ps pre, of "[]"] by simp
    have same: "join_leaves fs (leaves ps) = join_leaves [] (leaves [(f, nest fs' v)])"
      using leaves_nest_obj [of f fs' ps] v fs by (simp add: join_leaves_def case_prod_beta)
    have "foldl (\<lambda>r (k, v). js_assign r k v) [] (join_leaves fs (leaves ps)) = [] @ join_leaves fs (leaves ps)"
      using join_leaves_keys [OF ps pre] by (intro foldl_js_assign_fresh) auto
    then show ?thesis using rhs same v fl fs by (simp add: flatten_def full_key_def)
  qed
qed

lemma encode_field_path:
  assumes "field_path_ok fs v"
  shows "encodeWriteValue (JObj [(joinFieldPath fs, v)]) = encodeWriteValue (nest fs v)"
  using assms flatten_field [OF assms] by (cases fs) (simp_all add: encodeWriteValue_def field_path_ok_def)

lemma normalize_segs: "normalizePath (PSegs ss) = Inr ss \<longleftrightarrow> ss \<noteq> [] \<and> [] \<notin> set ss"
  by (auto simp: normalizePath_def Let_def)

lemma field_path_nonempty: "field_path_ok fs v \<Longrightarrow> [] \<notin> set fs"
proof -
  have "wf_nested [(f, nest fs v)] \<Longrightarrow> f \<noteq> [] \<and> [] \<notin> set fs" for f fs
    by (induction fs arbitrary: f) auto
  then show "field_path_ok fs v \<Longrightarrow> [] \<notin> set fs" by (cases fs) (auto simp: field_path_ok_def)
qed

text \<open>C15: Setting a value at a field path sends the same message as setting the record nested
  along that path at the document: the two forms of an update agree on the wire.\<close>

theorem buildSet_field_path:
  assumes "field_path_ok fs v" "collection \<noteq> []" "did \<noteq> []"
  shows "buildSet (PSegs (collection # did # fs)) v confirm src
    = buildSet (PSegs [collection, did]) (nest fs v) confirm src"
proof -
  have "fs \<noteq> []" "[] \<notin> set fs" using assms(1) field_path_nonempty by (auto simp: field_path_ok_def)
  then have n: "normalizePath (PSegs (collection # did # fs)) = Inr (collection # did # fs)"
    "normalizePath (PSegs [collection, did]) = Inr [collection, did]"
    using assms by (simp_all add: normalize_segs)
  have "encodeWriteValue (wire_value (collection # did # fs) v) = encodeWriteValue (wire_value [collection, did] (nest fs v))"
    using \<open>fs \<noteq> []\<close> encode_field_path [OF assms(1)] by (cases fs) (simp_all add: wire_value_def)
  then show ?thesis using \<open>fs \<noteq> []\<close> by (simp add: buildSet_def n)
qed

lemma buildSet_field_path_witness:
  "buildSet (PSegs [''users'', ''u1'', ''address'', ''city'']) (JStr ''Oslo'') None (uuid_init, 0, [])
    = buildSet (PSegs [''users'', ''u1'']) (JObj [(''address'', JObj [(''city'', JStr ''Oslo'')])]) None (uuid_init, 0, [])"
  using buildSet_field_path [of "[''address'', ''city'']" "JStr ''Oslo''" "''users''" "''u1''" None "(uuid_init, 0, [])"]
  by (simp add: field_path_ok_def is_index_key_def ends_u_def is_digit_def)

section \<open>Batches\<close>

definition op_message :: "batch_operation \<Rightarrow> uuid_source \<Rightarrow> thrown + command \<times> uuid_state" where
  \<comment> \<open>the single operation that a batch operation stands for\<close>
  "op_message op src =
     (if bop_op op = ''set''
      then buildSet (bop_path op) (case bop_value op of Some v \<Rightarrow> v | None \<Rightarrow> JNull) None src
      else buildRemove (bop_path op) None src)"

definition same_write :: "batch_op \<Rightarrow> store_message \<Rightarrow> bool" where
  "same_write b m = (case b of BSet p v \<Rightarrow> m = StoreSet p v None None | BRemove p \<Rightarrow> m = StoreRemove p None None)"

lemma buildBatchOp_single:
  "buildBatchOp op = Inr b \<Longrightarrow> \<exists>segs m g. op_message op src = Inr ((segs, m), g) \<and> same_write b m"
proof -
  assume b: "buildBatchOp op = Inr b"
  then obtain segs where n: "normalizePath (bop_path op) = Inr segs"
    by (auto simp: buildBatchOp_def split: if_splits)
  show ?thesis using b n
    by (cases src) (auto simp: buildBatchOp_def op_message_def buildSet_def buildRemove_def writeIdFor_def Let_def
      same_write_def split: if_splits)
qed

lemma normalizePath_nonempty: "normalizePath p = Inr segs \<Longrightarrow> segs \<noteq> []"
  by (auto simp: normalizePath_def Let_def split: if_splits path_arg.splits)

lemma buildBatchOp_Inl:
  assumes "bop_op op = ''set'' \<or> bop_op op = ''remove''" "op_message op src = Inr ((segs, m), g)"
  shows "\<exists>b. buildBatchOp op = Inr b"
proof -
  obtain ss where n: "normalizePath (bop_path op) = Inr ss"
    using assms(2) by (auto simp: op_message_def buildSet_def buildRemove_def split: if_splits)
  then have "ss \<noteq> []" by (rule normalizePath_nonempty)
  then have "length ss < 2 \<longleftrightarrow> length ss = 1" by (cases ss) (auto simp: less_Suc_eq)
  then show ?thesis using assms n
    by (cases src) (auto simp: buildBatchOp_def op_message_def buildSet_def buildRemove_def Let_def split: if_splits)
qed

text \<open>C16: A batch is accepted exactly when it has at most 500 operations, each of a known kind
  and valid on its own; it then carries, in order, for each operation the path and value that
  the single \<open>set\<close> or \<open>remove\<close> would send, and it takes a write id only to confirm commits.\<close>

theorem buildBatch_spec:
  "(case buildBatch ops confirm (g, msecs, random) of
      Inr (StoreBatch bs c wid, g') \<Rightarrow>
        length ops \<le> 500
        \<and> list_all2 (\<lambda>op b. \<exists>segs m g2. op_message op (g, msecs, random) = Inr ((segs, m), g2) \<and> same_write b m) ops bs
        \<and> (if confirm = Some ''committed'' then wid \<noteq> None else wid = None \<and> g' = g)
    | Inr _ \<Rightarrow> False
    | Inl e \<Rightarrow>
        length ops > 500 \<or> (\<exists>op. op \<in> set ops
          \<and> \<not> (bop_op op \<in> {''set'', ''remove''} \<and> (\<exists>r. op_message op (g, msecs, random) = Inr r))))"
proof (cases "length ops > 500")
  case True
  then show ?thesis by (simp add: buildBatch_def)
next
  case False
  show ?thesis
  proof (cases "traverse buildBatchOp ops")
    case (Inl e)
    then have "\<exists>op \<in> set ops. \<forall>b. buildBatchOp op \<noteq> Inr b"
      using traverse_Inr [of ops buildBatchOp "\<lambda>op. projr (buildBatchOp op)"] by force
    then obtain op where op: "op \<in> set ops" "\<forall>b. buildBatchOp op \<noteq> Inr b" by blast
    have "\<not> (bop_op op \<in> {''set'', ''remove''} \<and> (\<exists>r. op_message op (g, msecs, random) = Inr r))"
      using buildBatchOp_Inl [of op "(g, msecs, random)"] op(2) by auto
    then show ?thesis using False Inl op(1) by (auto simp: buildBatch_def)
  next
    case (Inr bs)
    then have "list_all2 (\<lambda>op b. \<exists>segs m g2. op_message op (g, msecs, random) = Inr ((segs, m), g2) \<and> same_write b m) ops bs"
      unfolding traverse_eq_Inr by (rule list_all2_mono) (rule buildBatchOp_single)
    then show ?thesis using False Inr by (simp add: buildBatch_def writeIdFor_def)
  qed
qed

section \<open>Conditions\<close>

fun plain_filter :: "props \<Rightarrow> bool" where
  \<comment> \<open>no nested record has an operator name, or a name that \<open>in\<close> finds on a prototype\<close>
  "plain_filter [] = True"
| "plain_filter ((k, v) # rest) =
     ((case v of JObj ps \<Rightarrow> op_keys ps = [] \<and> plain_filter ps | _ \<Rightarrow> True) \<and> plain_filter rest)"

fun names_ok :: "props \<Rightarrow> bool" where
  "names_ok [] = True"
| "names_ok ((k, v) # rest) = (k \<noteq> [] \<and> (case v of JObj ps \<Rightarrow> names_ok ps | _ \<Rightarrow> True) \<and> names_ok rest)"

lemma encodeConditionObject_leaves:
  "[] \<notin> set pre \<Longrightarrow> plain_filter f \<Longrightarrow> names_ok f \<Longrightarrow>
   encodeConditionObject (joinFieldPath pre) f
     = map (\<lambda>(p, v). (joinFieldPath (pre @ p), OpCode 0, Some v)) (leaves f)"
proof (induction f arbitrary: pre rule: leaves.induct)
  case (2 k v rest)
  have rest: "encodeConditionObject (joinFieldPath pre) rest
      = map (\<lambda>(p, v). (joinFieldPath (pre @ p), OpCode 0, Some v)) (leaves rest)"
    using 2 by simp
  show ?case
  proof (cases v)
    case (JObj ps)
    have "encodeConditionObject (joinFieldPath (pre @ [k])) ps
        = map (\<lambda>(p, v). (joinFieldPath ((pre @ [k]) @ p), OpCode 0, Some v)) (leaves ps)"
      using "2.prems" JObj by (intro "2.IH"(1) [OF JObj]) auto
    then show ?thesis using rest "2.prems" JObj by (simp add: full_key_join case_prod_beta)
  qed (use rest "2.prems" in \<open>simp_all add: full_key_join\<close>)
qed simp

fun condition_codes_ok :: "wire_condition list \<Rightarrow> bool" where
  "condition_codes_ok cs = (\<forall>(k, c, v) \<in> set cs. \<exists>n. c = OpCode n \<and> n \<le> 12)"

fun no_inherited :: "props \<Rightarrow> bool" where
  \<comment> \<open>no property name of a nested record is one that every object inherits\<close>
  "no_inherited [] = True"
| "no_inherited ((k, v) # rest) =
     ((case v of JObj ps \<Rightarrow> set (map fst ps) \<inter> set object_proto_names = {} \<and> no_inherited ps | _ \<Rightarrow> True)
      \<and> no_inherited rest)"

lemma OP_CODES_range: "map_of OP_CODES op = Some n \<Longrightarrow> n \<le> 12"
  by (auto simp: OP_CODES_def split: if_splits)

lemma operator_codes_ok:
  assumes "set (map fst ps) \<inter> set object_proto_names = {}"
  shows "condition_codes_ok (encodeOperatorObject k ps (op_keys ps))"
proof -
  have "\<exists>n. the (op_code_of op) = OpCode n \<and> n \<le> 12" if "op \<in> set (op_keys ps)" for op
  proof -
    have "op \<notin> set object_proto_names" "op_code_of op \<noteq> None"
      using assms that unfolding op_keys_def by auto
    then show ?thesis by (auto simp: op_code_of_def dest: OP_CODES_range split: option.splits)
  qed
  then show ?thesis by (auto simp: encodeOperatorObject_def)
qed

lemma condition_codes: "no_inherited f \<Longrightarrow> condition_codes_ok (encodeConditionObject prefix f)"
proof (induction prefix f rule: encodeConditionObject.induct)
  case (2 prefix key val rest)
  have "condition_codes_ok (encodeConditionObject prefix rest)" using 2 by simp
  moreover have "condition_codes_ok (case val of JObj value \<Rightarrow>
      if op_keys value \<noteq> [] then encodeOperatorObject (full_key prefix key) value (op_keys value)
      else encodeConditionObject (full_key prefix key) value
    | _ \<Rightarrow> [(full_key prefix key, OpCode 0, Some val)])"
  proof (cases val)
    case (JObj ps)
    have ps: "set (map fst ps) \<inter> set object_proto_names = {}" "no_inherited ps"
      using "2.prems" JObj by simp_all
    show ?thesis
    proof (cases "op_keys ps = []")
      case True
      then show ?thesis using "2.IH"(1) [OF JObj] ps JObj by simp
    next
      case False
      then show ?thesis using operator_codes_ok [OF ps(1)] JObj by (simp del: condition_codes_ok.simps)
    qed
  qed simp_all
  ultimately show ?case by auto
qed simp

text \<open>C18: A filter of plain values means equality on its leaves: the conditions are exactly the
  leaf values of the nested filter, each under its joined path with the code of \<open>eq\<close>, in
  order, and \<open>or\<close> is left out of them.\<close>

theorem encodeWhereClause_leaves:
  assumes "plain_filter f" "names_ok f" "om_get f ''or'' = None" "f \<noteq> []" "leaves f \<noteq> []"
  shows "encodeWhereClause f
    = Inr (Some (map (\<lambda>(p, v). (joinFieldPath p, OpCode 0, Some v)) (leaves f)), None)"
proof -
  have "encodeConditionObject (joinFieldPath []) f = map (\<lambda>(p, v). (joinFieldPath ([] @ p), OpCode 0, Some v)) (leaves f)"
    using assms by (intro encodeConditionObject_leaves) simp_all
  then show ?thesis using assms by (simp add: encodeWhereClause_def Let_def om_delete_absent)
qed

lemma encodeWhereClause_leaves_witness:
  "encodeWhereClause [(''age'', JNum (Fin 3)), (''address'', JObj [(''city'', JStr ''Oslo'')])]
    = Inr (Some [(''age'', OpCode 0, Some (JNum (Fin 3))), (''address__city'', OpCode 0, Some (JStr ''Oslo''))], None)"
  using encodeWhereClause_leaves [of "[(''age'', JNum (Fin 3)), (''address'', JObj [(''city'', JStr ''Oslo'')])]"]
  by (simp add: op_keys_def op_code_of_def OP_CODES_def object_proto_names_def)

lemma traverse_mem: "traverse f xs = Inr ys \<Longrightarrow> y \<in> set ys \<Longrightarrow> \<exists>x \<in> set xs. f x = Inr y"
  by (induction xs arbitrary: ys) auto

lemma where_parts:
  assumes "encodeWhereClause f = Inr (c, oc)"
  shows "(c = None \<or> c = Some (encodeConditionObject [] (om_delete f ''or'')))
      \<and> (oc = None \<or> (\<exists>alts cs. om_get f ''or'' = Some (JArr alts) \<and> extractOrConditions alts = Inr cs \<and> oc = Some cs))"
proof (cases "\<exists>alts. om_get f ''or'' = Some (JArr alts)")
  case True
  then show ?thesis using assms by (auto simp: encodeWhereClause_def Let_def split: if_splits)
next
  case False
  then show ?thesis using assms
    by (cases "om_get f ''or''") (auto simp: encodeWhereClause_def Let_def split: jv.splits if_splits)
qed

text \<open>Every condition sent has one of the thirteen operator codes, in the conjunction and
  in each alternative of \<open>or\<close>, as long as no nested record in the filter has a field named
  like a property that all objects inherit.\<close>

theorem encodeWhereClause_codes:
  assumes "no_inherited f" "\<forall>alts. om_get f ''or'' = Some (JArr alts) \<longrightarrow> (\<forall>v \<in> set alts. \<exists>g. v = JObj g \<and> no_inherited g)"
    and "encodeWhereClause f = Inr (c, oc)"
  shows "(case c of Some cs \<Rightarrow> condition_codes_ok cs | None \<Rightarrow> True)
    \<and> (case oc of Some cs \<Rightarrow> condition_codes_ok cs | None \<Rightarrow> True)"
proof -
  have "no_inherited (om_delete f k)" for k
    using assms(1) unfolding om_delete_def by (induction f rule: no_inherited.induct) auto
  then have c1: "condition_codes_ok (encodeConditionObject [] (om_delete f ''or''))" by (rule condition_codes)
  have c2: "condition_codes_ok cs" if alts: "om_get f ''or'' = Some (JArr alts)" and ex: "extractOrConditions alts = Inr cs" for alts cs
  proof -
    obtain gs where g: "traverse object_entries alts = Inr gs" "cs = concat (map (encodeConditionObject []) gs)"
      using ex by (auto simp: extractOrConditions_def)
    have "no_inherited g" if mem: "g \<in> set gs" for g
    proof -
      obtain v where v: "v \<in> set alts" "object_entries v = Inr g" using traverse_mem [OF g(1) mem] by blast
      then obtain g' where "v = JObj g'" "no_inherited g'" using assms(2) alts by blast
      with v(2) show ?thesis by (simp add: object_entries_def)
    qed
    then have "\<forall>g \<in> set gs. condition_codes_ok (encodeConditionObject [] g)" using condition_codes by blast
    then show ?thesis unfolding g(2) by auto
  qed
  have "(c = None \<or> c = Some (encodeConditionObject [] (om_delete f ''or'')))
      \<and> (oc = None \<or> (\<exists>alts cs. om_get f ''or'' = Some (JArr alts) \<and> extractOrConditions alts = Inr cs \<and> oc = Some cs))"
    by (rule where_parts [OF assms(3)])
  then show ?thesis using c1 c2 by (auto simp del: condition_codes_ok.simps)
qed

lemma encodeWhereClause_codes_witness:
  "condition_codes_ok [(''age'', OpCode 2, Some (JNum (Fin 3)))]"
proof -
  have "encodeWhereClause [(''age'', JObj [(''gt'', JNum (Fin 3))])] = Inr (Some [(''age'', OpCode 2, Some (JNum (Fin 3)))], None)"
    by code_simp
  from encodeWhereClause_codes [OF _ _ this] show ?thesis by (simp add: object_proto_names_def)
qed

text \<open>The test \<open>op in OP_CODES\<close> also finds inherited names: a filter on a nested field
  called \<open>constructor\<close> is taken for an operator, its code is a function and not a number, and
  the condition on the nested field is not sent.\<close>

theorem inherited_name_taken_for_operator:
  "encodeWhereClause [(''meta'', JObj [(''constructor'', v)])]
     = Inr (Some [(''meta'', OpInherited ''constructor'', Some v)], None)"
  by (simp add: encodeWhereClause_def om_delete_def op_keys_def op_code_of_def OP_CODES_def
    object_proto_names_def encodeOperatorObject_def full_key_def)

section \<open>Sort clauses\<close>

lemma findIndex_Some: "findIndex P xs = Some i \<Longrightarrow> i < length xs \<and> P (xs ! i) \<and> (\<forall>j < i. \<not> P (xs ! j))"
proof (induction xs arbitrary: i)
  case (Cons x xs)
  then show ?case by (cases i) (auto simp: less_Suc_eq_0_disj split: if_splits)
qed simp

lemma findIndex_None: "findIndex P xs = None \<longleftrightarrow> (\<forall>x \<in> set xs. \<not> P x)"
  by (induction xs) auto

definition clause_of :: "string \<Rightarrow> bool \<Rightarrow> jv" where
  "clause_of field desc = JObj [(field, JStr (if desc then ''desc'' else ''asc''))]"

lemma encodeSortClause_ok:
  "encodeSortClause clause i seen = Inr c \<longleftrightarrow>
   (\<exists>field desc. own_entries clause = Some [(field, JStr (if desc then ''desc'' else ''asc''))]
      \<and> sort_field field \<notin> seen \<and> c = (sort_field field, if desc then 1 else 0))"
proof
  assume "encodeSortClause clause i seen = Inr c"
  then obtain field dir where *: "own_entries clause = Some [(field, dir)]"
    "dir = JStr ''asc'' \<or> dir = JStr ''desc''" "sort_field field \<notin> seen"
    "c = (sort_field field, if dir = JStr ''desc'' then 1 else 0)"
    by (auto simp: encodeSortClause_def split: option.splits list.splits if_splits)
  then show "\<exists>field desc. own_entries clause = Some [(field, JStr (if desc then ''desc'' else ''asc''))]
      \<and> sort_field field \<notin> seen \<and> c = (sort_field field, if desc then 1 else 0)"
    by (intro exI [of _ field] exI [of _ "dir = JStr ''desc''"]) auto
qed (auto simp: encodeSortClause_def)

lemma own_entries_str: "own_entries v = Some [(f, JStr d)] \<longleftrightarrow> v = JObj [(f, JStr d)]"
proof -
  have "map (\<lambda>i. (show_nat i, JNum (nat_num (unat ((bs :: byte list) ! i))))) [0..<length bs] \<noteq> [(f, JStr d)]" for bs
    by (cases "length bs") (auto simp: upt_conv_Cons simp del: upt_Suc)
  then show ?thesis by (auto simp: own_entries_def split: jv.splits)
qed

definition clauses_of :: "(string \<times> bool) list \<Rightarrow> jv list" where
  "clauses_of fds = map (\<lambda>x. clause_of (fst x) (snd x)) fds"

definition pairs_of :: "(string \<times> bool) list \<Rightarrow> (string \<times> nat) list" where
  \<comment> \<open>the wire form of sort clauses\<close>
  "pairs_of fds = map (\<lambda>x. (sort_field (fst x), if snd x then 1 else 0)) fds"

lemma sort_lists [simp]:
  "clauses_of [] = []" "clauses_of (x # xs) = clause_of (fst x) (snd x) # clauses_of xs"
  "pairs_of [] = []" "pairs_of (x # xs) = (sort_field (fst x), if snd x then 1 else 0) # pairs_of xs"
  "length (clauses_of xs) = length xs" "length (pairs_of xs) = length xs"
  "i < length xs \<Longrightarrow> fst (pairs_of xs ! i) = sort_field (fst (xs ! i))"
  by (simp_all add: clauses_of_def pairs_of_def)

lemma map_fst_pairs_of: "map fst (pairs_of xs) = map (\<lambda>x. sort_field (fst x)) xs"
  by (simp add: pairs_of_def)

lemma clauses_of_Cons_iff:
  "clause # clauses = clauses_of fds \<longleftrightarrow>
   (\<exists>x fds'. fds = x # fds' \<and> clause = clause_of (fst x) (snd x) \<and> clauses = clauses_of fds')"
  by (cases fds) auto

lemma encodeSortClauses_ok:
  "encodeSortClauses clauses i seen = Inr cs \<longleftrightarrow>
   (\<exists>fds. clauses = clauses_of fds \<and> cs = pairs_of fds
      \<and> distinct (map fst cs) \<and> set (map fst cs) \<inter> seen = {})"
proof (induction clauses arbitrary: i seen cs)
  case Nil
  have e: "([] = clauses_of fds) = (fds = [])" for fds by (cases fds) auto
  show ?case unfolding e by (simp only: encodeSortClauses.simps sum.inject) (auto intro: exI [of _ "[]"])
next
  case (Cons clause clauses)
  have "encodeSortClauses (clause # clauses) i seen = Inr cs \<longleftrightarrow>
    (\<exists>x cs'. clause = clause_of (fst x) (snd x) \<and> sort_field (fst x) \<notin> seen
      \<and> cs = (sort_field (fst x), if snd x then 1 else 0) # cs'
      \<and> encodeSortClauses clauses (Suc i) (insert (sort_field (fst x)) seen) = Inr cs')"
    by (auto simp: encodeSortClause_ok own_entries_str clause_of_def)
  also have "\<dots> \<longleftrightarrow> (\<exists>x fds. clause = clause_of (fst x) (snd x) \<and> clauses = clauses_of fds
      \<and> cs = pairs_of (x # fds) \<and> distinct (map fst cs) \<and> set (map fst cs) \<inter> seen = {})"
    unfolding Cons by fastforce
  also have "\<dots> \<longleftrightarrow> (\<exists>fds. clause # clauses = clauses_of fds \<and> cs = pairs_of fds
      \<and> distinct (map fst cs) \<and> set (map fst cs) \<inter> seen = {})"
    unfolding clauses_of_Cons_iff by blast
  finally show ?case .
qed

definition unique_last :: "(string \<times> nat) list \<Rightarrow> bool" where
  \<comment> \<open>a field that orders totally stands last\<close>
  "unique_last cs \<longleftrightarrow> (\<forall>i < length cs. unique_field (fst (cs ! i)) \<longrightarrow> i = length cs - 1)"

lemma unique_last_iff:
  "(case findIndex (\<lambda>c. unique_field (fst c)) cs of
      Some i \<Rightarrow> if i \<noteq> length cs - 1 then Inl (e i) else Inr cs | None \<Rightarrow> Inr cs) = Inr cs'
    \<longleftrightarrow> cs' = cs \<and> unique_last cs"
proof (cases "findIndex (\<lambda>c. unique_field (fst c)) cs")
  case None
  then have "\<forall>x \<in> set cs. \<not> unique_field (fst x)" unfolding findIndex_None .
  then show ?thesis using None by (auto simp: unique_last_def)
next
  case (Some i)
  note f = findIndex_Some [OF Some]
  show ?thesis
  proof (cases "i = length cs - 1")
    case True
    have "j = length cs - 1" if "j < length cs" "unique_field (fst (cs ! j))" for j
      using f that True by (cases "j < i") auto
    then show ?thesis using Some True by (auto simp: unique_last_def)
  qed (use Some f in \<open>auto simp: unique_last_def\<close>)
qed

lemma encodeOrderBy_array:
  "encodeOrderBy (JArr clauses) = Inr cs \<longleftrightarrow>
    1 \<le> length clauses \<and> length clauses \<le> 8 \<and> encodeSortClauses clauses 0 {} = Inr cs \<and> unique_last cs"
proof (cases "length clauses < 1 \<or> length clauses > 8")
  case True
  then show ?thesis by (auto simp: encodeOrderBy_def)
next
  case False
  then have "encodeOrderBy (JArr clauses) = and_then (encodeSortClauses clauses 0 {}) (\<lambda>cs.
      case findIndex (\<lambda>c. unique_field (fst c)) cs of
        Some i \<Rightarrow>
          if i \<noteq> length cs - 1
          then Inl (invalidSortError (''orderBy field \"'' @ fst (cs ! i) @ ''\" must be the final clause''))
          else Inr cs
      | None \<Rightarrow> Inr cs)"
    by (simp only: encodeOrderBy_def jv.case if_False)
  then have "encodeOrderBy (JArr clauses) = Inr cs \<longleftrightarrow>
      (\<exists>es. encodeSortClauses clauses 0 {} = Inr es \<and> cs = es \<and> unique_last es)"
    by (simp only: and_then_eq_Inr unique_last_iff)
  moreover have "1 \<le> length clauses" "length clauses \<le> 8" using False by linarith+
  ultimately show ?thesis by blast
qed

text \<open>C17: \<open>encodeOrderBy\<close> accepts exactly the arrays of one to eight clauses that each name one
  field and a direction, with distinct wire fields, and with \<open>id\<close> or \<open>created_at\<close> only as the
  last; it then sends the fields in order, dots turned into the delimiter, with the
  descending flag.\<close>

theorem encodeOrderBy_spec:
  "encodeOrderBy orderBy = Inr cs \<longleftrightarrow>
   (\<exists>fds. orderBy = JArr (clauses_of fds) \<and> 1 \<le> length fds \<and> length fds \<le> 8
      \<and> distinct (map (\<lambda>x. sort_field (fst x)) fds) \<and> unique_last cs \<and> cs = pairs_of fds)"
proof (cases orderBy)
  case (JArr clauses)
  show ?thesis unfolding JArr encodeOrderBy_array encodeSortClauses_ok
    by (auto simp: map_fst_pairs_of)
qed (simp_all add: encodeOrderBy_def)

section \<open>Answers\<close>

lemma shape_walk_own:
  "getDeepProperty (Some v) parts = Some w \<Longrightarrow>
   shape_walk segments (Shaped v) parts = Inr (Shaped w)"
proof (induction parts arbitrary: v)
  case (Cons part parts)
  then show ?case
    by (cases v; cases "js_own v part") auto
qed simp

text \<open>A get is shaped by the depth of its path: all rows for a collection, the row or null
  for a document, the value at the path for a field, which is what \<open>getDeepProperty\<close> reads;
  a field path into a missing document is undefined and one into a record that lacks the
  field is a client error.\<close>

theorem shapeGetResult_spec:
  "shapeGetResult [c] rows = Inr (Shaped (JArr rows))
   \<and> shapeGetResult [c, d] rows = Inr (Shaped (case rows of [] \<Rightarrow> JNull | row # _ \<Rightarrow> row))
   \<and> shapeGetResult (c # d # f # fs) [] = Inr ShapedUndefined
   \<and> (getDeepProperty (Some row) (f # fs) = Some w \<longrightarrow>
        shapeGetResult (c # d # f # fs) (row # others) = Inr (Shaped w))
   \<and> (om_get ps f = None \<and> f \<notin> set object_proto_names \<longrightarrow>
        shapeGetResult (c # d # f # fs) (JObj ps # others) = Inl (field_not_found f (c # d # f # fs)))"
  using shape_walk_own [of row "f # fs" w "c # d # f # fs"]
  by (auto simp: shapeGetResult_def split: list.splits)

lemma shapeGetResult_spec_witness:
  "shapeGetResult [''users'', ''u1'', ''name''] [JObj [(''name'', JStr ''Ann'')]] = Inr (Shaped (JStr ''Ann''))"
  using shapeGetResult_spec [of "''users''" "[]" "''u1''" "''name''" "[]" "JObj [(''name'', JStr ''Ann'')]" "JStr ''Ann''" "[]" "[]"]
  by simp

end
