(* ===== verification/SortOrder.thy ===== *)
theory SortOrder
  imports Prelude "HOL-Library.Multiset"
begin

text \<open>
  The contract of a comparison function in the sense of \<open>Array.prototype.sort\<close>: its sign is
  that of a total preorder on the values it is used on. The facts about sorting with such a
  function are proved once in the locale; the constructions by which the comparators of the
  client are put together (pulling back along a field, reversing, sorting missing values
  last, one clause after the other) each keep the contract.
\<close>

section \<open>The contract\<close>

locale sort_order =
  fixes cmp :: "'a \<Rightarrow> 'a \<Rightarrow> int"
    and ok :: "'a \<Rightarrow> bool"
  assumes flip: "ok a \<Longrightarrow> ok b \<Longrightarrow> 0 < cmp a b \<longleftrightarrow> cmp b a < 0"
    and trans: "ok a \<Longrightarrow> ok b \<Longrightarrow> ok c \<Longrightarrow> cmp a b \<le> 0 \<Longrightarrow> cmp b c \<le> 0 \<Longrightarrow> cmp a c \<le> 0"

fun insert_sorted :: "('a \<Rightarrow> 'a \<Rightarrow> int) \<Rightarrow> 'a \<Rightarrow> 'a list \<Rightarrow> 'a list" where
  \<comment> \<open>after every element that does not compare greater\<close>
  "insert_sorted cmp x [] = [x]"
| "insert_sorted cmp x (y # ys) = (if cmp y x \<le> 0 then y # insert_sorted cmp x ys else x # y # ys)"

definition js_sort :: "('a \<Rightarrow> 'a \<Rightarrow> int) \<Rightarrow> 'a list \<Rightarrow> 'a list" where
  \<comment> \<open>\<open>Array.prototype.sort\<close>: for a function that keeps the contract the stable sorted
      permutation is the only one; for another the engine's order is not specified\<close>
  "js_sort cmp xs = foldl (\<lambda>acc x. insert_sorted cmp x acc) [] xs"

lemma mset_insert_sorted [simp]: "mset (insert_sorted cmp x ys) = add_mset x (mset ys)"
  by (induction ys) auto

lemma set_insert_sorted [simp]: "set (insert_sorted cmp x ys) = insert x (set ys)"
  by (induction ys) auto

lemma mset_js_sort [simp]: "mset (js_sort cmp xs) = mset xs"
proof -
  have "mset (foldl (\<lambda>acc x. insert_sorted cmp x acc) acc xs) = mset acc + mset xs" for acc
    by (induction xs arbitrary: acc) auto
  then show ?thesis by (simp add: js_sort_def)
qed

lemma set_js_sort [simp]: "set (js_sort cmp xs) = set xs"
  by (metis mset_js_sort set_mset_mset)

lemma length_js_sort [simp]: "length (js_sort cmp xs) = length xs"
  by (metis mset_js_sort size_mset)

lemma insert_sorted_last: "\<forall>y \<in> set ys. cmp y x \<le> 0 \<Longrightarrow> insert_sorted cmp x ys = ys @ [x]"
  by (induction ys) auto

abbreviation sorted_by :: "('a \<Rightarrow> 'a \<Rightarrow> int) \<Rightarrow> 'a list \<Rightarrow> bool" where
  "sorted_by cmp \<equiv> sorted_wrt (\<lambda>a b. cmp a b \<le> 0)"

lemma js_sort_id: "sorted_by cmp xs \<Longrightarrow> js_sort cmp xs = xs"
proof -
  have "sorted_by cmp (acc @ xs) \<Longrightarrow> foldl (\<lambda>acc x. insert_sorted cmp x acc) acc xs = acc @ xs" for acc
    by (induction xs arbitrary: acc) (auto simp: insert_sorted_last sorted_wrt_append)
  from this [of "[]"] show "sorted_by cmp xs \<Longrightarrow> js_sort cmp xs = xs" by (simp add: js_sort_def)
qed

context sort_order begin

lemma refl [simp]: "ok a \<Longrightarrow> cmp a a = 0"
  using flip [of a a] by linarith

lemma zero_flip: "ok a \<Longrightarrow> ok b \<Longrightarrow> cmp a b = 0 \<longleftrightarrow> cmp b a = 0"
  using flip [of a b] flip [of b a] by linarith

lemma le_total: "ok a \<Longrightarrow> ok b \<Longrightarrow> \<not> cmp a b \<le> 0 \<Longrightarrow> cmp b a \<le> 0"
  using flip [of a b] by linarith

lemma trans_less: "ok a \<Longrightarrow> ok b \<Longrightarrow> ok c \<Longrightarrow> cmp a b < 0 \<Longrightarrow> cmp b c \<le> 0 \<Longrightarrow> cmp a c < 0"
  using trans [of a b c] trans [of b c a] flip [of a b] flip [of b a] flip [of a c] flip [of c a]
  by linarith

lemma trans_less2: "ok a \<Longrightarrow> ok b \<Longrightarrow> ok c \<Longrightarrow> cmp a b \<le> 0 \<Longrightarrow> cmp b c < 0 \<Longrightarrow> cmp a c < 0"
  using trans [of a b c] trans [of c a b] flip [of c b] flip [of b c] flip [of a c] flip [of c a]
  by linarith

lemma insert_sorted_sorted:
  "\<forall>y \<in> insert x (set ys). ok y \<Longrightarrow> sorted_by cmp ys \<Longrightarrow> sorted_by cmp (insert_sorted cmp x ys)"
proof (induction ys)
  case (Cons y ys)
  show ?case
  proof (cases "cmp y x \<le> 0")
    case True
    then show ?thesis using Cons by auto
  next
    case False
    then have "cmp x y \<le> 0" using le_total Cons.prems by simp
    moreover have "cmp x z \<le> 0" if "z \<in> set ys" for z
      using trans [of x y z] that Cons.prems \<open>cmp x y \<le> 0\<close> by simp
    ultimately show ?thesis using Cons False by simp
  qed
qed simp

lemma js_sort_sorted: "\<forall>x \<in> set xs. ok x \<Longrightarrow> sorted_by cmp (js_sort cmp xs)"
proof -
  have "\<forall>x \<in> set acc \<union> set xs. ok x \<Longrightarrow> sorted_by cmp acc \<Longrightarrow>
      sorted_by cmp (foldl (\<lambda>acc x. insert_sorted cmp x acc) acc xs)" for acc
    by (induction xs arbitrary: acc) (auto simp: insert_sorted_sorted)
  from this [of "[]"] show "\<forall>x \<in> set xs. ok x \<Longrightarrow> sorted_by cmp (js_sort cmp xs)"
    by (simp add: js_sort_def)
qed

text \<open>Elements that compare equal keep their order.\<close>

lemma insert_sorted_stable:
  "\<forall>y \<in> insert x (set ys). ok y \<Longrightarrow> sorted_by cmp ys \<Longrightarrow> ok z \<Longrightarrow>
   filter (\<lambda>y. cmp y z = 0) (insert_sorted cmp x ys)
     = filter (\<lambda>y. cmp y z = 0) ys @ (if cmp x z = 0 then [x] else [])"
proof (induction ys)
  case (Cons y ys)
  show ?case
  proof (cases "cmp y x \<le> 0")
    case True
    then show ?thesis using Cons by simp
  next
    case False
    then have xy: "cmp x y < 0" using flip [of y x] Cons.prems by simp
    have "cmp u z \<noteq> 0" if "cmp x z = 0" "u \<in> set (y # ys)" for u
    proof
      assume u: "cmp u z = 0"
      have "cmp x u < 0" using xy that(2) Cons.prems trans_less [of x y u] by auto
      moreover have "cmp z x \<le> 0" using that(1) zero_flip [of x z] Cons.prems by simp
      ultimately have "cmp z u < 0" using trans_less2 [of z x u] that Cons.prems by auto
      then show False using u zero_flip [of u z] that Cons.prems by auto
    qed
    then have "cmp x z = 0 \<Longrightarrow> filter (\<lambda>y. cmp y z = 0) (y # ys) = []"
      by (auto simp: filter_empty_conv simp del: filter.simps)
    then show ?thesis using False by (auto simp del: filter.simps(2) simp: filter.simps(2) [of _ x])
  qed
qed simp

lemma js_sort_stable:
  assumes "\<forall>x \<in> set xs. ok x" "ok z"
  shows "filter (\<lambda>y. cmp y z = 0) (js_sort cmp xs) = filter (\<lambda>y. cmp y z = 0) xs"
proof -
  have "\<forall>x \<in> set acc \<union> set xs. ok x \<Longrightarrow> sorted_by cmp acc \<Longrightarrow>
      filter (\<lambda>y. cmp y z = 0) (foldl (\<lambda>acc x. insert_sorted cmp x acc) acc xs)
        = filter (\<lambda>y. cmp y z = 0) acc @ filter (\<lambda>y. cmp y z = 0) xs" for acc
  proof (induction xs arbitrary: acc)
    case (Cons x xs)
    then show ?case using insert_sorted_stable [of x acc z] insert_sorted_sorted [of x acc] assms(2) by simp
  qed simp
  from this [of "[]"] show ?thesis using assms(1) by (simp add: js_sort_def)
qed

text \<open>A sorted list is determined by its elements when distinct ones never compare equal.\<close>

lemma sorted_unique:
  assumes "sorted_by cmp xs" "sorted_by cmp ys" "mset xs = mset ys" "\<forall>x \<in> set xs. ok x"
    and "\<forall>x \<in> set xs. \<forall>y \<in> set xs. cmp x y = 0 \<longrightarrow> x = y"
  shows "xs = ys"
  using assms
proof (induction xs arbitrary: ys)
  case (Cons x xs)
  obtain y ys' where ys: "ys = y # ys'" using Cons.prems(3) by (cases ys) auto
  have sets: "set (x # xs) = set (y # ys')" using Cons.prems(3) ys by (metis mset_eq_setD)
  have "x = y"
  proof (rule ccontr)
    assume ne: "x \<noteq> y"
    then have "x \<in> set ys'" "y \<in> set xs" using sets by auto
    then have "cmp y x \<le> 0" "cmp x y \<le> 0" using Cons.prems ys by auto
    moreover have "ok x" "ok y" using Cons.prems(4) \<open>y \<in> set xs\<close> by auto
    ultimately have "cmp x y = 0" using flip [of x y] flip [of y x] by linarith
    then show False using ne Cons.prems(5) \<open>y \<in> set xs\<close> by auto
  qed
  then show ?case using Cons ys by auto
qed simp

lemma js_sort_permutation:
  assumes "mset xs = mset ys" "\<forall>x \<in> set xs. ok x" "\<forall>x \<in> set xs. \<forall>y \<in> set xs. cmp x y = 0 \<longrightarrow> x = y"
  shows "js_sort cmp xs = js_sort cmp ys"
proof -
  have "set xs = set ys" using assms(1) by (rule mset_eq_setD)
  then show ?thesis using assms by (intro sorted_unique js_sort_sorted) auto
qed

end

text \<open>A comparison that tells distinct values apart.\<close>

locale strict_sort_order = sort_order +
  assumes zero_eq: "ok a \<Longrightarrow> ok b \<Longrightarrow> cmp a b = 0 \<Longrightarrow> a = b"
begin

lemma js_sort_perm: "mset xs = mset ys \<Longrightarrow> \<forall>x \<in> set xs. ok x \<Longrightarrow> js_sort cmp xs = js_sort cmp ys"
  using zero_eq by (intro js_sort_permutation) blast+

end

section \<open>Constructions\<close>

lemma sort_order_pullback:
  assumes c: "sort_order c P"
  shows "sort_order (\<lambda>x y. c (f x) (f y)) (\<lambda>x. P (f x))"
  by (rule sort_order.intro) (rule sort_order.flip [OF c], assumption+, rule sort_order.trans [OF c], assumption+)

lemma sort_order_weaken:
  assumes c: "sort_order c P" and Q: "\<And>x. Q x \<Longrightarrow> P x"
  shows "sort_order c Q"
proof (rule sort_order.intro)
  show "0 < c a b \<longleftrightarrow> c b a < 0" if "Q a" "Q b" for a b
    using sort_order.flip [OF c Q Q, OF that] .
  show "c a e \<le> 0" if "Q a" "Q b" "Q e" "c a b \<le> 0" "c b e \<le> 0" for a b e
    using sort_order.trans [OF c Q Q Q, OF that] .
qed

lemma sort_order_cong:
  assumes eq: "\<And>a b. P a \<Longrightarrow> P b \<Longrightarrow> c a b = d a b" and d: "sort_order d P"
  shows "sort_order c P"
proof (rule sort_order.intro)
  show "0 < c a b \<longleftrightarrow> c b a < 0" if "P a" "P b" for a b
    using sort_order.flip [OF d that] unfolding eq [OF that] eq [OF that(2,1)] .
  show "c a e \<le> 0" if P: "P a" "P b" "P e" and le: "c a b \<le> 0" "c b e \<le> 0" for a b e
    using sort_order.trans [OF d P] le unfolding eq [OF P(1,2)] eq [OF P(2,3)] eq [OF P(1,3)] by blast
qed

lemma sort_order_reverse:
  assumes c: "sort_order c P"
  shows "sort_order (\<lambda>a b. - c a b) P"
proof (rule sort_order.intro)
  fix a b
  assume "P a" "P b"
  then show "0 < - c a b \<longleftrightarrow> - c b a < 0" using sort_order.flip [OF c, of b a] by linarith
next
  fix a b d
  assume P: "P a" "P b" "P d" and "- c a b \<le> 0" "- c b d \<le> 0"
  then have "c b a \<le> 0" "c d b \<le> 0"
    using sort_order.flip [OF c, of b a] sort_order.flip [OF c, of d b] by linarith+
  then have "c d a \<le> 0" using sort_order.trans [OF c P(3,2,1)] by blast
  then show "- c a d \<le> 0" using sort_order.flip [OF c, of d a] P by linarith
qed

lemma sort_order_lex:
  assumes c: "sort_order c P" and d: "sort_order d P"
  shows "sort_order (\<lambda>a b. if c a b \<noteq> 0 then c a b else d a b) P"
proof (rule sort_order.intro)
  fix a b
  assume "P a" "P b"
  then show "0 < (if c a b \<noteq> 0 then c a b else d a b) \<longleftrightarrow> (if c b a \<noteq> 0 then c b a else d b a) < 0"
    using sort_order.flip [OF c, of a b] sort_order.flip [OF d, of a b] sort_order.zero_flip [OF c, of a b] by auto
next
  fix a b e
  assume P: "P a" "P b" "P e"
    and ab: "(if c a b \<noteq> 0 then c a b else d a b) \<le> 0" and be: "(if c b e \<noteq> 0 then c b e else d b e) \<le> 0"
  have le: "c a b \<le> 0" "c b e \<le> 0" using ab be by (auto split: if_splits)
  show "(if c a e \<noteq> 0 then c a e else d a e) \<le> 0"
  proof (cases "c a b < 0 \<or> c b e < 0")
    case True
    then have "c a e < 0"
      using sort_order.trans_less [OF c P] sort_order.trans_less2 [OF c P] le by blast
    then show ?thesis by simp
  next
    case False
    then have "c a b = 0" "c b e = 0" using le by simp_all
    then have "d a e \<le> 0" using sort_order.trans [OF d P] ab be by simp
    moreover have "c a e \<le> 0" using sort_order.trans [OF c P le] .
    ultimately show ?thesis by simp
  qed
qed

definition last_when_missing :: "('a \<Rightarrow> 'a \<Rightarrow> int) \<Rightarrow> 'a option \<Rightarrow> 'a option \<Rightarrow> int" where
  "last_when_missing c a b =
     (case a of None \<Rightarrow> (case b of None \<Rightarrow> 0 | Some _ \<Rightarrow> 1)
      | Some x \<Rightarrow> (case b of None \<Rightarrow> -1 | Some y \<Rightarrow> c x y))"

lemma sort_order_last_when_missing:
  assumes c: "sort_order c P"
  shows "sort_order (last_when_missing c) (pred_option P)"
proof (rule sort_order.intro)
  fix a b
  assume "pred_option P a" "pred_option P b"
  then show "0 < last_when_missing c a b \<longleftrightarrow> last_when_missing c b a < 0"
    using sort_order.flip [OF c] by (cases a; cases b) (simp_all add: last_when_missing_def)
next
  fix a b d
  assume A: "pred_option P a" "pred_option P b" "pred_option P d"
    "last_when_missing c a b \<le> 0" "last_when_missing c b d \<le> 0"
  show "last_when_missing c a d \<le> 0"
  proof (cases "a = None \<or> b = None \<or> d = None")
    case True
    then show ?thesis using A(4,5) by (cases a; cases b; cases d) (simp_all add: last_when_missing_def)
  next
    case False
    then obtain x y z where "a = Some x" "b = Some y" "d = Some z" by (cases a; cases b; cases d) auto
    then show ?thesis using A sort_order.trans [OF c, of x y z] by (simp add: last_when_missing_def)
  qed
qed

lemma sort_order_const: "sort_order (\<lambda>_ _. 0) P"
  by (rule sort_order.intro) simp_all

definition three_way :: "('a \<Rightarrow> 'a \<Rightarrow> bool) \<Rightarrow> 'a \<Rightarrow> 'a \<Rightarrow> int" where
  \<comment> \<open>\<open>a < b ? -1 : a > b ? 1 : 0\<close>\<close>
  "three_way lt a b = (if lt a b then -1 else if lt b a then 1 else 0)"

lemma sort_order_three_way:
  assumes asym: "\<And>a b. P a \<Longrightarrow> P b \<Longrightarrow> lt a b \<Longrightarrow> \<not> lt b a"
    and neg_trans: "\<And>a b c. P a \<Longrightarrow> P b \<Longrightarrow> P c \<Longrightarrow> \<not> lt b a \<Longrightarrow> \<not> lt c b \<Longrightarrow> \<not> lt c a"
  shows "sort_order (three_way lt) P"
proof (rule sort_order.intro)
  fix a b
  assume "P a" "P b"
  then show "0 < three_way lt a b \<longleftrightarrow> three_way lt b a < 0"
    using asym [of a b] by (auto simp: three_way_def)
next
  fix a b c
  assume P: "P a" "P b" "P c" and "three_way lt a b \<le> 0" "three_way lt b c \<le> 0"
  then have "\<not> lt b a" "\<not> lt c b" using asym [of a b] asym [of b c] by (auto simp: three_way_def split: if_splits)
  then have "\<not> lt c a" by (rule neg_trans [OF P])
  then show "three_way lt a c \<le> 0" by (simp add: three_way_def)
qed

end
