(* ===== verification/TextOrder.thy ===== *)
theory TextOrder
  imports SortOrder "HOL-Library.List_Lexorder"
begin

text \<open>
  The text order of \<open>store.ts\<close>: strings compare by their UTF-8 bytes, as the server's
  database does. A string is the list of its 16-bit code units; \<open>TextEncoder\<close> joins
  surrogate pairs, replaces a lone surrogate by U+FFFD and encodes each scalar value in one to
  four bytes. Lists of numbers are ordered lexicographically.
\<close>

section \<open>Definitions\<close>

type_synonym js_text = "nat list"

definition is_text :: "js_text \<Rightarrow> bool" where
  "is_text s \<longleftrightarrow> list_all (\<lambda>u. u < 0x10000) s"

definition is_high :: "nat \<Rightarrow> bool" where
  "is_high u \<longleftrightarrow> 0xD800 \<le> u \<and> u < 0xDC00"

definition is_low :: "nat \<Rightarrow> bool" where
  "is_low u \<longleftrightarrow> 0xDC00 \<le> u \<and> u < 0xE000"

fun scalars :: "js_text \<Rightarrow> nat list" where
  "scalars [] = []"
| "scalars [u] = [if is_high u \<or> is_low u then 0xFFFD else u]"
| "scalars (u # v # us) =
     (if is_high u \<and> is_low v
      then (0x10000 + (u - 0xD800) * 0x400 + (v - 0xDC00)) # scalars us
      else (if is_high u \<or> is_low u then 0xFFFD else u) # scalars (v # us))"

definition utf8_scalar :: "nat \<Rightarrow> nat list" where
  "utf8_scalar n =
     (if n < 0x80 then [n]
      else if n < 0x800 then [0xC0 + n div 64, 0x80 + n mod 64]
      else if n < 0x10000 then [0xE0 + n div 4096, 0x80 + (n div 64) mod 64, 0x80 + n mod 64]
      else [0xF0 + n div 262144, 0x80 + (n div 4096) mod 64, 0x80 + (n div 64) mod 64, 0x80 + n mod 64])"

definition encode_utf8 :: "js_text \<Rightarrow> nat list" where
  \<comment> \<open>\<open>textEncoder.encode\<close>\<close>
  "encode_utf8 s = concat (map utf8_scalar (scalars s))"

definition compareAsc :: "'a::linorder \<Rightarrow> 'a \<Rightarrow> int" where
  "compareAsc a b = (if a < b then -1 else if a > b then 1 else 0)"

definition compareBooleans :: "bool \<Rightarrow> bool \<Rightarrow> int" where
  "compareBooleans a b = (if a = b then 0 else if a then 1 else -1)"

fun first_difference :: "(nat \<times> nat) list \<Rightarrow> int option" where
  \<comment> \<open>the loop over the common length\<close>
  "first_difference [] = None"
| "first_difference ((x, y) # ps) =
     (if x \<noteq> y then Some (if x < y then -1 else 1) else first_difference ps)"

definition compareUtf8Bytes :: "js_text \<Rightarrow> js_text \<Rightarrow> int" where
  "compareUtf8Bytes a b =
     (let ba = encode_utf8 a; bb = encode_utf8 b in
      case first_difference (zip ba bb) of
        Some r \<Rightarrow> r
      | None \<Rightarrow> if length ba < length bb then -1 else if length ba > length bb then 1 else 0)"

definition isUtf8LexicalFastPath :: "js_text \<Rightarrow> bool" where
  "isUtf8LexicalFastPath s \<longleftrightarrow> list_all (\<lambda>u. \<not> u \<ge> 0x800) s"

definition compareUtf8 :: "js_text \<Rightarrow> js_text \<Rightarrow> int" where
  "compareUtf8 a b =
     (if isUtf8LexicalFastPath a \<and> isUtf8LexicalFastPath b then compareAsc a b
      else compareUtf8Bytes a b)"

section \<open>Comparing by a linear order\<close>

lemma compareAsc_eq_three_way: "compareAsc = three_way (<)"
  by (simp add: fun_eq_iff compareAsc_def three_way_def)

lemma compareAsc_simps [cmp_simps]:
  "compareAsc a b = 0 \<longleftrightarrow> a = b" "compareAsc a b < 0 \<longleftrightarrow> a < b" "0 < compareAsc a b \<longleftrightarrow> b < a"
  "compareAsc a b \<le> 0 \<longleftrightarrow> a \<le> b"
  by (auto simp: compareAsc_def)

lemma sort_order_compareAsc: "sort_order compareAsc P"
  unfolding compareAsc_eq_three_way by (rule sort_order_three_way) auto

lemma compareBooleans_eq: "compareBooleans = compareAsc"
  by (auto simp: fun_eq_iff compareBooleans_def compareAsc_def)

section \<open>The byte loop decides the lexicographic order\<close>

lemma compareAsc_Cons:
  "compareAsc (x # xs) (y # ys) = (if x = y then compareAsc xs ys else if x < y then -1 else 1)"
  by (auto simp: compareAsc_def)

lemma byte_loop_compareAsc:
  "(case first_difference (zip ba bb) of Some r \<Rightarrow> r
    | None \<Rightarrow> if length ba < length bb then -1 else if length ba > length bb then 1 else 0)
   = compareAsc ba bb"
proof (induction ba arbitrary: bb)
  case Nil
  then show ?case by (cases bb) (simp_all add: compareAsc_def)
next
  case (Cons x ba)
  note IH = Cons.IH
  show ?case
  proof (cases bb)
    case (Cons y bb')
    then show ?thesis using IH [of bb'] by (cases "x = y"; cases "first_difference (zip ba bb')") (auto simp: compareAsc_Cons split: if_splits)
  qed (simp add: compareAsc_def)
qed

lemma compareUtf8Bytes_alt: "compareUtf8Bytes a b = compareAsc (encode_utf8 a) (encode_utf8 b)"
  unfolding compareUtf8Bytes_def Let_def by (rule byte_loop_compareAsc)

section \<open>UTF-8 preserves the order of scalar values\<close>

lemma div_mod_less:
  fixes m n k :: nat
  assumes "m < n"
  shows "m div k < n div k \<or> m div k = n div k \<and> m mod k < n mod k"
proof (cases "m div k = n div k")
  case True
  then have "m div k * k = n div k * k" by simp
  then show ?thesis using True assms div_mult_mod_eq [of m k] div_mult_mod_eq [of n k] by linarith
next
  case False
  then show ?thesis using div_le_mono [of m n k] assms by simp
qed

lemma two_digits_less:
  fixes m n :: nat
  assumes "m < n"
  shows "m div 4096 < n div 4096 \<or> m div 4096 = n div 4096 \<and>
    ((m div 64) mod 64 < (n div 64) mod 64 \<or> (m div 64) mod 64 = (n div 64) mod 64 \<and> m mod 64 < n mod 64)"
proof -
  have "(m div 64) div 64 = m div 4096" "(n div 64) div 64 = n div 4096" by (simp_all add: div_mult2_eq [symmetric])
  then show ?thesis
    using div_mod_less [OF assms, of 64] div_mod_less [of "m div 64" "n div 64" 64] by force
qed

lemma three_digits_less:
  fixes m n :: nat
  assumes "m < n"
  shows "m div 262144 < n div 262144 \<or> m div 262144 = n div 262144 \<and>
    ((m div 4096) mod 64 < (n div 4096) mod 64 \<or> (m div 4096) mod 64 = (n div 4096) mod 64 \<and>
     ((m div 64) mod 64 < (n div 64) mod 64 \<or> (m div 64) mod 64 = (n div 64) mod 64 \<and> m mod 64 < n mod 64))"
proof -
  have "(m div 4096) div 64 = m div 262144" "(n div 4096) div 64 = n div 262144"
    by (simp_all add: div_mult2_eq [symmetric])
  then show ?thesis
    using two_digits_less [OF assms] div_mod_less [of "m div 4096" "n div 4096" 64] by force
qed

lemma utf8_scalar_less:
  assumes "m < n" "n < 0x110000"
  shows "utf8_scalar m @ s < utf8_scalar n @ t"
proof -
  have lead2: "0xC0 + m div 64 < 0xE0" if "m < 0x800" using that by simp
  have lead3: "0xE0 + m div 4096 < 0xF0" if "m < 0x10000" using that by simp
  consider (1) "n < 0x80" | (2) "0x80 \<le> n" "n < 0x800" | (3) "0x800 \<le> n" "n < 0x10000" | (4) "0x10000 \<le> n"
    by linarith
  then show ?thesis
  proof cases
    case 1
    then show ?thesis using assms by (simp add: utf8_scalar_def)
  next
    case 2
    then show ?thesis using assms(1) div_mod_less [OF assms(1), of 64]
      by (cases "m < 0x80") (auto simp: utf8_scalar_def)
  next
    case 3
    consider "m < 0x80" | "0x80 \<le> m" "m < 0x800" | "0x800 \<le> m" by linarith
    then show ?thesis
      by cases (use 3 assms(1) two_digits_less [OF assms(1)] lead2 in \<open>auto simp: utf8_scalar_def\<close>)
  next
    case 4
    consider "m < 0x80" | "0x80 \<le> m" "m < 0x800" | "0x800 \<le> m" "m < 0x10000" | "0x10000 \<le> m" by linarith
    then show ?thesis
      by cases (use 4 assms(1) three_digits_less [OF assms(1)] lead2 lead3 in \<open>auto simp: utf8_scalar_def\<close>)
  qed
qed

lemma utf8_scalar_nonempty: "utf8_scalar n \<noteq> []"
  by (simp add: utf8_scalar_def)

lemma concat_utf8_less:
  "list_all (\<lambda>n. n < 0x110000) xs \<Longrightarrow> list_all (\<lambda>n. n < 0x110000) ys \<Longrightarrow> xs < ys \<Longrightarrow>
   concat (map utf8_scalar xs) < concat (map utf8_scalar ys)"
proof (induction xs arbitrary: ys)
  case Nil
  then obtain y ys' where "ys = y # ys'" by (cases ys) auto
  then show ?case using utf8_scalar_nonempty [of y] by (cases "utf8_scalar y") auto
next
  case (Cons x xs)
  then obtain y ys' where ys: "ys = y # ys'" by (cases ys) auto
  show ?case
  proof (cases "x = y")
    case True
    have "zs @ us < zs @ vs" if "us < vs" for zs us vs :: "nat list"
      using that by (induction zs) auto
    then show ?thesis using Cons ys True by simp
  next
    case False
    then show ?thesis using Cons.prems ys utf8_scalar_less [of x y] by auto
  qed
qed

lemma surrogate_scalar_bound:
  assumes "is_high u" "is_low v"
  shows "0x10000 + (u - 0xD800) * 0x400 + (v - 0xDC00) < 0x110000"
  using assms unfolding is_high_def is_low_def by linarith

lemma scalars_bound: "is_text s \<Longrightarrow> list_all (\<lambda>n. n < 0x110000) (scalars s)"
  by (induction s rule: scalars.induct) (auto simp: is_text_def surrogate_scalar_bound)

lemma compareAsc_encode_utf8:
  assumes "is_text a" "is_text b"
  shows "compareAsc (encode_utf8 a) (encode_utf8 b) = compareAsc (scalars a) (scalars b)"
proof (cases "scalars a" "scalars b" rule: linorder_cases)
  case less
  then have "encode_utf8 a < encode_utf8 b"
    using concat_utf8_less scalars_bound assms by (simp add: encode_utf8_def)
  then show ?thesis using less by (simp add: compareAsc_def)
next
  case equal
  then show ?thesis by (simp add: compareAsc_def encode_utf8_def)
next
  case greater
  then have "encode_utf8 b < encode_utf8 a"
    using concat_utf8_less scalars_bound assms by (simp add: encode_utf8_def)
  then show ?thesis using greater by (simp add: compareAsc_def order_less_not_sym)
qed

section \<open>The fast path\<close>

lemma fast_path_scalars: "isUtf8LexicalFastPath s \<Longrightarrow> scalars s = s"
  by (induction s rule: scalars.induct) (auto simp: isUtf8LexicalFastPath_def is_high_def is_low_def)

lemma fast_path_text: "isUtf8LexicalFastPath s \<Longrightarrow> is_text s"
  by (auto simp: isUtf8LexicalFastPath_def is_text_def list_all_iff)

lemma compareUtf8_scalars:
  assumes "is_text a" "is_text b"
  shows "compareUtf8 a b = compareAsc (scalars a) (scalars b)"
  using assms by (simp add: compareUtf8_def compareUtf8Bytes_alt compareAsc_encode_utf8 fast_path_scalars)

interpretation text_order: sort_order compareUtf8 is_text
proof (rule sort_order_cong [OF compareUtf8_scalars])
  show "sort_order (\<lambda>a b. compareAsc (scalars a) (scalars b)) is_text"
    by (rule sort_order_weaken [OF sort_order_pullback [OF sort_order_compareAsc, of scalars "\<lambda>_. True"]]) simp
qed

text \<open>Well-formed text: no lone surrogate. Its scalar values determine it.\<close>

fun well_formed :: "js_text \<Rightarrow> bool" where
  "well_formed [] = True"
| "well_formed [u] = (\<not> is_high u \<and> \<not> is_low u)"
| "well_formed (u # v # us) =
     (if is_high u \<and> is_low v then well_formed us
      else \<not> is_high u \<and> \<not> is_low u \<and> well_formed (v # us))"

definition units_of :: "nat \<Rightarrow> js_text" where
  "units_of n = (if n < 0x10000 then [n]
     else [0xD800 + (n - 0x10000) div 0x400, 0xDC00 + (n - 0x10000) mod 0x400])"

lemma units_of_pair:
  assumes "is_high u" "is_low v"
  shows "units_of (0x10000 + (u - 0xD800) * 0x400 + (v - 0xDC00)) = [u, v]"
proof -
  define x w where "x = u - 0xD800" and "w = v - 0xDC00"
  then have "u = 0xD800 + x" "v = 0xDC00 + w" "w < 0x400"
    using assms unfolding is_high_def is_low_def by linarith+
  then show ?thesis by (simp add: units_of_def)
qed

lemma units_of_scalars: "is_text s \<Longrightarrow> well_formed s \<Longrightarrow> concat (map units_of (scalars s)) = s"
proof (induction s rule: scalars.induct)
  case (2 u)
  then show ?case by (simp add: is_text_def units_of_def)
next
  case (3 u v us)
  show ?case
  proof (cases "is_high u \<and> is_low v")
    case True
    then show ?thesis using 3 by (simp add: is_text_def units_of_pair del: One_nat_def)
  next
    case False
    have "units_of u = [u]" using 3 by (simp add: is_text_def units_of_def)
    then show ?thesis using 3 False by (auto simp: is_text_def simp del: is_high_def is_low_def)
  qed
qed simp

lemma compareUtf8_zero:
  assumes "is_text a" "is_text b" "well_formed a" "well_formed b" "compareUtf8 a b = 0"
  shows "a = b"
proof -
  have "scalars a = scalars b" using assms by (simp add: compareUtf8_scalars cmp_simps)
  then have "concat (map units_of (scalars a)) = concat (map units_of (scalars b))" by (rule arg_cong)
  then show ?thesis unfolding units_of_scalars [OF assms(1,3)] units_of_scalars [OF assms(2,4)] .
qed

section \<open>Properties\<close>

text \<open>The fast path is only faster: \<open>compareUtf8\<close> gives for every two strings what the
  comparison of their UTF-8 encodings byte by byte gives.\<close>

theorem compareUtf8_fast_path: "compareUtf8 a b = compareUtf8Bytes a b"
  by (simp add: compareUtf8_def compareUtf8Bytes_alt compareAsc_encode_utf8 fast_path_scalars fast_path_text)

text \<open>C19: On well-formed strings \<open>compareUtf8\<close> is a strict total order, that of the scalar
  values (code points) and not that of the 16-bit units: the sign tells which sequence of
  code points comes first, and it is 0 exactly on equal strings.\<close>

theorem compareUtf8_code_points:
  assumes "is_text a" "is_text b" "well_formed a" "well_formed b"
  shows "(compareUtf8 a b < 0 \<longleftrightarrow> scalars a < scalars b) \<and> (compareUtf8 a b = 0 \<longleftrightarrow> a = b) \<and>
    (compareUtf8 a b > 0 \<longleftrightarrow> scalars b < scalars a)"
  using compareUtf8_zero [OF assms] by (auto simp: compareUtf8_scalars assms cmp_simps)

theorem compareUtf8_code_points_witness:
  "compareUtf8 [0xFF5E] [0xD83D, 0xDE00] < 0 \<and> (0xFF5E::nat) > 0xD83D"
proof -
  have "scalars [0xFF5E] < scalars [0xD83D, 0xDE00]" by (simp add: is_high_def is_low_def)
  then show ?thesis
    using compareUtf8_code_points [of "[0xFF5E]" "[0xD83D, 0xDE00]"]
    by (simp add: is_text_def is_high_def is_low_def)
qed

text \<open>Lone surrogates are all encoded as U+FFFD, so strings that differ there compare equal.\<close>

lemma lone_surrogates_tie: "compareUtf8 [0xD800] [0xDFFF] = 0 \<and> compareUtf8 [0xD800] [0xFFFD] = 0"
  by (simp add: compareUtf8_scalars is_text_def is_high_def is_low_def cmp_simps)

end
