(* ===== verification/Comparator.thy ===== *)
theory Comparator
  imports SchemaSpec StoreWireSpec TextOrder
begin

text \<open>
  The record comparators of the materialized views: \<open>compareRecords\<close> and
  \<open>buildCollectionComparator\<close> of \<open>store.ts\<close>, \<open>createCreatedAtComparator\<close> of
  \<open>subscriptions.ts\<close>. A schema column holds values of one kind; on records whose sort
  fields are of their column's kind, numbers not NaN, the comparator is shown to be a sort
  order, assembled with the constructions of \<open>SortOrder\<close>. Ids are compared by
  \<open>compare_ref\<close>, which is what \<open>compareDocIds\<close> answers whatever its cache holds
  (\<open>compareDocIds_refines\<close>).
\<close>

section \<open>Definitions\<close>

record SortEntry =
  sk_parts :: "string list"
  sk_desc :: bool
  sk_docId :: bool

datatype js_type = TypeObject | TypeBoolean | TypeNumber | TypeString

fun js_typeof :: "jv \<Rightarrow> js_type" where
  "js_typeof (JBool _) = TypeBoolean"
| "js_typeof (JNum _) = TypeNumber"
| "js_typeof (JStr _) = TypeString"
| "js_typeof _ = TypeObject"

definition compareNumbers :: "jnum \<Rightarrow> jnum \<Rightarrow> int" where
  \<comment> \<open>\<open>compareAsc\<close> at numbers: NaN is neither below nor above anything\<close>
  "compareNumbers a b = (if num_lt a b then -1 else if num_lt b a then 1 else 0)"

definition compareStrings :: "string \<Rightarrow> string \<Rightarrow> int" where
  "compareStrings a b = compareUtf8 (map cc a) (map cc b)"

fun compareNonNullValues :: "jv \<Rightarrow> jv \<Rightarrow> int" where
  "compareNonNullValues (JNum a) (JNum b) = compareNumbers a b"
| "compareNonNullValues (JBool a) (JBool b) = compareBooleans a b"
| "compareNonNullValues (JStr a) (JStr b) = compareStrings a b"
| "compareNonNullValues _ _ = 0"   \<comment> \<open>different types, or both objects\<close>

definition nullish :: "jv option \<Rightarrow> bool" where
  \<comment> \<open>\<open>v == null\<close>\<close>
  "nullish v \<longleftrightarrow> v = None \<or> v = Some JNull"

definition compare_values :: "SortEntry \<Rightarrow> jv \<Rightarrow> jv \<Rightarrow> int" where
  "compare_values entry va vb =
     (let r = (if sk_docId entry \<and> js_typeof va = TypeString \<and> js_typeof vb = TypeString
               then case (va, vb) of (JStr s, JStr t) \<Rightarrow> compare_ref s t | _ \<Rightarrow> 0
               else compareNonNullValues va vb)
      in if sk_desc entry then - r else r)"

definition compareSortEntry :: "SortEntry \<Rightarrow> jv \<Rightarrow> jv \<Rightarrow> int" where
  "compareSortEntry entry a b =
     (let va = getDeepProperty (Some a) (sk_parts entry); vb = getDeepProperty (Some b) (sk_parts entry) in
      if nullish va then (if nullish vb then 0 else 1)
      else if nullish vb then -1
      else compare_values entry (the va) (the vb))"

fun compareRecords :: "SortEntry list \<Rightarrow> jv \<Rightarrow> jv \<Rightarrow> int" where
  "compareRecords [] a b = 0"
| "compareRecords (entry # entries) a b =
     (let r = compareSortEntry entry a b in if r \<noteq> 0 then r else compareRecords entries a b)"

definition createCreatedAtComparator :: "jv \<Rightarrow> jv \<Rightarrow> int" where
  "createCreatedAtComparator a b =
     (case (js_own a ''created_at'', js_own b ''created_at'') of
        (Some (JNum ta), Some (JNum tb)) \<Rightarrow> (if num_lt ta tb then -1 else if num_lt tb ta then 1 else 0)
      | _ \<Rightarrow> 0)"

definition replace_dots :: "string \<Rightarrow> string" where
  "replace_dots field = concat (map (\<lambda>c. if c = CHR ''.'' then ''__'' else [c]) field)"

fun sort_entries :: "dict \<Rightarrow> nat \<Rightarrow> props list \<Rightarrow> thrown + SortEntry list" where
  \<comment> \<open>the loop over \<open>options.orderBy\<close>\<close>
  "sort_entries schema ti [] = Inr []"
| "sort_entries schema ti (clause # clauses) =
     (case clause of
        [] \<Rightarrow> sort_entries schema ti clauses
      | (field, _) # _ \<Rightarrow>
          and_then (getFieldIndex schema ti (replace_dots field)) (\<lambda>fi.
          and_then (isDocIdField schema (int ti) (int fi)) (\<lambda>is_id.
          and_then (sort_entries schema ti clauses) (\<lambda>entries.
            Inr (\<lparr>sk_parts = splitFieldPath (replace_dots field),
                  sk_desc = (om_get clause field = Some (JStr ''desc'')), sk_docId = is_id\<rparr> # entries)))))"

definition created_at_entry :: SortEntry where
  "created_at_entry = \<lparr>sk_parts = [''created_at''], sk_desc = False, sk_docId = False\<rparr>"

definition final_unique :: "SortEntry list \<Rightarrow> bool" where
  \<comment> \<open>\<open>finalField\<close> is \<open>created_at\<close> or \<open>id\<close>\<close>
  "final_unique entries \<longleftrightarrow>
     entries \<noteq> [] \<and> (sk_parts (last entries) = [''created_at''] \<or> sk_parts (last entries) = [''id''])"

definition collection_entries :: "dict \<Rightarrow> string \<Rightarrow> props list \<Rightarrow> thrown + SortEntry list" where
  "collection_entries schema collection clauses =
     and_then (getTableIndex schema collection) (\<lambda>ti.
     and_then (sort_entries schema ti clauses) (\<lambda>entries.
       Inr (if final_unique entries then entries else entries @ [created_at_entry])))"

definition buildCollectionComparator ::
  "dict \<Rightarrow> string \<Rightarrow> props list option \<Rightarrow> thrown + (jv \<Rightarrow> jv \<Rightarrow> int)" where
  "buildCollectionComparator schema collection orderBy =
     (case orderBy of
        None \<Rightarrow> Inr createCreatedAtComparator
      | Some [] \<Rightarrow> Inr createCreatedAtComparator
      | Some clauses \<Rightarrow>
          and_then (collection_entries schema collection clauses) (\<lambda>entries. Inr (compareRecords entries)))"

section \<open>Values of one kind\<close>

datatype column_kind = KNumber | KBoolean | KText | KObject

fun of_kind :: "column_kind \<Rightarrow> jv \<Rightarrow> bool" where
  "of_kind KNumber v = (case v of JNum n \<Rightarrow> n \<noteq> NaN | _ \<Rightarrow> False)"
| "of_kind KBoolean v = (js_typeof v = TypeBoolean)"
| "of_kind KText v = (js_typeof v = TypeString)"
| "of_kind KObject v = (js_typeof v = TypeObject)"

definition num_of :: "jv \<Rightarrow> jnum" where
  "num_of v = (case v of JNum n \<Rightarrow> n | _ \<Rightarrow> NaN)"

definition bool_of :: "jv \<Rightarrow> bool" where
  "bool_of v = (case v of JBool b \<Rightarrow> b | _ \<Rightarrow> False)"

definition str_of :: "jv \<Rightarrow> string" where
  "str_of v = (case v of JStr s \<Rightarrow> s | _ \<Rightarrow> [])"

lemma is_text_cc [simp]: "is_text (map cc s)"
proof -
  have "of_char c < (0x10000::nat)" for c :: char
    using nat_of_char_less_256 [of c] by linarith
  then show ?thesis by (simp add: is_text_def list_all_iff)
qed

lemma sort_order_numbers: "sort_order compareNumbers (\<lambda>n. n \<noteq> NaN)"
proof -
  have "\<not> num_lt c a" if "a \<noteq> NaN" "b \<noteq> NaN" "\<not> num_lt b a" "\<not> num_lt c b" for a b c
    using that num_lt_linear [of a b] num_lt_trans [of c a b] by blast
  then have "sort_order (three_way num_lt) (\<lambda>n. n \<noteq> NaN)"
    using num_lt_asym by (intro sort_order_three_way) blast+
  moreover have "compareNumbers = three_way num_lt" by (simp add: fun_eq_iff compareNumbers_def three_way_def)
  ultimately show ?thesis by simp
qed

lemma sort_order_strings: "sort_order compareStrings (\<lambda>_. True)"
proof -
  have "sort_order (\<lambda>a b. compareUtf8 (map cc a) (map cc b)) (\<lambda>s. is_text (map cc s))"
    by (rule sort_order_pullback) (rule text_order.sort_order_axioms)
  then show ?thesis by (simp add: compareStrings_def [abs_def])
qed

lemma sort_order_compare_ref: "sort_order compare_ref (\<lambda>_. True)"
proof (rule sort_order.intro)
  show "0 < compare_ref a b \<longleftrightarrow> compare_ref b a < 0" for a b
    using compare_ref_flip by blast
  show "compare_ref a c \<le> 0" if "compare_ref a b \<le> 0" "compare_ref b c \<le> 0" for a b c
    using that compare_ref_trans [of a b c] compare_ref_eq [of a b] compare_ref_eq [of b c] by force
qed

lemma sort_order_kind: "sort_order compareNonNullValues (of_kind k)"
proof (cases k)
  case KNumber
  have "sort_order (\<lambda>a b. compareNumbers (num_of a) (num_of b)) (of_kind KNumber)"
    by (rule sort_order_weaken [OF sort_order_pullback [OF sort_order_numbers]])
      (simp add: num_of_def split: jv.splits)
  then show ?thesis unfolding KNumber
    by (rule sort_order_cong [rotated]) (auto simp: num_of_def split: jv.splits)
next
  case KBoolean
  have "sort_order (\<lambda>a b. compareBooleans (bool_of a) (bool_of b)) (of_kind KBoolean)"
    by (rule sort_order_weaken [OF sort_order_pullback [OF sort_order_compareAsc, of bool_of "\<lambda>_. True"],
          folded compareBooleans_eq]) simp
  then show ?thesis unfolding KBoolean
    by (rule sort_order_cong [rotated]) (auto simp: bool_of_def split: jv.splits)
next
  case KText
  have "sort_order (\<lambda>a b. compareStrings (str_of a) (str_of b)) (of_kind KText)"
    by (rule sort_order_weaken [OF sort_order_pullback [OF sort_order_strings]]) simp
  then show ?thesis unfolding KText
    by (rule sort_order_cong [rotated]) (auto simp: str_of_def split: jv.splits)
next
  case KObject
  show ?thesis unfolding KObject
    by (rule sort_order_cong [OF _ sort_order_const]) (auto split: jv.splits elim!: js_typeof.elims)
qed

section \<open>Records with typed sort fields\<close>

definition sort_field_of :: "SortEntry \<Rightarrow> jv \<Rightarrow> jv option" where
  \<comment> \<open>the sort field, \<open>None\<close> when missing or null\<close>
  "sort_field_of entry r =
     (let v = getDeepProperty (Some r) (sk_parts entry) in if nullish v then None else v)"

definition typed_record :: "(SortEntry \<times> column_kind) list \<Rightarrow> jv \<Rightarrow> bool" where
  "typed_record cols r \<longleftrightarrow> (\<forall>(entry, k) \<in> set cols. pred_option (of_kind k) (sort_field_of entry r))"

lemma compareSortEntry_alt:
  "compareSortEntry entry a b =
     last_when_missing (compare_values entry) (sort_field_of entry a) (sort_field_of entry b)"
  by (auto simp: compareSortEntry_def last_when_missing_def sort_field_of_def Let_def nullish_def split: option.splits)

lemma sort_order_compare_values: "sort_order (compare_values entry) (of_kind k)"
proof -
  let ?r = "\<lambda>va vb. if sk_docId entry \<and> k = KText then compare_ref (str_of va) (str_of vb)
    else compareNonNullValues va vb"
  have "sort_order (\<lambda>va vb. compare_ref (str_of va) (str_of vb)) (of_kind k)"
    by (rule sort_order_weaken [OF sort_order_pullback [OF sort_order_compare_ref]]) simp
  note ref = this
  have r: "sort_order ?r (of_kind k)"
  proof (cases "sk_docId entry \<and> k = KText")
    case True
    then show ?thesis using ref by simp
  next
    case False
    then show ?thesis using sort_order_kind [of k] by (simp only: if_False)
  qed
  have "sort_order (\<lambda>va vb. if sk_desc entry then - ?r va vb else ?r va vb) (of_kind k)"
    using r sort_order_reverse [OF r] by (cases "sk_desc entry") (simp_all only: if_True if_False)
  then show ?thesis
  proof (rule sort_order_cong [rotated])
    show "compare_values entry a b = (if sk_desc entry then - ?r a b else ?r a b)"
      if "of_kind k a" "of_kind k b" for a b
      using that unfolding compare_values_def Let_def
      by (cases k; cases a; cases b) (simp_all add: str_of_def)
  qed
qed

lemma sort_order_entry: "sort_order (compareSortEntry entry) (\<lambda>r. pred_option (of_kind k) (sort_field_of entry r))"
  unfolding compareSortEntry_alt [abs_def]
  by (rule sort_order_pullback) (rule sort_order_last_when_missing [OF sort_order_compare_values])

lemma sort_order_compareRecords: "sort_order (compareRecords (map fst cols)) (typed_record cols)"
proof (induction cols)
  case Nil
  show ?case by (rule sort_order_cong [OF _ sort_order_const]) simp
next
  case (Cons c cols)
  obtain entry k where c: "c = (entry, k)" by (cases c)
  have "sort_order (compareSortEntry entry) (typed_record (c # cols))"
    by (rule sort_order_weaken [OF sort_order_entry [of entry k]]) (simp add: typed_record_def c)
  moreover have "sort_order (compareRecords (map fst cols)) (typed_record (c # cols))"
    by (rule sort_order_weaken [OF Cons.IH]) (simp add: typed_record_def)
  ultimately show ?case
    using sort_order_lex by (simp add: c Let_def)
qed


section \<open>Properties\<close>

text \<open>Sorting by a collection's comparator is sorting in the sense of \<open>SortOrder\<close>.\<close>

lemmas record_sorting =
  sort_order.js_sort_sorted [OF sort_order_compareRecords]
  sort_order.js_sort_stable [OF sort_order_compareRecords]

lemma typed_record_code [simp]:
  "typed_record [] r"
  "typed_record ((entry, k) # cols) r \<longleftrightarrow> pred_option (of_kind k) (sort_field_of entry r) \<and> typed_record cols r"
  by (simp_all add: typed_record_def)

text \<open>C20: On records whose sort fields hold values of their column's kind, or are missing or
  null, the comparator of a collection keeps the contract of \<open>Array.prototype.sort\<close>:
  its sign is antisymmetric and it is transitive, whatever the directions of the clauses and
  whichever of them compare document ids.\<close>

theorem compareRecords_total_preorder:
  assumes "typed_record cols a" "typed_record cols b" "typed_record cols c"
  shows "let cmp = compareRecords (map fst cols) in
    (0 < cmp a b \<longleftrightarrow> cmp b a < 0) \<and> \<not> (cmp a b \<le> 0 \<and> cmp b c \<le> 0 \<and> 0 < cmp a c)"
  unfolding Let_def
  using sort_order.flip [OF sort_order_compareRecords assms(1,2)]
    sort_order.trans [OF sort_order_compareRecords assms] by linarith

definition demo_row :: "string \<Rightarrow> jv \<Rightarrow> jv" where
  "demo_row did n = JObj [(''id'', JStr did), (''n'', n)]"

definition demo_cols :: "(SortEntry \<times> column_kind) list" where
  "demo_cols = [(\<lparr>sk_parts = [''n''], sk_desc = True, sk_docId = False\<rparr>, KNumber),
     (\<lparr>sk_parts = [''id''], sk_desc = False, sk_docId = True\<rparr>, KText)]"

lemmas demo_defs = demo_row_def demo_cols_def sort_field_of_def nullish_def Let_def

theorem compareRecords_total_preorder_witness:
  "let cmp = compareRecords (map fst demo_cols);
       a = demo_row ''a'' (JNum (Fin 2)); b = demo_row ''b'' (JNum (Fin 1)); c = demo_row ''c'' JNull in
     (0 < cmp a b \<longleftrightarrow> cmp b a < 0) \<and> \<not> (cmp a b \<le> 0 \<and> cmp b c \<le> 0 \<and> 0 < cmp a c)"
  unfolding Let_def
  by (rule compareRecords_total_preorder [unfolded Let_def]) (simp_all add: demo_defs)

text \<open>The hypothesis is needed: NaN and a value of another type compare equal to everything.\<close>

lemma compareRecords_not_transitive:
  "let cmp = compareRecords [\<lparr>sk_parts = [''n''], sk_desc = False, sk_docId = False\<rparr>];
       a = demo_row ''a'' (JNum (Fin 2)); b = demo_row ''b'' (JNum NaN); c = demo_row ''c'' (JNum (Fin 1)) in
     cmp a b \<le> 0 \<and> cmp b c \<le> 0 \<and> 0 < cmp a c"
  by (simp add: compareSortEntry_def compare_values_def compareNumbers_def demo_defs)

section \<open>The clauses are those on the wire\<close>

lemma joinFieldPath_split_char: "joinFieldPath (split_char CHR ''.'' s) = replace_dots s"
proof (induction s)
  case (Cons c s)
  obtain p ps where ps: "split_char CHR ''.'' s = p # ps" by (cases "split_char CHR ''.'' s") auto
  show ?case using Cons ps by (cases ps) (auto simp: push_char_def replace_dots_def)
qed (simp add: replace_dots_def)

lemma sort_field_replace_dots: "sort_field field = replace_dots field"
  by (simp add: sort_field_def joinFieldPath_split_char)

definition entry_pair :: "SortEntry \<Rightarrow> string \<times> nat" where
  "entry_pair e = (joinFieldPath (sk_parts e), if sk_desc e then 1 else 0)"

lemma sort_entries_wire:
  "sort_entries schema ti clauses = Inr entries \<Longrightarrow>
   encodeSortClauses (map JObj clauses) i seen = Inr pairs \<Longrightarrow> map entry_pair entries = pairs"
proof (induction clauses arbitrary: entries i seen pairs)
  case (Cons clause clauses)
  obtain field dir where cl: "clause = [(field, dir)]"
    using Cons.prems(2) by (auto simp: encodeSortClause_def own_entries_def and_then_def split: list.splits sum.splits)
  have dir: "dir = JStr ''asc'' \<or> dir = JStr ''desc''"
    using Cons.prems(2) by (auto simp: cl encodeSortClause_def own_entries_def split: if_splits)
  obtain ps where ps: "pairs = (sort_field field, if dir = JStr ''desc'' then 1 else 0) # ps"
    "encodeSortClauses (map JObj clauses) (Suc i) (insert (sort_field field) seen) = Inr ps"
    using Cons.prems(2) by (auto simp: cl encodeSortClause_def own_entries_def split: if_splits)
  obtain e es where es: "entries = e # es" "sort_entries schema ti clauses = Inr es"
    "sk_parts e = splitFieldPath (replace_dots field)" "sk_desc e \<longleftrightarrow> dir = JStr ''desc''"
    using Cons.prems(1) by (auto simp: cl)
  show ?case using Cons.IH [OF es(2) ps(2)] dir
    by (auto simp: es(1,3,4) ps(1) entry_pair_def join_split sort_field_replace_dots)
qed simp

lemma sort_entries_parts:
  "sort_entries schema ti clauses = Inr entries \<Longrightarrow> e \<in> set entries \<Longrightarrow>
   splitFieldPath (joinFieldPath (sk_parts e)) = sk_parts e"
  by (induction clauses arbitrary: entries) (auto simp: join_split split: list.splits)

lemma split_unique_fields:
  "splitFieldPath ''id'' = [''id'']" "splitFieldPath ''created_at'' = [''created_at'']"
  by (simp_all add: push_char_def)

lemma final_unique_wire:
  assumes "sort_entries schema ti clauses = Inr entries" "entries \<noteq> []"
  shows "final_unique entries \<longleftrightarrow> unique_field (fst (last (map entry_pair entries)))"
proof -
  let ?p = "sk_parts (last entries)"
  have s: "splitFieldPath (joinFieldPath ?p) = ?p" using sort_entries_parts assms by simp
  have "?p = [''id''] \<longleftrightarrow> joinFieldPath ?p = ''id''" "?p = [''created_at''] \<longleftrightarrow> joinFieldPath ?p = ''created_at''"
    using s split_unique_fields by (metis joinFieldPath.simps(2))+
  then show ?thesis using assms(2)
    by (auto simp: final_unique_def unique_field_def last_map entry_pair_def)
qed

text \<open>C21: A view is sorted by the clauses that were sent to the server: the entries of the
  comparator that \<open>buildCollectionComparator\<close> makes are, field by field and direction by
  direction, the order-by clauses that \<open>encodeOrderBy\<close> put on the wire for the same options,
  followed by \<open>created_at\<close> ascending exactly when the last of them is neither \<open>id\<close> nor
  \<open>created_at\<close>.\<close>

theorem comparator_follows_wire_order:
  assumes wire: "encodeOrderBy (JArr (map JObj clauses)) = Inr cs"
    and entries: "collection_entries schema collection clauses = Inr entries"
  shows "map entry_pair entries = cs @ (if unique_field (fst (last cs)) then [] else [(''created_at'', 0)])
    \<and> buildCollectionComparator schema collection (Some clauses) = Inr (compareRecords entries)"
proof -
  obtain ti es where es: "sort_entries schema ti clauses = Inr es"
    "entries = (if final_unique es then es else es @ [created_at_entry])"
    using entries by (auto simp: collection_entries_def)
  have sent: "encodeSortClauses (map JObj clauses) 0 {} = Inr cs" "clauses \<noteq> []"
    using wire by (auto simp: encodeOrderBy_def and_then_def split: if_splits sum.splits option.splits)
  have cs: "map entry_pair es = cs" by (rule sort_entries_wire [OF es(1) sent(1)])
  have "cs \<noteq> []" using sent by (cases clauses) auto
  then have "es \<noteq> []" using cs by auto
  then have "final_unique es \<longleftrightarrow> unique_field (fst (last cs))" using final_unique_wire [OF es(1)] cs by simp
  moreover have "entry_pair created_at_entry = (''created_at'', 0)"
    by (simp add: entry_pair_def created_at_entry_def)
  moreover have "buildCollectionComparator schema collection (Some clauses) = Inr (compareRecords entries)"
    using entries sent(2) by (cases clauses) (auto simp: buildCollectionComparator_def)
  ultimately show ?thesis using es(2) cs by auto
qed

lemma comparator_follows_wire_order_witness:
  "let entries = [\<lparr>sk_parts = [''address'', ''city''], sk_desc = True, sk_docId = False\<rparr>, created_at_entry] in
   map entry_pair entries = [(''address__city'', 1)] @
     (if unique_field (fst (last [(''address__city'', 1 :: nat)])) then [] else [(''created_at'', 0)])
   \<and> buildCollectionComparator demo_dict ''users'' (Some [[(''address.city'', JStr ''desc'')]]) = Inr (compareRecords entries)"
  unfolding Let_def
proof (rule comparator_follows_wire_order)
  show "encodeOrderBy (JArr (map JObj [[(''address.city'', JStr ''desc'')]])) = Inr [(''address__city'', 1)]"
    by (simp add: encodeOrderBy_def encodeSortClause_def own_entries_def sort_field_replace_dots replace_dots_def unique_field_def)
  have "splitFieldPath ''address__city'' = [''address'', ''city'']" by (simp add: push_char_def)
  then show "collection_entries demo_dict ''users'' [[(''address.city'', JStr ''desc'')]] =
    Inr [\<lparr>sk_parts = [''address'', ''city''], sk_desc = True, sk_docId = False\<rparr>, created_at_entry]"
    by (simp add: collection_entries_def demo_lookups replace_dots_def isDocIdField_def final_unique_def)
qed

end
