(* ===== verification/Subscriptions.thy ===== *)
theory Subscriptions
  imports Comparator
begin

text \<open>
  \<open>subscriptions.ts\<close>: the tracker of live subscriptions. A delta for a collection
  subscription changes a materialized view and is batched until the next tick, a delta for a
  listen is projected and delivered at once, and everything that arrives while disconnected
  waits for the reconnect.

  An operation takes the tracker state and gives the new one with the list of its effects:
  calls of consumer callbacks, of the remap hooks, and warnings. A callback is a number; the
  code catches what callbacks throw, and a callback that calls back into the tracker is not
  modelled. A path element or id is a value, because the id of a snapshot row is used as it
  comes; \<open>None\<close> is \<open>undefined\<close>. Values are immutable here, so that \<open>cloneValue\<close>
  protects the suppression baseline is not observable; its result is.
\<close>

section \<open>Deep equality and copies\<close>

fun valuesEqual :: "jv \<Rightarrow> jv \<Rightarrow> bool"
  and arraysEqual :: "jv list \<Rightarrow> jv list \<Rightarrow> bool"
  and recordsEqual :: "props \<Rightarrow> props \<Rightarrow> bool" where
  "valuesEqual (JArr xs) b = (case b of JArr ys \<Rightarrow> length xs = length ys \<and> arraysEqual xs ys | _ \<Rightarrow> False)"
| "valuesEqual (JBytes xs) b = (b = JBytes xs)"
| "valuesEqual (JObj ps) b = (case b of JObj qs \<Rightarrow> length ps = length qs \<and> recordsEqual ps qs | _ \<Rightarrow> False)"
| "valuesEqual (JNum m) b = (case b of JNum n \<Rightarrow> num_eq m n | _ \<Rightarrow> False)"
| "valuesEqual a b = (a = b)"
| "arraysEqual (x # xs) (y # ys) = (valuesEqual x y \<and> arraysEqual xs ys)"
| "arraysEqual xs ys = True"
| "recordsEqual [] qs = True"
| "recordsEqual ((key, v) # ps) qs =
     ((case om_get qs key of Some w \<Rightarrow> valuesEqual v w | None \<Rightarrow> False) \<and> recordsEqual ps qs)"

fun cloneValue :: "jv \<Rightarrow> jv" where
  \<comment> \<open>the copy of a record has no prototype, so \<open>__proto__\<close> is an ordinary key of it\<close>
  "cloneValue (JArr xs) = JArr (map cloneValue xs)"
| "cloneValue (JObj ps) = JObj (foldl (\<lambda>copy (k, v). js_put copy k v) [] (map (\<lambda>(k, v). (k, cloneValue v)) ps))"
| "cloneValue v = v"

section \<open>State\<close>

datatype delta_op = OpSet "jv list" jv | OpRemove "jv list"

fun op_path :: "delta_op \<Rightarrow> jv list" where
  "op_path (OpSet path _) = path"
| "op_path (OpRemove path) = path"

record store_delta =
  sd_subId :: nat
  sd_ops :: "delta_op list"

record view =
  vw_records :: "(jv option, jv) omap"
  vw_comparator :: "jv \<Rightarrow> jv \<Rightarrow> int"

record sub_entry =
  en_params :: store_message
  en_callbacks :: "nat list"
  en_projection :: "string option option"  \<comment> \<open>a listen's projection, with its field\<close>
  en_view :: "view option"
  en_onRemap :: "nat option"               \<comment> \<open>the registration whose hook it is\<close>
  en_lastValue :: "jv option"
  en_deliveredValue :: "jv option"

record tracker =
  tr_subscriptions :: "(nat, sub_entry) omap"
  tr_deltaQueue :: "store_delta list"
  tr_pendingDeltas :: "store_delta list"
  tr_flushScheduled :: bool
  tr_connected :: bool
  tr_debug :: bool

datatype effect = Deliver nat jv | Remap nat nat | WarnUnknown nat

definition new_tracker :: tracker where
  "new_tracker = \<lparr>tr_subscriptions = [], tr_deltaQueue = [], tr_pendingDeltas = [],
     tr_flushScheduled = False, tr_connected = True, tr_debug = False\<rparr>"

definition setDebug :: "bool \<Rightarrow> tracker \<Rightarrow> tracker" where
  "setDebug debug t = t\<lparr>tr_debug := debug\<rparr>"

definition register_entry :: "nat \<Rightarrow> sub_entry \<Rightarrow> tracker \<Rightarrow> tracker" where
  "register_entry subId entry t = t\<lparr>tr_subscriptions := om_set (tr_subscriptions t) subId entry\<rparr>"

definition unregister_entry :: "nat \<Rightarrow> tracker \<Rightarrow> tracker" where
  "unregister_entry subId t = t\<lparr>tr_subscriptions := om_delete (tr_subscriptions t) subId\<rparr>"

definition get_entry :: "tracker \<Rightarrow> nat \<Rightarrow> sub_entry option" where
  "get_entry t subId = om_get (tr_subscriptions t) subId"

definition hasSubscriptions :: "tracker \<Rightarrow> bool" where
  "hasSubscriptions t \<longleftrightarrow> length (tr_subscriptions t) > 0"

definition allSubIds :: "tracker \<Rightarrow> nat list" where
  "allSubIds t = om_keys (tr_subscriptions t)"

definition setDisconnected :: "tracker \<Rightarrow> tracker" where
  "setDisconnected t = t\<lparr>tr_connected := False\<rparr>"

section \<open>Views and projections\<close>

definition apply_view_op :: "(jv option, jv) omap \<Rightarrow> delta_op \<Rightarrow> (jv option, jv) omap \<times> bool" where
  "apply_view_op records op =
     (let did = nth_opt (op_path op) 1 in
      case op of
        OpSet _ v \<Rightarrow> (om_set records did v, True)
      | OpRemove _ \<Rightarrow> (om_delete records did, om_get records did \<noteq> None))"

definition applyOpsToView :: "view \<Rightarrow> delta_op list \<Rightarrow> view \<times> bool" where
  "applyOpsToView view ops =
     (case foldl (\<lambda>(records, changed) op. case apply_view_op records op of (r, c) \<Rightarrow> (r, c \<or> changed))
             (vw_records view, False) ops of
        (records, changed) \<Rightarrow> (view\<lparr>vw_records := records\<rparr>, changed))"

definition snapshotView :: "view \<Rightarrow> jv list" where
  "snapshotView view = js_sort (vw_comparator view) (map snd (vw_records view))"

definition ops_value :: "delta_op list \<Rightarrow> jv" where
  \<comment> \<open>the array of operations itself as a value\<close>
  "ops_value ops = JArr (map (\<lambda>op. case op of
       OpSet path v \<Rightarrow> JObj [(''op'', JStr ''set''), (''path'', JArr path), (''value'', v)]
     | OpRemove path \<Rightarrow> JObj [(''op'', JStr ''remove''), (''path'', JArr path)]) ops)"

fun applyRecordOp :: "props \<Rightarrow> delta_op \<Rightarrow> jv + props" where
  \<comment> \<open>\<open>Inl v\<close>: the operation is on the whole record and gives \<open>v\<close>. Deeper path elements are
      strings\<close>
  "applyRecordOp flat (OpRemove path) =
     (if drop 2 path = [] then Inl JNull
      else Inr (js_assign flat (joinFieldPath (map str_of (drop 2 path))) JNull))"
| "applyRecordOp flat (OpSet path v) =
     (if drop 2 path = [] then Inl v
      else Inr (js_assign flat (joinFieldPath (map str_of (drop 2 path))) v))"

fun reconstruct_loop :: "props \<Rightarrow> delta_op list \<Rightarrow> jv" where
  "reconstruct_loop flat [] = JObj (unflatten flat)"
| "reconstruct_loop flat (op # ops) =
     (case applyRecordOp flat op of Inl v \<Rightarrow> v | Inr flat' \<Rightarrow> reconstruct_loop flat' ops)"

definition reconstructRecord :: "delta_op list \<Rightarrow> jv" where
  "reconstructRecord ops = reconstruct_loop [] ops"

definition project :: "delta_op list \<Rightarrow> string option option \<Rightarrow> jv" where
  "project ops projection =
     (case projection of
        None \<Rightarrow> ops_value ops
      | Some None \<Rightarrow> reconstructRecord ops
      | Some (Some field) \<Rightarrow>
          (case getDeepProperty (Some (reconstructRecord ops)) (split_char CHR ''.'' field) of
             Some v \<Rightarrow> v | None \<Rightarrow> JNull))"

definition createListenProjection :: "string list \<Rightarrow> string option" where
  "createListenProjection segments =
     (if length segments = 2 then None
      else Some (concat (map (\<lambda>(i, p). if i = 0 then p else CHR ''.'' # p)
        (zip [0..<length (drop 2 segments)] (drop 2 segments)))))"

section \<open>Dispatching\<close>

definition deliver_all :: "sub_entry \<Rightarrow> jv \<Rightarrow> effect list" where
  "deliver_all entry v = map (\<lambda>cb. Deliver cb v) (en_callbacks entry)"

definition field_projection :: "sub_entry \<Rightarrow> bool" where
  \<comment> \<open>\<open>entry.projection?.field != null\<close>\<close>
  "field_projection entry \<longleftrightarrow> (case en_projection entry of Some (Some _) \<Rightarrow> True | _ \<Rightarrow> False)"

definition dispatchDelta :: "store_delta \<Rightarrow> tracker \<Rightarrow> tracker \<times> effect list" where
  "dispatchDelta delta t =
     (case get_entry t (sd_subId delta) of
        None \<Rightarrow> (t, [WarnUnknown (sd_subId delta)])
      | Some entry \<Rightarrow>
          let (entry, v) =
            (case en_view entry of
               Some view \<Rightarrow>
                 (let view' = fst (applyOpsToView view (sd_ops delta))
                  in (entry\<lparr>en_view := Some view'\<rparr>, JArr (snapshotView view')))
             | None \<Rightarrow> (entry, project (sd_ops delta) (en_projection entry)))
          in if field_projection entry \<and>
                (case en_lastValue entry of None \<Rightarrow> False | Some prev \<Rightarrow> valuesEqual v prev)
             then (register_entry (sd_subId delta) entry t, [])
             else
               let entry = entry\<lparr>en_lastValue := Some (if field_projection entry then cloneValue v else v),
                                 en_deliveredValue := Some v\<rparr>
               in (register_entry (sd_subId delta) entry t, deliver_all entry v))"

definition scheduleFlush :: "tracker \<Rightarrow> tracker" where
  \<comment> \<open>arms the timer; it fires as the operation \<open>flush_tick\<close>\<close>
  "scheduleFlush t = (if tr_flushScheduled t then t else t\<lparr>tr_flushScheduled := True\<rparr>)"

definition dispatch :: "store_delta \<Rightarrow> tracker \<Rightarrow> tracker \<times> effect list" where
  "dispatch delta t =
     (if \<not> tr_connected t then (t\<lparr>tr_deltaQueue := tr_deltaQueue t @ [delta]\<rparr>, [])
      else case get_entry t (sd_subId delta) of
          Some entry \<Rightarrow>
            if en_view entry \<noteq> None
            then (scheduleFlush (t\<lparr>tr_pendingDeltas := tr_pendingDeltas t @ [delta]\<rparr>), [])
            else dispatchDelta delta t
        | None \<Rightarrow> dispatchDelta delta t)"

fun dispatch_all :: "store_delta list \<Rightarrow> tracker \<Rightarrow> tracker \<times> effect list" where
  "dispatch_all [] t = (t, [])"
| "dispatch_all (d # ds) t =
     (case dispatch d t of (t1, e1) \<Rightarrow> case dispatch_all ds t1 of (t2, e2) \<Rightarrow> (t2, e1 @ e2))"

definition applyToSubscription :: "sub_entry \<Rightarrow> store_delta list \<Rightarrow> sub_entry \<times> effect list" where
  "applyToSubscription entry deltas =
     (case en_view entry of
        None \<Rightarrow> (entry, [])
      | Some view \<Rightarrow>
          (case foldl (\<lambda>(view, changed) delta.
                   case applyOpsToView view (sd_ops delta) of (v, c) \<Rightarrow> (v, c \<or> changed))
                  (view, False) deltas of
             (view', changed) \<Rightarrow>
               let entry = entry\<lparr>en_view := Some view'\<rparr> in
               if \<not> changed then (entry, [])
               else let v = JArr (snapshotView view');
                        entry = entry\<lparr>en_lastValue := Some v, en_deliveredValue := Some v\<rparr>
                    in (entry, deliver_all entry v)))"

definition group_by_sub :: "store_delta list \<Rightarrow> (nat, store_delta list) omap" where
  \<comment> \<open>\<open>bySub\<close>\<close>
  "group_by_sub pending =
     foldl (\<lambda>m delta. case om_get m (sd_subId delta) of
               Some l \<Rightarrow> om_set m (sd_subId delta) (l @ [delta])
             | None \<Rightarrow> om_set m (sd_subId delta) [delta]) [] pending"

fun flush_groups :: "(nat, store_delta list) omap \<Rightarrow> tracker \<Rightarrow> tracker \<times> effect list" where
  "flush_groups [] t = (t, [])"
| "flush_groups ((subId, deltas) # groups) t =
     (case get_entry t subId of
        None \<Rightarrow> flush_groups groups t
      | Some entry \<Rightarrow>
          (case applyToSubscription entry deltas of (entry', e1) \<Rightarrow>
           case flush_groups groups (register_entry subId entry' t) of (t', e2) \<Rightarrow> (t', e1 @ e2)))"

definition flushPending :: "tracker \<Rightarrow> tracker \<times> effect list" where
  "flushPending t =
     (let pending = tr_pendingDeltas t; t = t\<lparr>tr_pendingDeltas := []\<rparr>
      in if length pending = 0 then (t, []) else flush_groups (group_by_sub pending) t)"

definition flush_tick :: "tracker \<Rightarrow> tracker \<times> effect list" where
  "flush_tick t = flushPending (t\<lparr>tr_flushScheduled := False\<rparr>)"

section \<open>Initial snapshots\<close>

fun object_item :: "jv \<Rightarrow> bool" where
  \<comment> \<open>not null, of type object, not an array\<close>
  "object_item (JObj _) = True"
| "object_item (JBytes _) = True"
| "object_item _ = False"

definition createInitialSnapshotOp :: "jv \<Rightarrow> string list \<Rightarrow> jv \<Rightarrow> delta_op option" where
  "createInitialSnapshotOp collection segments item =
     (if \<not> object_item item then None
      else
        let own = js_own item ''id'';
            did = (case own of
                     Some v \<Rightarrow> if truthy v then Some v else map_option JStr (nth_opt segments 1)
                   | None \<Rightarrow> map_option JStr (nth_opt segments 1))
        in case did of
             Some v \<Rightarrow> if truthy v then Some (OpSet [collection, v] item) else None
           | None \<Rightarrow> None)"

definition createInitialSnapshotDelta :: "nat \<Rightarrow> string list \<Rightarrow> jv \<Rightarrow> store_delta" where
  \<comment> \<open>there is always a first segment\<close>
  "createInitialSnapshotDelta subId segments value =
     (let collection = JStr (hd segments);
          items = (case value of JArr xs \<Rightarrow> xs | JNull \<Rightarrow> [] | _ \<Rightarrow> [value])
      in \<lparr>sd_subId = subId, sd_ops = List.map_filter (createInitialSnapshotOp collection segments) items\<rparr>)"

definition dispatchInitialSnapshot :: "nat \<Rightarrow> string list \<Rightarrow> jv \<Rightarrow> tracker \<Rightarrow> tracker \<times> effect list" where
  "dispatchInitialSnapshot subId segments value t =
     (let delta = createInitialSnapshotDelta subId segments value
      in if length (sd_ops delta) > 0 then dispatch delta t else (t, []))"

section \<open>Reconnecting\<close>

definition replayAll :: "tracker \<Rightarrow> (store_message \<times> nat) list" where
  \<comment> \<open>the arguments of the calls of \<open>send\<close>, whose promises are awaited together\<close>
  "replayAll t = map (\<lambda>(subId, entry). (en_params entry, subId)) (tr_subscriptions t)"

fun remap_loop :: "(nat, nat) omap \<Rightarrow> (nat, sub_entry) omap \<Rightarrow> (nat, sub_entry) omap
    \<Rightarrow> (nat, sub_entry) omap \<times> effect list" where
  "remap_loop oldToNew [] remapped = (remapped, [])"
| "remap_loop oldToNew ((oldId, entry) # subs) remapped =
     (case om_get oldToNew oldId of
        Some newId \<Rightarrow>
          (case remap_loop oldToNew subs (om_set remapped newId entry) of (r, es) \<Rightarrow>
             (r, (case en_onRemap entry of Some k \<Rightarrow> [Remap k newId] | None \<Rightarrow> []) @ es))
      | None \<Rightarrow> remap_loop oldToNew subs (om_set remapped oldId entry))"

definition clear_view :: "sub_entry \<Rightarrow> sub_entry" where
  "clear_view entry = entry\<lparr>en_view := map_option (\<lambda>view. view\<lparr>vw_records := []\<rparr>) (en_view entry)\<rparr>"

definition clearMaterializedViews :: "tracker \<Rightarrow> tracker" where
  "clearMaterializedViews t =
     t\<lparr>tr_subscriptions := map (\<lambda>(k, entry). (k, clear_view entry)) (tr_subscriptions t)\<rparr>"

definition reconnect :: "(nat, nat) omap \<Rightarrow> (tracker \<Rightarrow> tracker \<times> effect list) \<Rightarrow> tracker \<Rightarrow> tracker \<times> effect list" where
  \<comment> \<open>\<open>beforeDrain\<close> is the operation it performs on the tracker\<close>
  "reconnect oldToNew beforeDrain t =
     (case remap_loop oldToNew (tr_subscriptions t) [] of (remapped, e0) \<Rightarrow>
      let t = t\<lparr>tr_subscriptions := remapped, tr_pendingDeltas := []\<rparr>;
          t = (clearMaterializedViews t)\<lparr>tr_connected := True\<rparr>
      in case beforeDrain t of (t, e1) \<Rightarrow>
         case dispatch_all (tr_deltaQueue t) (t\<lparr>tr_deltaQueue := []\<rparr>) of (t, e2) \<Rightarrow>
           (t, e0 @ e1 @ e2))"

end
