(* ===== verification/ConnWire.thy ===== *)
theory ConnWire
  imports Subscriptions
begin

text \<open>
  \<open>connection_wire.ts\<close>: between the client's messages and those on the wire. Outbound
  messages are typed, as the builders make them; what the MessagePack library decoded from a
  frame is an arbitrary value. The library itself stands outside: a frame is given by the
  values it decodes to, in order, up to the first malformed one.
\<close>

section \<open>Message types\<close>

definition WireMessageType :: "(string \<times> nat) list" where
  "WireMessageType =
    [(''ok'', 0x00), (''error'', 0x01), (''Ping'', 0x02), (''SchemaSync'', 0x03), (''AuthRefresh'', 0x04),
     (''ServerDisconnect'', 0x05), (''StoreSetNamespace'', 0x10), (''StoreSet'', 0x11),
     (''StoreRemove'', 0x12), (''StoreBatch'', 0x13), (''StoreQuery'', 0x14), (''StoreSubscribe'', 0x15),
     (''StoreUnsubscribe'', 0x16), (''StoreLoadMore'', 0x17), (''StoreDelta'', 0x18),
     (''WriteCommitted'', 0x19), (''WriteError'', 0x1a), (''PresenceSetNamespace'', 0x20),
     (''PresenceSet'', 0x21), (''PresenceSetShared'', 0x22), (''PresenceSubscribe'', 0x23),
     (''PresenceUnsubscribe'', 0x24), (''PresenceSubscribeShared'', 0x25),
     (''PresenceUnsubscribeShared'', 0x26), (''PresenceRemove'', 0x27), (''PresenceBroadcast'', 0x28),
     (''SharedStateBroadcast'', 0x29), (''ActionCall'', 0x30), (''ActionForward'', 0x31),
     (''ActionReply'', 0x32), (''ActionRegister'', 0x33)]"

definition wire_type :: "string \<Rightarrow> nat" where
  "wire_type name = (case map_of WireMessageType name of Some n \<Rightarrow> n | None \<Rightarrow> 0)"

definition OUTBOUND_WIRE_TYPES :: "(string \<times> nat) list" where
  "OUTBOUND_WIRE_TYPES = map (\<lambda>name. (name, wire_type name))
    [''Ping'', ''AuthRefresh'', ''StoreSet'', ''StoreRemove'', ''StoreBatch'', ''StoreSetNamespace'',
     ''StoreQuery'', ''StoreSubscribe'', ''StoreUnsubscribe'', ''StoreLoadMore'', ''PresenceSetNamespace'',
     ''PresenceSet'', ''PresenceSetShared'', ''PresenceSubscribe'', ''PresenceUnsubscribe'',
     ''PresenceSubscribeShared'', ''PresenceUnsubscribeShared'', ''PresenceRemove'', ''ActionCall'',
     ''ActionReply'', ''ActionRegister'']"

definition INBOUND_WIRE_TYPES :: "(nat \<times> string) list" where
  "INBOUND_WIRE_TYPES = map (\<lambda>name. (wire_type name, name))
    [''ok'', ''error'', ''ServerDisconnect'', ''SchemaSync'', ''StoreDelta'', ''WriteCommitted'', ''WriteError'',
     ''PresenceBroadcast'', ''SharedStateBroadcast'', ''ActionForward'']"

section \<open>Outbound messages\<close>

datatype action_ref = ActionByName string | ActionById nat

datatype outbound =
    OutPing
  | OutAuthRefresh string
  | OutStore store_message
  | OutStoreSetNamespace string
  | OutPresenceSetNamespace string
  | OutPresenceSet jv
  | OutPresenceSetShared jv
  | OutPresenceSubscribe
  | OutPresenceUnsubscribe nat
  | OutPresenceSubscribeShared
  | OutPresenceUnsubscribeShared nat
  | OutPresenceRemove
  | OutActionCall string "jnum option" "jv option"     \<comment> \<open>name, timeoutMs, params\<close>
  | OutActionReply nat bool jv
  | OutActionRegister "action_ref list"

fun store_type :: "store_message \<Rightarrow> string" where
  "store_type (StoreSet _ _ _ _) = ''StoreSet''"
| "store_type (StoreRemove _ _ _) = ''StoreRemove''"
| "store_type (StoreQuery _ _) = ''StoreQuery''"
| "store_type (StoreBatch _ _ _) = ''StoreBatch''"
| "store_type (StoreSubscribe _ _) = ''StoreSubscribe''"
| "store_type (StoreUnsubscribe _) = ''StoreUnsubscribe''"
| "store_type (StoreLoadMore _ _) = ''StoreLoadMore''"

fun out_type :: "outbound \<Rightarrow> string" where
  "out_type OutPing = ''Ping''"
| "out_type (OutAuthRefresh _) = ''AuthRefresh''"
| "out_type (OutStore m) = store_type m"
| "out_type (OutStoreSetNamespace _) = ''StoreSetNamespace''"
| "out_type (OutPresenceSetNamespace _) = ''PresenceSetNamespace''"
| "out_type (OutPresenceSet _) = ''PresenceSet''"
| "out_type (OutPresenceSetShared _) = ''PresenceSetShared''"
| "out_type OutPresenceSubscribe = ''PresenceSubscribe''"
| "out_type (OutPresenceUnsubscribe _) = ''PresenceUnsubscribe''"
| "out_type OutPresenceSubscribeShared = ''PresenceSubscribeShared''"
| "out_type (OutPresenceUnsubscribeShared _) = ''PresenceUnsubscribeShared''"
| "out_type OutPresenceRemove = ''PresenceRemove''"
| "out_type (OutActionCall _ _ _) = ''ActionCall''"
| "out_type (OutActionReply _ _ _) = ''ActionReply''"
| "out_type (OutActionRegister _) = ''ActionRegister''"

datatype wire_batch_op = WireBSet wire_path jv | WireBRemove wire_path

type_synonym wire_cond = "nat \<times> op_code \<times> jv option"

record wire_query =
  wq_conditions :: "wire_cond list option"
  wq_orConditions :: "wire_cond list option"
  wq_orderBy :: "(nat \<times> nat) list option"
  wq_limit :: "jnum option"
  wq_after :: "string option"

datatype wire_message =
    WireSet wire_path jv "string option" "string option"
  | WireRemove wire_path "string option" "string option"
  | WireBatch "wire_batch_op list" "string option" "string option"
  | WireRead nat wire_query
  | WireData jv                              \<comment> \<open>PresenceSet and PresenceSetShared\<close>
  | WireActionCall nat "jnum option" jv
  | WireActionRegister "nat list"
  | WireAsIs outbound                        \<comment> \<open>no field is encoded\<close>

record pending_context =
  cx_type :: string
  cx_responseTableIndex :: "nat option"
  cx_actionName :: "string option"

record encoded =
  eo_type :: nat
  eo_id :: nat
  eo_message :: wire_message
  eo_context :: pending_context

definition object_props :: "jv \<Rightarrow> props option" where
  \<comment> \<open>\<open>v && typeof v === "object"\<close>, with the entries that an encoder then walks\<close>
  "object_props v = (if js_typeof v = TypeObject \<and> v \<noteq> JNull
     then (case object_entries v of Inr ps \<Rightarrow> Some ps | Inl _ \<Rightarrow> None) else None)"

definition path_table :: "wire_path \<Rightarrow> nat" where
  \<comment> \<open>\<open>encodedPath[0]\<close>\<close>
  "path_table w = (case w of WEmpty \<Rightarrow> 0 | WTable ti \<Rightarrow> nat ti | WDoc ti _ \<Rightarrow> nat ti | WField ti _ _ \<Rightarrow> nat ti)"

definition encode_record_value :: "dict \<Rightarrow> nat \<Rightarrow> jv \<Rightarrow> thrown + jv" where
  \<comment> \<open>a value that is an object but no array is sent as a sparse field array\<close>
  "encode_record_value d ti v =
     (case own_entries v of Some ps \<Rightarrow> and_then (encodeValue d ti ps) (\<lambda>w. Inr (JArr w)) | None \<Rightarrow> Inr v)"

definition encode_set :: "dict \<Rightarrow> string list \<Rightarrow> jv \<Rightarrow> thrown + (wire_path \<times> jv)" where
  "encode_set d path v =
     (if path = [] then Inr (WEmpty, v)
      else and_then (encodePath d path) (\<lambda>w.
           and_then (encode_record_value d (path_table w) v) (\<lambda>v'. Inr (w, v'))))"

definition encode_remove :: "dict \<Rightarrow> string list \<Rightarrow> thrown + wire_path" where
  "encode_remove d path = (if path = [] then Inr WEmpty else encodePath d path)"

fun encodeBatchOp :: "dict \<Rightarrow> batch_op \<Rightarrow> thrown + wire_batch_op" where
  "encodeBatchOp d (BRemove path) = and_then (encode_remove d path) (\<lambda>w. Inr (WireBRemove w))"
| "encodeBatchOp d (BSet path v) = and_then (encode_set d path v) (\<lambda>(w, v'). Inr (WireBSet w v'))"

definition encodeStoreBatch :: "dict \<Rightarrow> batch_op list \<Rightarrow> thrown + wire_batch_op list" where
  "encodeStoreBatch d ops = traverse (encodeBatchOp d) ops"

definition encodeConditions :: "dict \<Rightarrow> nat \<Rightarrow> wire_condition list \<Rightarrow> thrown + wire_cond list" where
  "encodeConditions d ti conds =
     traverse (\<lambda>(field, op, v).
       and_then (getFieldIndex d ti field) (\<lambda>fi.
         case v of
           None \<Rightarrow> Inr (fi, op, None)
         | Some v \<Rightarrow> and_then (encodeFieldValue d (int ti) (int fi) v) (\<lambda>v'. Inr (fi, op, Some v')))) conds"

definition encodeWireOrderBy :: "dict \<Rightarrow> nat \<Rightarrow> (string \<times> nat) list \<Rightarrow> thrown + (nat \<times> nat) list" where
  "encodeWireOrderBy d ti pairs =
     traverse (\<lambda>(field, dir). and_then (getFieldIndex d ti field) (\<lambda>fi. Inr (fi, dir))) pairs"

definition encode_opt :: "('a \<Rightarrow> thrown + 'b) \<Rightarrow> 'a option \<Rightarrow> thrown + 'b option" where
  "encode_opt f x = (case x of None \<Rightarrow> Inr None | Some a \<Rightarrow> and_then (f a) (\<lambda>b. Inr (Some b)))"

definition encodeStoreRead :: "dict \<Rightarrow> string \<Rightarrow> query_fields \<Rightarrow> thrown + wire_message" where
  "encodeStoreRead d collection q =
     and_then (getTableIndex d collection) (\<lambda>ti.
     and_then (encode_opt (encodeConditions d ti) (qf_conditions q)) (\<lambda>c.
     and_then (encode_opt (encodeConditions d ti) (qf_orConditions q)) (\<lambda>oc.
     and_then (encode_opt (encodeWireOrderBy d ti) (qf_orderBy q)) (\<lambda>ob.
       Inr (WireRead ti \<lparr>wq_conditions = c, wq_orConditions = oc, wq_orderBy = ob,
              wq_limit = qf_limit q, wq_after = qf_after q\<rparr>)))))"

fun encodeStoreMessage :: "dict \<Rightarrow> store_message \<Rightarrow> thrown + wire_message" where
  "encodeStoreMessage d (StoreSet path v confirm writeId) =
     and_then (encode_set d path v) (\<lambda>(w, v'). Inr (WireSet w v' confirm writeId))"
| "encodeStoreMessage d (StoreRemove path confirm writeId) =
     and_then (encode_remove d path) (\<lambda>w. Inr (WireRemove w confirm writeId))"
| "encodeStoreMessage d (StoreBatch ops confirm writeId) =
     and_then (encodeStoreBatch d ops) (\<lambda>ws. Inr (WireBatch ws confirm writeId))"
| "encodeStoreMessage d (StoreQuery collection q) = encodeStoreRead d collection q"
| "encodeStoreMessage d (StoreSubscribe collection q) = encodeStoreRead d collection q"
| "encodeStoreMessage d m = Inr (WireAsIs (OutStore m))"

definition encode_ref :: "dict \<Rightarrow> action_ref \<Rightarrow> thrown + nat" where
  "encode_ref d r = (case r of ActionById i \<Rightarrow> Inr i | ActionByName n \<Rightarrow> and_then (getAction d n) (\<lambda>a. Inr (ae_id a)))"

fun encodeWireMessage :: "dict \<Rightarrow> outbound \<Rightarrow> thrown + wire_message" where
  "encodeWireMessage d (OutStore m) = encodeStoreMessage d m"
| "encodeWireMessage d (OutPresenceSet data) =
     (case object_props data of
        Some ps \<Rightarrow> and_then (encodePresenceUserValue d ps) (\<lambda>w. Inr (WireData (JArr w)))
      | None \<Rightarrow> Inr (WireData data))"
| "encodeWireMessage d (OutPresenceSetShared data) =
     (case object_props data of
        Some ps \<Rightarrow> and_then (encodePresenceSharedValue d ps) (\<lambda>w. Inr (WireData (JArr w)))
      | None \<Rightarrow> Inr (WireData data))"
| "encodeWireMessage d (OutActionCall name timeoutMs params) =
     and_then (getAction d name) (\<lambda>action.
     and_then (encodeActionParams action
         (case params of Some v \<Rightarrow> (case object_props v of Some ps \<Rightarrow> ps | None \<Rightarrow> []) | None \<Rightarrow> [])) (\<lambda>w.
       Inr (WireActionCall (ae_id action) timeoutMs (JArr w))))"
| "encodeWireMessage d (OutActionRegister refs) =
     and_then (traverse (encode_ref d) refs) (\<lambda>ids. Inr (WireActionRegister ids))"
| "encodeWireMessage d m = Inr (WireAsIs m)"

definition mapSchemaEncodingError :: "thrown \<Rightarrow> zync_error" where
  "mapSchemaEncodingError err =
     (case err of
        TZync e \<Rightarrow> e
      | TSchema m TABLE_NOT_FOUND \<Rightarrow> new_ZyncBaseError m ''COLLECTION_NOT_FOUND'' ''validation'' False
      | TSchema m FIELD_NOT_FOUND \<Rightarrow> new_ZyncBaseError m ''FIELD_NOT_FOUND'' ''validation'' False
      | _ \<Rightarrow> new_ZyncBaseError (error_message err ''Schema encoding failed'') ''INVALID_MESSAGE'' ''validation'' False)"

definition wire_table :: "wire_message \<Rightarrow> nat option" where
  \<comment> \<open>\<open>wireMessage.table_index\<close> when it is a number\<close>
  "wire_table w = (case w of WireRead ti _ \<Rightarrow> Some ti | _ \<Rightarrow> None)"

definition encode_outbound :: "dict \<Rightarrow> outbound \<Rightarrow> nat \<Rightarrow> nat option \<Rightarrow> thrown + encoded" where
  "encode_outbound d message mid localResponseTableIndex =
     (case encodeWireMessage d message of
        Inl err \<Rightarrow> Inl (TZync (mapSchemaEncodingError err))
      | Inr w \<Rightarrow>
          (case map_of OUTBOUND_WIRE_TYPES (out_type message) of
             None \<Rightarrow> Inl (TZync (mapSchemaEncodingError
               (TError (''Unregistered outbound message type: '' @ out_type message))))
           | Some wireType \<Rightarrow>
               Inr \<lparr>eo_type = wireType, eo_id = mid, eo_message = w,
                    eo_context = \<lparr>cx_type = out_type message,
                      cx_responseTableIndex = (case localResponseTableIndex of Some i \<Rightarrow> Some i | None \<Rightarrow> wire_table w),
                      cx_actionName = (case message of OutActionCall name _ _ \<Rightarrow> Some name | _ \<Rightarrow> None)\<rparr>\<rparr>))"

section \<open>Inbound messages\<close>

record presence_event =
  pe_userId :: "byte list"
  pe_event :: string
  pe_data :: "props option"
  pe_joinedAt :: "nat option"

record action_forward =
  af_execId :: nat
  af_userId :: string
  af_action_id :: nat
  af_params :: "jv list"
  af_claims :: props

datatype inbound =
    InDelta store_delta
  | InPresence nat "presence_event list"
  | InShared nat "props list"
  | InAction action_forward
  | InObject string props          \<comment> \<open>a message sent as a map, its type resolved\<close>

definition safe_int :: "jv \<Rightarrow> int option" where
  "safe_int v = (case v of JNum (Fin r) \<Rightarrow> if is_safe_integer (Fin r) then Some (floor r) else None | _ \<Rightarrow> None)"

definition safe_nat :: "jv \<Rightarrow> nat option" where
  \<comment> \<open>\<open>isNonNegativeSafeInteger\<close>, with the number\<close>
  "safe_nat v = (case safe_int v of Some i \<Rightarrow> if i \<ge> 0 then Some (nat i) else None | None \<Rightarrow> None)"

fun wire_doc_id :: "jv \<Rightarrow> wire_id option" where
  \<comment> \<open>\<open>isWireDocId\<close>, with the id\<close>
  "wire_doc_id (JStr s) = Some (WText s)"
| "wire_doc_id (JBytes p) = Some (WBin p)"
| "wire_doc_id v = map_option (\<lambda>n. WNum (int n)) (safe_nat v)"

definition is_code :: "nat \<Rightarrow> jv \<Rightarrow> bool" where
  "is_code n v \<longleftrightarrow> v = JNum (nat_num n)"

definition hasValidStoreDeltaHeader :: "jv list \<Rightarrow> bool" where
  "hasValidStoreDeltaHeader raw \<longleftrightarrow>
     length raw = 5 \<and> is_code (wire_type ''StoreDelta'') (raw ! 0) \<and> safe_int (raw ! 1) \<noteq> None
     \<and> (is_code 0 (raw ! 2) \<or> is_code 1 (raw ! 2)) \<and> safe_int (raw ! 3) \<noteq> None"

definition delta_of :: "nat \<Rightarrow> delta_op \<Rightarrow> store_delta" where
  "delta_of subId op = \<lparr>sd_subId = subId, sd_ops = [op]\<rparr>"

definition decodeStoreDelta :: "dict \<Rightarrow> jv list \<Rightarrow> store_delta option" where
  "decodeStoreDelta d raw =
     (if \<not> hasValidStoreDeltaHeader raw then None
      else
        let subId = the (safe_int (raw ! 1)); tableIndex = the (safe_int (raw ! 3)) in
        if subId < 0 \<or> tableIndex < 0 then None
        else if is_code 1 (raw ! 2)
        then (case wire_doc_id (raw ! 4) of
                None \<Rightarrow> None
              | Some w \<Rightarrow>
                  (case decodePath d (WDoc tableIndex w) of
                     Inr path \<Rightarrow> Some (delta_of (nat subId) (OpRemove (map JStr path)))
                   | Inl _ \<Rightarrow> None))
        else (case raw ! 4 of
                JArr row \<Rightarrow>
                  (case decodeRecord d tableIndex row of
                     Inr v \<Rightarrow>
                       (case om_get v ''id'' of
                          Some (JStr did) \<Rightarrow>
                            (case decodePath d (WDoc tableIndex (WText did)) of
                               Inr path \<Rightarrow> Some (delta_of (nat subId) (OpSet (map JStr path) (JObj v)))
                             | Inl _ \<Rightarrow> None)
                        | _ \<Rightarrow> None)
                   | Inl _ \<Rightarrow> None)
              | _ \<Rightarrow> None))"

fun index_places :: "jv list \<Rightarrow> bool" where
  \<comment> \<open>every element at an even place is an index\<close>
  "index_places (i # _ # rest) = (safe_nat i \<noteq> None \<and> index_places rest)"
| "index_places [i] = (safe_nat i \<noteq> None)"
| "index_places [] = True"

definition isSparseFieldArray :: "jv \<Rightarrow> bool" where
  "isSparseFieldArray v = (case v of JArr xs \<Rightarrow> even (length xs) \<and> index_places xs | _ \<Rightarrow> False)"

definition sparse_of :: "jv \<Rightarrow> sparse" where
  "sparse_of v = (case v of JArr xs \<Rightarrow> xs | _ \<Rightarrow> [])"

definition PRESENCE_EVENT_NAMES :: "string list" where
  "PRESENCE_EVENT_NAMES = [''join'', ''update'', ''leave'']"

definition PRESENCE_EVENT_ARITIES :: "nat list" where
  "PRESENCE_EVENT_ARITIES = [4, 3, 2]"

definition presence_header :: "jv \<Rightarrow> (byte list \<times> nat \<times> jv list) option" where
  \<comment> \<open>\<open>isPresenceEntryHeader\<close>, with the user id, the tag and the entry\<close>
  "presence_header v =
     (case v of
        JArr (JBytes userId # tag # rest) \<Rightarrow>
          (case safe_nat tag of
             Some n \<Rightarrow> if length userId = 16 \<and> n < length PRESENCE_EVENT_NAMES
                       then Some (userId, n, JBytes userId # tag # rest) else None
           | None \<Rightarrow> None)
      | _ \<Rightarrow> None)"

definition decodePresenceEntry :: "dict \<Rightarrow> jv \<Rightarrow> thrown + presence_event option" where
  "decodePresenceEntry d v =
     (case presence_header v of
        None \<Rightarrow> Inr None
      | Some (userId, tag, entry) \<Rightarrow>
          if length entry \<noteq> PRESENCE_EVENT_ARITIES ! tag then Inr None
          else
            let event = PRESENCE_EVENT_NAMES ! tag in
            and_then
              (if event \<noteq> ''leave''
               then (if \<not> isSparseFieldArray (entry ! 2) then Inr None
                     else and_then (decodePresenceUserValue d (sparse_of (entry ! 2))) (\<lambda>ps. Inr (Some (Some ps))))
               else Inr (Some None)) (\<lambda>data.
            case data of
              None \<Rightarrow> Inr None
            | Some data \<Rightarrow>
                if event = ''join''
                then (case safe_nat (entry ! 3) of
                        None \<Rightarrow> Inr None
                      | Some time \<Rightarrow> Inr (Some \<lparr>pe_userId = userId, pe_event = event, pe_data = data, pe_joinedAt = Some time\<rparr>))
                else Inr (Some \<lparr>pe_userId = userId, pe_event = event, pe_data = data, pe_joinedAt = None\<rparr>)))"

fun presence_entries :: "dict \<Rightarrow> jv list \<Rightarrow> presence_event list option" where
  \<comment> \<open>the loop of \<open>decodePresenceBroadcast\<close>: an entry that is refused or throws refuses all\<close>
  "presence_entries d [] = Some []"
| "presence_entries d (e # es) =
     (case decodePresenceEntry d e of
        Inr (Some p) \<Rightarrow> map_option (\<lambda>ps. p # ps) (presence_entries d es)
      | _ \<Rightarrow> None)"

definition decodePresenceBroadcast :: "dict \<Rightarrow> jv list \<Rightarrow> inbound option" where
  "decodePresenceBroadcast d raw =
     (case raw of
        [t, subId, JArr entries] \<Rightarrow>
          (case safe_nat subId of
             Some s \<Rightarrow> if is_code (wire_type ''PresenceBroadcast'') t
                       then map_option (InPresence s) (presence_entries d entries) else None
           | None \<Rightarrow> None)
      | _ \<Rightarrow> None)"

fun shared_patches :: "dict \<Rightarrow> jv list \<Rightarrow> props list option" where
  "shared_patches d [] = Some []"
| "shared_patches d (p # ps) =
     (if \<not> isSparseFieldArray p then None
      else case decodePresenceSharedValue d (sparse_of p) of
          Inr patch \<Rightarrow> map_option (\<lambda>qs. patch # qs) (shared_patches d ps)
        | Inl _ \<Rightarrow> None)"

definition decodeSharedStateBroadcast :: "dict \<Rightarrow> jv list \<Rightarrow> inbound option" where
  "decodeSharedStateBroadcast d raw =
     (case raw of
        [t, subId, JArr patches] \<Rightarrow>
          (case safe_nat subId of
             Some s \<Rightarrow> if is_code (wire_type ''SharedStateBroadcast'') t
                       then map_option (InShared s) (shared_patches d patches) else None
           | None \<Rightarrow> None)
      | _ \<Rightarrow> None)"

definition decodeActionForward :: "dict \<Rightarrow> jv list \<Rightarrow> inbound option" where
  "decodeActionForward d raw =
     (case raw of
        [t, execId, JBytes userId, actionId, params, JObj claims] \<Rightarrow>
          (case (safe_nat execId, safe_nat actionId) of
             (Some e, Some a) \<Rightarrow>
               if is_code (wire_type ''ActionForward'') t \<and> length userId = 16 \<and> isSparseFieldArray params
               then (case decodePresenceUserId userId of
                       Inr u \<Rightarrow> Some (InAction \<lparr>af_execId = e, af_userId = u, af_action_id = a,
                                        af_params = sparse_of params, af_claims = claims\<rparr>)
                     | Inl _ \<Rightarrow> None)
               else None
           | _ \<Rightarrow> None)
      | _ \<Rightarrow> None)"

definition inboundTypeName :: "jv \<Rightarrow> string option" where
  "inboundTypeName rawType =
     (case rawType of
        JNum (Fin r) \<Rightarrow> if of_int (floor r) = r \<and> r \<ge> 0 then map_of INBOUND_WIRE_TYPES (nat (floor r)) else None
      | _ \<Rightarrow> None)"

definition decodeMessage :: "dict \<Rightarrow> jv \<Rightarrow> inbound option" where
  "decodeMessage d raw =
     (case raw of
        JArr xs \<Rightarrow>
          (case xs of
             [] \<Rightarrow> None
           | t # _ \<Rightarrow>
               if is_code (wire_type ''StoreDelta'') t then map_option InDelta (decodeStoreDelta d xs)
               else if is_code (wire_type ''PresenceBroadcast'') t then decodePresenceBroadcast d xs
               else if is_code (wire_type ''SharedStateBroadcast'') t then decodeSharedStateBroadcast d xs
               else if is_code (wire_type ''ActionForward'') t then decodeActionForward d xs
               else None)
      | JObj ps \<Rightarrow>
          (case om_get ps ''type'' of
             None \<Rightarrow> None
           | Some rawType \<Rightarrow>
               (case inboundTypeName rawType of
                  None \<Rightarrow> None
                | Some name \<Rightarrow>
                    if name \<in> set [''StoreDelta'', ''PresenceBroadcast'', ''SharedStateBroadcast'', ''ActionForward'']
                    then None else Some (InObject name (js_put ps ''type'' (JStr name)))))
      | _ \<Rightarrow> None)"

definition decodeMulti :: "dict \<Rightarrow> jv list \<Rightarrow> inbound list" where
  \<comment> \<open>of the values that the library decodes before the frame ends or breaks off\<close>
  "decodeMulti d raws = List.map_filter (decodeMessage d) raws"

section \<open>Answers\<close>

definition isStoreReadContext :: "pending_context \<Rightarrow> bool" where
  "isStoreReadContext c \<longleftrightarrow>
     (cx_type c = ''StoreQuery'' \<or> cx_type c = ''StoreSubscribe'' \<or> cx_type c = ''StoreLoadMore'')
     \<and> cx_responseTableIndex c \<noteq> None"

definition decodeRow :: "dict \<Rightarrow> nat \<Rightarrow> jv \<Rightarrow> thrown + jv" where
  "decodeRow d ti row =
     (case row of JArr ws \<Rightarrow> and_then (decodeRecord d (int ti) ws) (\<lambda>ps. Inr (JObj ps))
      | _ \<Rightarrow> Inl (TError ''Invalid positional store record''))"

definition decodeStoreRows :: "dict \<Rightarrow> props \<Rightarrow> nat \<Rightarrow> thrown + props" where
  "decodeStoreRows d ok ti =
     (case om_get ok ''value'' of
        Some (JArr rows) \<Rightarrow> and_then (traverse (decodeRow d ti) rows) (\<lambda>vs. Inr (js_put ok ''value'' (JArr vs)))
      | _ \<Rightarrow> Inl (TError ''Invalid positional store response''))"

definition sparse_arg :: "string \<Rightarrow> jv option \<Rightarrow> thrown + sparse" where
  \<comment> \<open>what the sparse decoders read of a value that is no array: without a length it is refused
      as of odd length, a string or byte array is read element by element\<close>
  "sparse_arg label v =
     (case v of
        None \<Rightarrow> Inl type_error
      | Some JNull \<Rightarrow> Inl type_error
      | Some (JArr xs) \<Rightarrow> Inr xs
      | Some (JStr s) \<Rightarrow> Inr (map (\<lambda>c. JStr [c]) s)
      | Some (JBytes bs) \<Rightarrow> Inr (map (\<lambda>b. JNum (nat_num (unat b))) bs)
      | Some _ \<Rightarrow> Inl (TSchema (''SchemaDictionary: odd-length sparse field array for '' @ label @ '' (undefined)'')
                    INVALID_MESSAGE_FORMAT))"

definition opt_prop :: "string \<Rightarrow> jv option \<Rightarrow> props" where
  "opt_prop k v = (case v of Some w \<Rightarrow> [(k, w)] | None \<Rightarrow> [])"

definition decode_user :: "dict \<Rightarrow> jv \<Rightarrow> thrown + jv" where
  \<comment> \<open>a property that is undefined is left out\<close>
  "decode_user d user =
     (if user = JNull then Inl type_error
      else and_then (sparse_arg ''presence user data'' (js_own user ''data'')) (\<lambda>ws.
           and_then (decodePresenceUserValue d ws) (\<lambda>ps.
             Inr (JObj (opt_prop ''userId'' (js_own user ''userId'') @ [(''data'', JObj ps)]
                        @ opt_prop ''joinedAt'' (js_own user ''joinedAt''))))))"

definition decodePresenceUsers :: "dict \<Rightarrow> props \<Rightarrow> thrown + props" where
  "decodePresenceUsers d ok =
     (case om_get ok ''users'' of
        Some (JArr users) \<Rightarrow> and_then (traverse (decode_user d) users) (\<lambda>us. Inr (js_put ok ''users'' (JArr us)))
      | _ \<Rightarrow> Inr ok)"

definition decodeActionCallOk :: "dict \<Rightarrow> props \<Rightarrow> string \<Rightarrow> thrown + props" where
  \<comment> \<open>\<open>value: undefined\<close> is a property that is absent to every reader\<close>
  "decodeActionCallOk d ok actionName =
     and_then (getAction d actionName) (\<lambda>action.
       if \<not> ae_hasReturns action then Inr ok
       else case om_get ok ''value'' of
           Some (JArr ws) \<Rightarrow> and_then (decodeActionReturns action ws) (\<lambda>ps.
             Inr (js_put (om_delete ok ''value'') ''actionResult'' (JObj ps)))
         | _ \<Rightarrow> Inl (TError ''Invalid action returns payload''))"

definition decodeOkResponse :: "dict \<Rightarrow> props \<Rightarrow> pending_context option \<Rightarrow> thrown + props" where
  "decodeOkResponse d ok context =
     (case context of
        None \<Rightarrow> Inr ok
      | Some c \<Rightarrow>
          if isStoreReadContext c then decodeStoreRows d ok (the (cx_responseTableIndex c))
          else if cx_type c = ''PresenceSubscribe'' \<and> (case om_get ok ''users'' of Some (JArr _) \<Rightarrow> True | _ \<Rightarrow> False)
          then decodePresenceUsers d ok
          else if cx_type c = ''PresenceSubscribeShared'' \<and> \<not> nullish (om_get ok ''shared'')
          then and_then (sparse_arg ''presence shared data'' (om_get ok ''shared'')) (\<lambda>ws.
               and_then (decodePresenceSharedValue d ws) (\<lambda>ps. Inr (js_put ok ''shared'' (JObj ps))))
          else if cx_type c = ''ActionCall'' \<and> cx_actionName c \<noteq> None \<and> cx_actionName c \<noteq> Some []
          then decodeActionCallOk d ok (the (cx_actionName c))
          else Inr ok)"

definition js_string_field :: "props \<Rightarrow> string \<Rightarrow> string" where
  "js_string_field ps k = (case om_get ps k of Some (JStr s) \<Rightarrow> s | _ \<Rightarrow> [])"

definition error_payload :: "props \<Rightarrow> server_error" where
  \<comment> \<open>an error message of the server as the payload of \<open>fromServerResponse\<close>\<close>
  "error_payload ps =
     \<lparr>se_code = js_string_field ps ''code'', se_message = js_string_field ps ''message'',
      se_retryAfter = (case om_get ps ''retryAfter'' of Some (JNum n) \<Rightarrow> Some n | _ \<Rightarrow> None),
      se_requestId = (case om_get ps ''requestId'' of Some (JNum n) \<Rightarrow> Some n | _ \<Rightarrow> None),
      se_path = (case om_get ps ''path'' of Some (JArr xs) \<Rightarrow> Some (map str_of xs) | _ \<Rightarrow> None),
      se_details = (case om_get ps ''details'' of Some (JObj d) \<Rightarrow> Some d | _ \<Rightarrow> None)\<rparr>"

definition errorResponseToError :: "props \<Rightarrow> zync_error" where
  "errorResponseToError err = fromServerResponse (error_payload err)"

end
