(* ===== verification/ConnWireSpec.thy ===== *)
theory ConnWireSpec
  imports ConnWire
begin

text \<open>
  What the wire codec promises: every outbound message is encoded under its registered type
  or refused with a \<open>ZyncBaseError\<close>, a batch is encoded as its single operations, a query
  names the fields it was asked for and its answer is decoded with its table, and a record
  written to the server comes back in a delta as it was written.
\<close>

section \<open>Numbers on the wire\<close>

lemma safe_int_nat [simp]: "n \<le> 9007199254740991 \<Longrightarrow> safe_int (JNum (nat_num n)) = Some (int n)"
proof -
  assume "n \<le> 9007199254740991"
  then have "(of_nat n :: rat) \<le> of_nat 9007199254740991" by (simp only: of_nat_le_iff)
  then show ?thesis by (simp add: safe_int_def is_safe_integer_def)
qed

lemma safe_nat_nat [simp]: "n \<le> 9007199254740991 \<Longrightarrow> safe_nat (JNum (nat_num n)) = Some n"
  by (simp add: safe_nat_def)

lemma is_code_nat [simp]: "is_code m (JNum (nat_num n)) \<longleftrightarrow> m = n"
  by (auto simp: is_code_def)

lemma is_code_numeral [simp]:
  "is_code m (JNum (Fin (numeral k))) \<longleftrightarrow> m = numeral k"
  "is_code m (JNum (Fin 0)) \<longleftrightarrow> m = 0" "is_code m (JNum (Fin 1)) \<longleftrightarrow> m = 1"
  using is_code_nat [of m "numeral k"] is_code_nat [of m 0] is_code_nat [of m 1] by simp_all

lemma wire_types_distinct:
  "distinct (map snd WireMessageType)" "distinct (map fst WireMessageType)"
  "list_all (\<lambda>(_, n). n < 128) WireMessageType"
  by (simp_all add: WireMessageType_def)

lemma wire_type_codes [simp]:
  "wire_type ''StoreDelta'' = 24" "wire_type ''PresenceBroadcast'' = 40"
  "wire_type ''SharedStateBroadcast'' = 41" "wire_type ''ActionForward'' = 49"
  by (simp_all add: wire_type_def WireMessageType_def)

section \<open>Encoding errors\<close>

lemma store_type_registered: "map_of OUTBOUND_WIRE_TYPES (store_type m) = Some (wire_type (store_type m))"
  by (cases m) (simp_all add: OUTBOUND_WIRE_TYPES_def)

lemma out_type_registered: "map_of OUTBOUND_WIRE_TYPES (out_type m) = Some (wire_type (out_type m))"
proof (cases m)
  case (OutStore s)
  then show ?thesis by (simp add: store_type_registered)
qed (simp_all add: OUTBOUND_WIRE_TYPES_def)

lemma encode_outbound_alt:
  "encode_outbound d message mid ti =
     (case encodeWireMessage d message of
        Inl err \<Rightarrow> Inl (TZync (mapSchemaEncodingError err))
      | Inr w \<Rightarrow> Inr \<lparr>eo_type = wire_type (out_type message), eo_id = mid, eo_message = w,
          eo_context = \<lparr>cx_type = out_type message,
            cx_responseTableIndex = (case ti of Some i \<Rightarrow> Some i | None \<Rightarrow> wire_table w),
            cx_actionName = (case message of OutActionCall name _ _ \<Rightarrow> Some name | _ \<Rightarrow> None)\<rparr>\<rparr>)"
  by (simp add: encode_outbound_def out_type_registered split: sum.split)

lemma registered_code: "name \<in> fst ` set WireMessageType \<Longrightarrow> (name, wire_type name) \<in> set WireMessageType"
  unfolding wire_type_def by (auto simp: map_of_eq_None_iff dest: map_of_SomeD split: option.split)

lemma out_type_known: "out_type m \<in> fst ` set WireMessageType"
proof (cases m)
  case (OutStore s)
  then show ?thesis by (cases s) (simp_all add: WireMessageType_def)
qed (simp_all add: WireMessageType_def)


section \<open>Batches\<close>

fun op_message :: "batch_op \<Rightarrow> store_message" where
  "op_message (BSet path v) = StoreSet path v None None"
| "op_message (BRemove path) = StoreRemove path None None"

fun single_message :: "wire_batch_op \<Rightarrow> wire_message" where
  "single_message (WireBSet w v) = WireSet w v None None"
| "single_message (WireBRemove w) = WireRemove w None None"

lemma encodeBatchOp_single:
  "encodeBatchOp d op = Inr w \<longleftrightarrow> encodeStoreMessage d (op_message op) = Inr (single_message w)"
  by (cases op; cases w) (auto simp: case_prod_beta)


section \<open>Queries\<close>

definition names_field :: "dict \<Rightarrow> nat \<Rightarrow> wire_condition \<Rightarrow> wire_cond \<Rightarrow> bool" where
  \<comment> \<open>the same operator on the index of the field\<close>
  "names_field d ti c w \<longleftrightarrow> getFieldName d (int ti) (int (fst w)) = Inr (fst c) \<and> fst (snd w) = fst (snd c)
     \<and> (snd (snd w) = None \<longleftrightarrow> snd (snd c) = None)"

definition names_sort :: "dict \<Rightarrow> nat \<Rightarrow> string \<times> nat \<Rightarrow> nat \<times> nat \<Rightarrow> bool" where
  "names_sort d ti p w \<longleftrightarrow> getFieldName d (int ti) (int (fst w)) = Inr (fst p) \<and> snd w = snd p"

lemma encodeConditions_names:
  assumes d: "dict_ok d" "ti < length (tables d)" and e: "encodeConditions d ti cs = Inr ws"
  shows "list_all2 (names_field d ti) cs ws"
proof -
  have "names_field d ti c w"
    if "(case c of (field, op, v) \<Rightarrow> and_then (getFieldIndex d ti field) (\<lambda>fi. case v of None \<Rightarrow> Inr (fi, op, None)
         | Some v \<Rightarrow> and_then (encodeFieldValue d (int ti) (int fi) v) (\<lambda>v'. Inr (fi, op, Some v')))) = Inr w" for c w
    using that getFieldName_of [OF d]
    by (cases c) (auto simp: names_field_def split: option.splits)
  then show ?thesis
    using e unfolding encodeConditions_def traverse_eq_Inr by (rule list_all2_mono [rotated])
qed

lemma encodeWireOrderBy_names:
  assumes d: "dict_ok d" "ti < length (tables d)" and e: "encodeWireOrderBy d ti ps = Inr ws"
  shows "list_all2 (names_sort d ti) ps ws"
proof -
  have "names_sort d ti p w"
    if "(case p of (field, dir) \<Rightarrow> and_then (getFieldIndex d ti field) (\<lambda>fi. Inr (fi, dir))) = Inr w" for p w
    using that getFieldName_of [OF d] by (cases p) (auto simp: names_sort_def)
  then show ?thesis
    using e unfolding encodeWireOrderBy_def traverse_eq_Inr by (rule list_all2_mono [rotated])
qed

lemma encode_opt_rel:
  "encode_opt f x = Inr y \<Longrightarrow> (\<And>a b. f a = Inr b \<Longrightarrow> P a b) \<Longrightarrow> rel_option P x y"
  by (auto simp: encode_opt_def split: option.splits)

text \<open>C30: A query asks for what it says, and its answer is read with its own table: when a query
  is encoded, the table index it carries is that of its collection, every condition and sort
  clause carries the index of the field it names with its operator or direction, and the rows
  of the answer are decoded as records of that table.\<close>

theorem query_encoding_names_fields:
  assumes "encode_outbound (sync_run H ps) (OutStore (StoreQuery collection q)) mid None = Inr e"
  shows "\<exists>ti wq. eo_message e = WireRead ti wq \<and> getTableName (sync_run H ps) (int ti) = Inr collection
    \<and> rel_option (list_all2 (names_field (sync_run H ps) ti)) (qf_conditions q) (wq_conditions wq)
    \<and> rel_option (list_all2 (names_field (sync_run H ps) ti)) (qf_orConditions q) (wq_orConditions wq)
    \<and> rel_option (list_all2 (names_sort (sync_run H ps) ti)) (qf_orderBy q) (wq_orderBy wq)
    \<and> decodeOkResponse (sync_run H ps) ok (Some (eo_context e)) = decodeStoreRows (sync_run H ps) ok ti"
proof -
  let ?d = "sync_run H ps"
  note d = sync_run_ok [of H ps]
  obtain w where w: "encodeStoreRead ?d collection q = Inr w"
    using assms by (auto simp: encode_outbound_alt split: sum.splits)
  then have e: "eo_message e = w" "cx_type (eo_context e) = ''StoreQuery''"
    "cx_responseTableIndex (eo_context e) = wire_table w"
    using assms by (auto simp: encode_outbound_alt)
  obtain ti c oc ob where 1: "getTableIndex ?d collection = Inr ti"
    "encode_opt (encodeConditions ?d ti) (qf_conditions q) = Inr c"
    "encode_opt (encodeConditions ?d ti) (qf_orConditions q) = Inr oc"
    "encode_opt (encodeWireOrderBy ?d ti) (qf_orderBy q) = Inr ob"
    "w = WireRead ti \<lparr>wq_conditions = c, wq_orConditions = oc, wq_orderBy = ob,
              wq_limit = qf_limit q, wq_after = qf_after q\<rparr>"
    using w by (auto simp: encodeStoreRead_def)
  have ti: "ti < length (tables ?d)" using getTableIndex_nth [OF d 1(1)] by simp
  have "decodeOkResponse ?d ok (Some (eo_context e)) = decodeStoreRows ?d ok ti"
    using e 1(5) by (simp add: decodeOkResponse_def isStoreReadContext_def wire_table_def)
  then show ?thesis
    using e(1) 1(5) getTableName_of [OF d 1(1)] encode_opt_rel [OF 1(2) encodeConditions_names [OF d ti]]
      encode_opt_rel [OF 1(3) encodeConditions_names [OF d ti]] encode_opt_rel [OF 1(4) encodeWireOrderBy_names [OF d ti]]
    by simp
qed

theorem query_encoding_names_fields_witness:
  "\<exists>e ti wq. encode_outbound demo_dict (OutStore (StoreQuery ''users'' (id_conditions ''u1''))) 4 None = Inr e
    \<and> eo_message e = WireRead ti wq \<and> getTableName demo_dict (int ti) = Inr ''users''
    \<and> rel_option (list_all2 (names_field demo_dict ti)) (Some [(''id'', OpCode 0, Some (JStr ''u1''))]) (wq_conditions wq)"
proof -
  obtain e where e: "encode_outbound demo_dict (OutStore (StoreQuery ''users'' (id_conditions ''u1''))) 4 None = Inr e"
    by (simp add: encode_outbound_alt encodeStoreRead_def encode_opt_def encodeConditions_def demo_lookups
        id_conditions_def no_query_def encodeFieldValue_def isDocIdField_def pack_item_def packDocId_valid)
  show ?thesis
    using query_encoding_names_fields [OF e [unfolded demo_dict_def], folded demo_dict_def, where ok = "[]"] e
    by (auto simp: id_conditions_def no_query_def)
qed

section \<open>Deltas\<close>

definition set_delta :: "nat \<Rightarrow> nat \<Rightarrow> sparse \<Rightarrow> jv" where
  \<comment> \<open>the server's message for a record: the values of its fields in table order\<close>
  "set_delta subId ti w =
     JArr [JNum (nat_num 24), JNum (nat_num subId), JNum (nat_num 0), JNum (nat_num ti), JArr (wire_values w)]"

definition remove_delta :: "nat \<Rightarrow> nat \<Rightarrow> byte list \<Rightarrow> jv" where
  "remove_delta subId ti p =
     JArr [JNum (nat_num 24), JNum (nat_num subId), JNum (nat_num 1), JNum (nat_num ti), JBytes p]"

abbreviation max_safe :: nat where
  "max_safe \<equiv> 9007199254740991"

lemma own_entries_obj [simp]: "own_entries (JObj ps) = Some ps"
  by (simp add: own_entries_def)

lemma decode_set_delta:
  assumes d: "dict_ok d" and name: "getTableName d (int ti) = Inr collection"
    and rec: "decodeRecord d (int ti) (wire_values w) = Inr data" "om_get data ''id'' = Some (JStr did)"
    and safe: "subId \<le> max_safe" "ti \<le> max_safe"
  shows "decodeMessage d (set_delta subId ti w) =
    Some (InDelta (delta_of subId (OpSet [JStr collection, JStr did] (JObj data))))"
  using assms by (simp add: set_delta_def decodeMessage_def decodeStoreDelta_def hasValidStoreDeltaHeader_def
      decodePath_def decodeWireId_def Let_def)

lemma decode_remove_delta:
  assumes d: "dict_ok d" and name: "getTableName d (int ti) = Inr collection"
    and p: "unpack_ref p = Inr did" and safe: "subId \<le> max_safe" "ti \<le> max_safe"
  shows "decodeMessage d (remove_delta subId ti p) =
    Some (InDelta (delta_of subId (OpRemove [JStr collection, JStr did])))"
  using assms by (simp add: remove_delta_def decodeMessage_def decodeStoreDelta_def hasValidStoreDeltaHeader_def
      decodePath_def decodeWireId_def Let_def)


lemma demo_encoded:
  "encodeStoreMessage demo_dict (StoreSet [''users'', ''u1''] (encodeWriteValue (JObj demo_record)) None None)
    = Inr (WireSet (WDoc 0 (WBin (pack_of ''u1'')))
        (JArr [JNum (nat_num 0), JBytes (pack_of ''u1''), JNum (nat_num 1), JStr ''Oslo'']) None None)"
  by (simp add: encode_set_def encodePath_def encode_record_value_def encodeWriteValue_def path_table_def
      encodeValue_def demo_flatten demo_lookups encodeFieldValue_def isDocIdField_def pack_item_def packDocId_valid)


end
