(* ===== verification/Presence.thy ===== *)
theory Presence
  imports ConnWire
begin

text \<open>
  \<open>presence.ts\<close>: the cache of present users, the two server subscriptions (users and shared
  state) with their generations, the buffered listeners and the throttled \<open>set\<close>.

  An operation takes the state and gives the new one with its effects. What the code awaits is
  an event of its own: a request that was sent has a token and a purpose, and
  \<open>presence_response\<close> is what happens when it is answered; a timer that is armed fires as
  \<open>throttle_fire\<close> or \<open>listener_flush\<close>. Promises handed to the user are numbers (waiters,
  listeners) that effects resolve or reject. The user and the shared subscription run the
  same protocol on the two halves of the state; consumers that call back into the object are
  not modelled.
\<close>

section \<open>The user cache\<close>

record presence_user =
  pu_userId :: string
  pu_data :: props
  pu_joinedAt :: jnum

record user_cache =
  userEntries :: "presence_user list"
  userIndexes :: "(string, nat) omap"

definition empty_cache :: user_cache where
  "empty_cache = \<lparr>userEntries = [], userIndexes = []\<rparr>"

definition clearUserCache :: "user_cache \<Rightarrow> user_cache" where
  "clearUserCache c = c\<lparr>userEntries := [], userIndexes := []\<rparr>"

definition setUserEntry :: "presence_user \<Rightarrow> user_cache \<Rightarrow> user_cache" where
  "setUserEntry entry c =
     (case om_get (userIndexes c) (pu_userId entry) of
        None \<Rightarrow> c\<lparr>userIndexes := om_set (userIndexes c) (pu_userId entry) (length (userEntries c)),
                  userEntries := userEntries c @ [entry]\<rparr>
      | Some i \<Rightarrow> c\<lparr>userEntries := (userEntries c)[i := entry]\<rparr>)"

definition removeUserEntry :: "string \<Rightarrow> user_cache \<Rightarrow> user_cache" where
  "removeUserEntry userId c =
     (case om_get (userIndexes c) userId of
        None \<Rightarrow> c
      | Some i \<Rightarrow>
          let lastIndex = length (userEntries c) - 1;
              c = (if i \<noteq> lastIndex
                   then let lastEntry = userEntries c ! lastIndex
                        in c\<lparr>userEntries := (userEntries c)[i := lastEntry],
                             userIndexes := om_set (userIndexes c) (pu_userId lastEntry) i\<rparr>
                   else c)
          in c\<lparr>userEntries := butlast (userEntries c), userIndexes := om_delete (userIndexes c) userId\<rparr>)"

definition get_user :: "user_cache \<Rightarrow> string \<Rightarrow> presence_user option" where
  "get_user c userId =
     (case om_get (userIndexes c) userId of None \<Rightarrow> None | Some i \<Rightarrow> nth_opt (userEntries c) i)"

definition getAll :: "bool \<Rightarrow> string option \<Rightarrow> user_cache \<Rightarrow> presence_user list" where
  "getAll includeSelf localUserId c =
     (let entries = userEntries c in
      if \<not> includeSelf \<and> localUserId \<noteq> None \<and> localUserId \<noteq> Some []
      then (case om_get (userIndexes c) (the localUserId) of
              Some selfIndex \<Rightarrow> butlast (entries[selfIndex := entries ! (length entries - 1)])
            | None \<Rightarrow> entries)
      else entries)"

definition applyBroadcastJoin :: "string \<Rightarrow> presence_event \<Rightarrow> user_cache \<Rightarrow> user_cache" where
  "applyBroadcastJoin userId entry =
     setUserEntry \<lparr>pu_userId = userId, pu_data = (case pe_data entry of Some d \<Rightarrow> d | None \<Rightarrow> []),
       pu_joinedAt = (case pe_joinedAt entry of Some n \<Rightarrow> nat_num n | None \<Rightarrow> nat_num 0)\<rparr>"

definition applyBroadcastUpdate :: "string \<Rightarrow> presence_event \<Rightarrow> user_cache \<Rightarrow> user_cache" where
  "applyBroadcastUpdate userId entry c =
     (case om_get (userIndexes c) userId of
        Some i \<Rightarrow>
          let existing = userEntries c ! i
          in c\<lparr>userEntries := (userEntries c)[i :=
               \<lparr>pu_userId = userId,
                pu_data = js_spread (pu_data existing) (case pe_data entry of Some d \<Rightarrow> d | None \<Rightarrow> []),
                pu_joinedAt = pu_joinedAt existing\<rparr>]\<rparr>
      | None \<Rightarrow>
          setUserEntry \<lparr>pu_userId = userId, pu_data = (case pe_data entry of Some d \<Rightarrow> d | None \<Rightarrow> []),
            pu_joinedAt = (case pe_joinedAt entry of Some n \<Rightarrow> nat_num n | None \<Rightarrow> nat_num 0)\<rparr> c)"

definition isRelevantChange :: "string option \<Rightarrow> string \<Rightarrow> bool" where
  "isRelevantChange localUserId userId \<longleftrightarrow> localUserId = None \<or> Some userId \<noteq> localUserId"

definition applyBroadcastEntry :: "string option \<Rightarrow> presence_event \<Rightarrow> user_cache \<Rightarrow> thrown + (user_cache \<times> bool)" where
  "applyBroadcastEntry localUserId entry c =
     and_then (decodePresenceUserId (pe_userId entry)) (\<lambda>userId.
       Inr (if pe_event entry = ''leave'' then removeUserEntry userId c
            else if pe_event entry = ''join'' then applyBroadcastJoin userId entry c
            else applyBroadcastUpdate userId entry c,
            isRelevantChange localUserId userId))"

fun apply_entries :: "string option \<Rightarrow> presence_event list \<Rightarrow> user_cache \<Rightarrow> bool \<Rightarrow> user_cache \<times> (thrown + bool)" where
  \<comment> \<open>the loop of \<open>handlePresenceBroadcast\<close>; what was applied before a throw stays\<close>
  "apply_entries me [] c changed = (c, Inr changed)"
| "apply_entries me (e # es) c changed =
     (case applyBroadcastEntry me e c of
        Inl err \<Rightarrow> (c, Inl err)
      | Inr (c', rel) \<Rightarrow> apply_entries me es c' (changed \<or> rel))"

section \<open>State\<close>

datatype chan_kind = UserChan | SharedChan

record chan =
  ch_subId :: "nat option"
  ch_promise :: "nat option"      \<comment> \<open>the establishment in flight\<close>
  ch_gen :: nat
  ch_callbacks :: "nat list"

datatype presence_value = Users "presence_user list" | Shared "props option"

record listener =
  li_closed :: bool
  li_initialDelivered :: bool
  li_pending :: "presence_value list"
  li_timer :: bool
  li_waiting :: "nat option"      \<comment> \<open>the establishment its promise waits for\<close>

datatype purpose =
    ForSet "nat list"
  | ForAccept string
  | ForSubscribe chan_kind nat nat      \<comment> \<open>establishment and its generation\<close>
  | ForStale chan_kind nat nat

record presence =
  pr_cache :: user_cache
  pr_sharedCache :: "props option"
  pr_user :: chan
  pr_shared :: chan
  pr_localUserId :: "string option"
  pr_lastSetTime :: rat
  pr_pendingSetData :: "props option"
  pr_pendingSetWaiters :: "nat list"
  pr_throttleTimer :: "rat option"      \<comment> \<open>when it is due\<close>
  pr_listeners :: "(nat, listener) omap"
  pr_requests :: "(nat, purpose) omap"
  pr_next :: nat                        \<comment> \<open>next token, establishment or listener\<close>

datatype presence_effect =
    PSend nat outbound
  | PFire nat presence_value
  | PEmit zync_error
  | PResolveSet nat
  | PRejectSet nat zync_error
  | PResolveSub nat
  | PRejectSub nat zync_error

type_synonym pstep = "presence \<times> presence_effect list"

definition THROTTLE_INTERVAL_MS :: rat where
  "THROTTLE_INTERVAL_MS = 16"

definition new_chan :: chan where
  "new_chan = \<lparr>ch_subId = None, ch_promise = None, ch_gen = 0, ch_callbacks = []\<rparr>"

definition new_presence :: presence where
  "new_presence = \<lparr>pr_cache = empty_cache, pr_sharedCache = None, pr_user = new_chan, pr_shared = new_chan,
     pr_localUserId = None, pr_lastSetTime = 0, pr_pendingSetData = None, pr_pendingSetWaiters = [],
     pr_throttleTimer = None, pr_listeners = [], pr_requests = [], pr_next = 0\<rparr>"

definition setLocalUserId :: "string option \<Rightarrow> presence \<Rightarrow> presence" where
  "setLocalUserId userId p = p\<lparr>pr_localUserId := userId\<rparr>"

fun chan_of :: "chan_kind \<Rightarrow> presence \<Rightarrow> chan" where
  "chan_of UserChan p = pr_user p"
| "chan_of SharedChan p = pr_shared p"

fun put_chan :: "chan_kind \<Rightarrow> chan \<Rightarrow> presence \<Rightarrow> presence" where
  "put_chan UserChan c p = p\<lparr>pr_user := c\<rparr>"
| "put_chan SharedChan c p = p\<lparr>pr_shared := c\<rparr>"

definition then_do :: "pstep \<Rightarrow> (presence \<Rightarrow> pstep) \<Rightarrow> pstep" where
  \<comment> \<open>one statement after the other\<close>
  "then_do r f = (case r of (p, es) \<Rightarrow> case f p of (p', es') \<Rightarrow> (p', es @ es'))"

definition send_request :: "outbound \<Rightarrow> purpose \<Rightarrow> presence \<Rightarrow> pstep" where
  \<comment> \<open>\<open>conn.dispatch\<close>\<close>
  "send_request msg why p =
     (p\<lparr>pr_requests := om_set (pr_requests p) (pr_next p) why, pr_next := Suc (pr_next p)\<rparr>, [PSend (pr_next p) msg])"

definition presence_error :: "string \<Rightarrow> string \<Rightarrow> string \<Rightarrow> bool \<Rightarrow> zync_error" where
  "presence_error msg code category retryable = new_ZyncBaseError msg code category retryable"

section \<open>Throttled set\<close>

definition sendSet :: "props \<Rightarrow> nat list \<Rightarrow> presence \<Rightarrow> pstep" where
  "sendSet data waiters p = send_request (OutPresenceSet (JObj data)) (ForSet waiters) p"

definition presence_set :: "props \<Rightarrow> nat \<Rightarrow> rat \<Rightarrow> presence \<Rightarrow> pstep" where
  \<comment> \<open>the promise it returns is the waiter, \<open>now\<close> the reading of the clock\<close>
  "presence_set data waiter now p =
     (let p = p\<lparr>pr_pendingSetWaiters := pr_pendingSetWaiters p @ [waiter]\<rparr>;
          elapsed = now - pr_lastSetTime p
      in if elapsed \<ge> THROTTLE_INTERVAL_MS
         then let pending = pr_pendingSetData p; waiters = pr_pendingSetWaiters p
              in sendSet (case pending of Some d \<Rightarrow> js_spread d data | None \<Rightarrow> data) waiters
                   (p\<lparr>pr_throttleTimer := None, pr_pendingSetData := None, pr_lastSetTime := now,
                      pr_pendingSetWaiters := []\<rparr>)
         else (p\<lparr>pr_pendingSetData := Some (js_spread (case pr_pendingSetData p of Some d \<Rightarrow> d | None \<Rightarrow> []) data),
                 pr_throttleTimer := (case pr_throttleTimer p of None \<Rightarrow> Some (now + (THROTTLE_INTERVAL_MS - elapsed))
                                      | Some due \<Rightarrow> Some due)\<rparr>, []))"

definition throttle_fire :: "rat \<Rightarrow> presence \<Rightarrow> pstep" where
  "throttle_fire now p =
     (let p = p\<lparr>pr_throttleTimer := None\<rparr> in
      case pr_pendingSetData p of
        Some data \<Rightarrow>
          then_do (sendSet data (pr_pendingSetWaiters p) (p\<lparr>pr_lastSetTime := now, pr_pendingSetWaiters := []\<rparr>))
            (\<lambda>p. (p\<lparr>pr_pendingSetData := None\<rparr>, []))
      | None \<Rightarrow> (p, []))"

definition clearThrottle :: "zync_error \<Rightarrow> presence \<Rightarrow> pstep" where
  "clearThrottle reason p =
     (p\<lparr>pr_throttleTimer := None, pr_pendingSetData := None, pr_pendingSetWaiters := [], pr_lastSetTime := 0\<rparr>,
      map (\<lambda>w. PRejectSet w reason) (pr_pendingSetWaiters p))"

definition dispatchAccepted :: "outbound \<Rightarrow> string \<Rightarrow> presence \<Rightarrow> pstep" where
  "dispatchAccepted msg fallback p = send_request msg (ForAccept fallback) p"

definition setShared :: "props \<Rightarrow> presence \<Rightarrow> pstep" where
  "setShared data p = dispatchAccepted (OutPresenceSetShared (JObj data)) ''Presence setShared failed'' p"

definition presence_remove :: "presence \<Rightarrow> pstep" where
  "presence_remove p =
     then_do (clearThrottle (presence_error ''Presence set superseded by remove'' ''REQUEST_SUPERSEDED'' ''state'' False) p)
       (dispatchAccepted OutPresenceRemove ''Presence remove failed'')"

section \<open>Listeners\<close>

definition listener_call :: "nat \<Rightarrow> presence_value \<Rightarrow> presence \<Rightarrow> pstep" where
  "listener_call lid v p =
     (case om_get (pr_listeners p) lid of
        None \<Rightarrow> (p, [])
      | Some l \<Rightarrow>
          if li_closed l then (p, [])
          else if li_initialDelivered l then (p, [PFire lid v])
          else (p\<lparr>pr_listeners := om_set (pr_listeners p) lid (l\<lparr>li_pending := li_pending l @ [v], li_timer := True\<rparr>)\<rparr>, []))"

definition listener_flush :: "nat \<Rightarrow> presence \<Rightarrow> pstep" where
  \<comment> \<open>the timer of a listener; \<open>close_listener\<close> disarms it\<close>
  "listener_flush lid p =
     (case om_get (pr_listeners p) lid of
        None \<Rightarrow> (p, [])
      | Some l \<Rightarrow>
          (p\<lparr>pr_listeners := om_set (pr_listeners p) lid
               (l\<lparr>li_timer := False, li_initialDelivered := True, li_pending := []\<rparr>)\<rparr>,
           if li_closed l then [] else map (PFire lid) (li_pending l)))"

fun fire_all :: "nat list \<Rightarrow> presence_value \<Rightarrow> presence \<Rightarrow> pstep" where
  "fire_all [] v p = (p, [])"
| "fire_all (lid # lids) v p = then_do (listener_call lid v p) (fire_all lids v)"

definition fireUserCallbacks :: "presence \<Rightarrow> pstep" where
  "fireUserCallbacks p =
     fire_all (ch_callbacks (pr_user p)) (Users (getAll False (pr_localUserId p) (pr_cache p))) p"

definition fireSharedCallbacks :: "presence \<Rightarrow> pstep" where
  "fireSharedCallbacks p = fire_all (ch_callbacks (pr_shared p)) (Shared (pr_sharedCache p)) p"

definition close_listener :: "chan_kind \<Rightarrow> nat \<Rightarrow> presence \<Rightarrow> presence" where
  "close_listener k lid p =
     (let c = chan_of k p;
          p = put_chan k (c\<lparr>ch_callbacks := filter (\<lambda>x. x \<noteq> lid) (ch_callbacks c)\<rparr>) p
      in case om_get (pr_listeners p) lid of
           None \<Rightarrow> p
         | Some l \<Rightarrow> p\<lparr>pr_listeners := om_set (pr_listeners p) lid
             (l\<lparr>li_closed := True, li_timer := False, li_pending := []\<rparr>)\<rparr>)"

section \<open>Establishing a subscription\<close>

record presence_ok =
  po_subId :: "nat option"
  po_users :: "(byte list \<times> props \<times> jnum option) list option"
  po_shared :: "props option"

fun subscribe_message :: "chan_kind \<Rightarrow> outbound" where
  "subscribe_message UserChan = OutPresenceSubscribe"
| "subscribe_message SharedChan = OutPresenceSubscribeShared"

fun unsubscribe_message :: "chan_kind \<Rightarrow> nat \<Rightarrow> outbound" where
  "unsubscribe_message UserChan s = OutPresenceUnsubscribe s"
| "unsubscribe_message SharedChan s = OutPresenceUnsubscribeShared s"

fun unsubscribe_failed :: "chan_kind \<Rightarrow> string" where
  "unsubscribe_failed UserChan = ''Presence unsubscribe failed''"
| "unsubscribe_failed SharedChan = ''Presence unsubscribeShared failed''"

fun subscribe_failed :: "chan_kind \<Rightarrow> string" where
  "subscribe_failed UserChan = ''Presence subscribe failed''"
| "subscribe_failed SharedChan = ''Presence subscribeShared failed''"

fun missing_subId :: "chan_kind \<Rightarrow> zync_error" where
  "missing_subId UserChan = presence_error ''PresenceSubscribe response missing subId'' ''INVALID_MESSAGE'' ''client'' False"
| "missing_subId SharedChan =
     presence_error ''PresenceSubscribeShared response missing subId'' ''INVALID_MESSAGE'' ''client'' False"

fun superseded :: "chan_kind \<Rightarrow> zync_error" where
  "superseded UserChan = presence_error ''Presence subscription superseded'' ''REQUEST_SUPERSEDED'' ''state'' False"
| "superseded SharedChan =
     presence_error ''Presence shared subscription superseded'' ''REQUEST_SUPERSEDED'' ''state'' False"

definition waiting_on :: "nat \<Rightarrow> presence \<Rightarrow> nat list" where
  "waiting_on pid p = map fst (filter (\<lambda>(_, l). li_waiting l = Some pid) (pr_listeners p))"

definition stop_waiting :: "nat \<Rightarrow> presence \<Rightarrow> presence" where
  "stop_waiting pid p = p\<lparr>pr_listeners :=
     map (\<lambda>(i, l). (i, if li_waiting l = Some pid then l\<lparr>li_waiting := None\<rparr> else l)) (pr_listeners p)\<rparr>"

definition drop_promise :: "chan_kind \<Rightarrow> nat \<Rightarrow> nat \<Rightarrow> presence \<Rightarrow> presence" where
  \<comment> \<open>\<open>if (gen === this.userSubGen && this.userSubPromise === pending) this.userSubPromise = null\<close>\<close>
  "drop_promise k pid gen p =
     (let c = chan_of k p in
      if gen = ch_gen c \<and> ch_promise c = Some pid then put_chan k (c\<lparr>ch_promise := None\<rparr>) p else p)"

definition establish_done :: "chan_kind \<Rightarrow> nat \<Rightarrow> nat \<Rightarrow> presence \<Rightarrow> pstep" where
  \<comment> \<open>the establishment resolves, and with it the promises that wait for it\<close>
  "establish_done k pid gen p =
     (stop_waiting pid (drop_promise k pid gen p), map PResolveSub (waiting_on pid p))"

definition establish_failed :: "chan_kind \<Rightarrow> nat \<Rightarrow> nat \<Rightarrow> thrown \<Rightarrow> presence \<Rightarrow> pstep" where
  \<comment> \<open>the establishment rejects: the error is emitted for the current generation, and the
      listeners that wait for it are closed and rejected\<close>
  "establish_failed k pid gen err p =
     (let error = toZyncError err (subscribe_failed k) True;
          waiting = waiting_on pid p;
          emitted = (if gen = ch_gen (chan_of k p) then [PEmit error] else [])
      in (stop_waiting pid (foldl (\<lambda>p lid. close_listener k lid p) (drop_promise k pid gen p) waiting),
          emitted @ map (\<lambda>lid. PRejectSub lid error) waiting))"

definition establish_loop :: "chan_kind \<Rightarrow> nat \<Rightarrow> nat \<Rightarrow> presence \<Rightarrow> pstep" where
  \<comment> \<open>one round of \<open>while (gen === this.userSubGen)\<close>, up to the next await\<close>
  "establish_loop k pid gen p =
     (if gen = ch_gen (chan_of k p) then send_request (subscribe_message k) (ForSubscribe k pid gen) p
      else establish_failed k pid gen (TZync (superseded k)) p)"

fun populate_loop :: "(byte list \<times> props \<times> jnum option) list \<Rightarrow> user_cache \<Rightarrow> user_cache \<times> (thrown + unit)" where
  "populate_loop [] c = (c, Inr ())"
| "populate_loop ((userId, data, joinedAt) # users) c =
     (case decodePresenceUserId userId of
        Inl err \<Rightarrow> (c, Inl err)
      | Inr u \<Rightarrow> populate_loop users (setUserEntry \<lparr>pu_userId = u, pu_data = data,
          pu_joinedAt = (case joinedAt of Some n \<Rightarrow> n | None \<Rightarrow> nat_num 0)\<rparr> c))"

definition populateUserCacheFromSnapshot :: "presence_ok \<Rightarrow> user_cache \<Rightarrow> user_cache \<times> (thrown + unit)" where
  "populateUserCacheFromSnapshot ok c =
     (case po_users ok of
        None \<Rightarrow> (clearUserCache c, Inr ())
      | Some users \<Rightarrow> populate_loop users (clearUserCache c))"

fun adopt :: "chan_kind \<Rightarrow> nat \<Rightarrow> nat \<Rightarrow> nat \<Rightarrow> presence_ok \<Rightarrow> presence \<Rightarrow> pstep" where
  \<comment> \<open>the accepted answer\<close>
  "adopt UserChan pid gen subId ok p =
     (let p = put_chan UserChan ((pr_user p)\<lparr>ch_subId := Some subId\<rparr>) p in
      case populateUserCacheFromSnapshot ok (pr_cache p) of
        (c, Inr _) \<Rightarrow>
          then_do (let p = p\<lparr>pr_cache := c\<rparr> in
                   if ch_callbacks (pr_user p) \<noteq> [] then fireUserCallbacks p else (p, []))
            (establish_done UserChan pid gen)
      | (c, Inl err) \<Rightarrow> establish_failed UserChan pid gen err (p\<lparr>pr_cache := c\<rparr>))"
| "adopt SharedChan pid gen subId ok p =
     (let p = (put_chan SharedChan ((pr_shared p)\<lparr>ch_subId := Some subId\<rparr>) p)\<lparr>pr_sharedCache := po_shared ok\<rparr>
      in then_do (fireSharedCallbacks p) (establish_done SharedChan pid gen))"

definition subscribed :: "chan_kind \<Rightarrow> nat \<Rightarrow> nat \<Rightarrow> thrown + presence_ok \<Rightarrow> presence \<Rightarrow> pstep" where
  \<comment> \<open>the answer to the subscribe message\<close>
  "subscribed k pid gen r p =
     (case r of
        Inl err \<Rightarrow> establish_failed k pid gen err p
      | Inr ok \<Rightarrow>
          (case po_subId ok of
             None \<Rightarrow> establish_failed k pid gen (TZync (missing_subId k)) p
           | Some subId \<Rightarrow>
               if gen \<noteq> ch_gen (chan_of k p) \<or> ch_callbacks (chan_of k p) = []
               then send_request (unsubscribe_message k subId) (ForStale k pid gen) p
               else adopt k pid gen subId ok p))"

definition stale_released :: "chan_kind \<Rightarrow> nat \<Rightarrow> nat \<Rightarrow> thrown + presence_ok \<Rightarrow> presence \<Rightarrow> pstep" where
  \<comment> \<open>the answer to the unsubscribe of an unwanted subscription\<close>
  "stale_released k pid gen r p =
     (case r of
        Inl err \<Rightarrow>
          (let error = toZyncError err (unsubscribe_failed k) True
           in then_do (p, [PEmit error]) (establish_failed k pid gen (TZync error)))
      | Inr _ \<Rightarrow>
          if gen \<noteq> ch_gen (chan_of k p) \<or> ch_callbacks (chan_of k p) = [] then establish_done k pid gen p
          else establish_loop k pid gen p)"

definition ensure_subscription :: "chan_kind \<Rightarrow> presence \<Rightarrow> pstep \<times> nat option" where
  \<comment> \<open>with the establishment that the returned promise is; \<open>None\<close> when it is resolved\<close>
  "ensure_subscription k p =
     (let c = chan_of k p in
      if ch_subId c \<noteq> None then ((p, []), None)
      else case ch_promise c of
          Some pid \<Rightarrow> ((p, []), Some pid)
        | None \<Rightarrow>
            let pid = pr_next p; gen = ch_gen c;
                p = put_chan k (c\<lparr>ch_promise := Some pid\<rparr>) (p\<lparr>pr_next := Suc pid\<rparr>)
            in (establish_loop k pid gen p, Some pid))"

definition ensureUserSubscription :: "presence \<Rightarrow> pstep \<times> nat option" where
  "ensureUserSubscription = ensure_subscription UserChan"

definition ensureSharedSubscription :: "presence \<Rightarrow> pstep \<times> nat option" where
  "ensureSharedSubscription = ensure_subscription SharedChan"

definition establishUserSubscription :: "nat \<Rightarrow> nat \<Rightarrow> thrown + presence_ok \<Rightarrow> presence \<Rightarrow> pstep" where
  "establishUserSubscription = subscribed UserChan"

definition establishSharedSubscription :: "nat \<Rightarrow> nat \<Rightarrow> thrown + presence_ok \<Rightarrow> presence \<Rightarrow> pstep" where
  "establishSharedSubscription = subscribed SharedChan"

definition cleanup_cache :: "chan_kind \<Rightarrow> presence \<Rightarrow> presence" where
  "cleanup_cache k p =
     (case k of UserChan \<Rightarrow> p\<lparr>pr_cache := clearUserCache (pr_cache p)\<rparr> | SharedChan \<Rightarrow> p\<lparr>pr_sharedCache := None\<rparr>)"

definition cleanup_subscription :: "chan_kind \<Rightarrow> presence \<Rightarrow> pstep" where
  "cleanup_subscription k p =
     (let c = chan_of k p in
      if ch_callbacks c = [] \<and> (ch_subId c \<noteq> None \<or> ch_promise c \<noteq> None)
      then (let p = cleanup_cache k (put_chan k (c\<lparr>ch_subId := None\<rparr>) p) in
            case ch_subId c of
              Some s \<Rightarrow> dispatchAccepted (unsubscribe_message k s) (unsubscribe_failed k) p
            | None \<Rightarrow> (p, []))
      else (p, []))"

definition cleanupUserSubscription :: "presence \<Rightarrow> pstep" where
  "cleanupUserSubscription = cleanup_subscription UserChan"

definition cleanupSharedSubscription :: "presence \<Rightarrow> pstep" where
  "cleanupSharedSubscription = cleanup_subscription SharedChan"

section \<open>Subscribing\<close>

definition initial_value :: "chan_kind \<Rightarrow> presence \<Rightarrow> presence_value option" where
  "initial_value k p =
     (case k of
        UserChan \<Rightarrow> (if ch_subId (pr_user p) = None then None
          else Some (Users (getAll False (pr_localUserId p) (pr_cache p))))
      | SharedChan \<Rightarrow> (if ch_subId (pr_shared p) = None then None else Some (Shared (pr_sharedCache p))))"

definition subscribeCallback :: "chan_kind \<Rightarrow> presence \<Rightarrow> pstep" where
  "subscribeCallback k p =
     (let lid = pr_next p;
          l = \<lparr>li_closed = False, li_initialDelivered = False, li_pending = [], li_timer = False, li_waiting = None\<rparr>;
          p = p\<lparr>pr_next := Suc lid, pr_listeners := om_set (pr_listeners p) lid l\<rparr>;
          c = chan_of k p;
          p = put_chan k (c\<lparr>ch_callbacks := ch_callbacks c @ [lid]\<rparr>) p
      in then_do (case initial_value k p of Some v \<Rightarrow> listener_call lid v p | None \<Rightarrow> (p, [])) (\<lambda>p.
         case ensure_subscription k p of
           (r, None) \<Rightarrow> then_do r (\<lambda>p. (p, [PResolveSub lid]))
         | (r, Some pid) \<Rightarrow> then_do r (\<lambda>p.
             (p\<lparr>pr_listeners := (case om_get (pr_listeners p) lid of
                   Some l \<Rightarrow> om_set (pr_listeners p) lid (l\<lparr>li_waiting := Some pid\<rparr>) | None \<Rightarrow> pr_listeners p)\<rparr>, []))))"

definition presence_subscribe :: "presence \<Rightarrow> pstep" where
  "presence_subscribe = subscribeCallback UserChan"

definition subscribeShared :: "presence \<Rightarrow> pstep" where
  "subscribeShared = subscribeCallback SharedChan"

definition presence_unsubscribe :: "chan_kind \<Rightarrow> nat \<Rightarrow> presence \<Rightarrow> pstep" where
  \<comment> \<open>the function the subscription resolves to; a second call does nothing more\<close>
  "presence_unsubscribe k lid p =
     (case om_get (pr_listeners p) lid of
        Some l \<Rightarrow> if li_closed l then (p, []) else cleanup_subscription k (close_listener k lid p)
      | None \<Rightarrow> (p, []))"

section \<open>Answers, broadcasts, scope changes\<close>

definition presence_response :: "nat \<Rightarrow> thrown + presence_ok \<Rightarrow> presence \<Rightarrow> pstep" where
  "presence_response token r p =
     (let q = p\<lparr>pr_requests := om_delete (pr_requests p) token\<rparr> in
      case om_get (pr_requests p) token of
        None \<Rightarrow> (p, [])
      | Some (ForSubscribe k pid gen) \<Rightarrow> subscribed k pid gen r q
      | Some (ForStale k pid gen) \<Rightarrow> stale_released k pid gen r q
      | Some (ForSet waiters) \<Rightarrow>
          (case r of
             Inr _ \<Rightarrow> (q, map PResolveSet waiters)
           | Inl err \<Rightarrow> (let e = toZyncError err ''Presence set failed'' True
                         in (q, PEmit e # map (\<lambda>w. PRejectSet w e) waiters)))
      | Some (ForAccept fallback) \<Rightarrow>
          (case r of Inr _ \<Rightarrow> (q, []) | Inl err \<Rightarrow> (q, [PEmit (toZyncError err fallback True)])))"

definition handlePresenceBroadcast :: "nat \<Rightarrow> presence_event list \<Rightarrow> presence \<Rightarrow> pstep" where
  \<comment> \<open>what a bad user id throws ends in the connection's handler of the frame\<close>
  "handlePresenceBroadcast subId users p =
     (if Some subId \<noteq> ch_subId (pr_user p) then (p, [])
      else case apply_entries (pr_localUserId p) users (pr_cache p) False of
          (c, Inr changed) \<Rightarrow>
            (let p = p\<lparr>pr_cache := c\<rparr> in
             if changed \<and> length (ch_callbacks (pr_user p)) > 0 then fireUserCallbacks p else (p, []))
        | (c, Inl _) \<Rightarrow> (p\<lparr>pr_cache := c\<rparr>, []))"

definition handleSharedStateBroadcast :: "nat \<Rightarrow> props list \<Rightarrow> presence \<Rightarrow> pstep" where
  "handleSharedStateBroadcast subId data p =
     (if Some subId \<noteq> ch_subId (pr_shared p) then (p, [])
      else fireSharedCallbacks (p\<lparr>pr_sharedCache := foldl (\<lambda>cache patch.
             Some (js_spread (case cache of Some s \<Rightarrow> s | None \<Rightarrow> []) patch)) (pr_sharedCache p) data\<rparr>))"

fun handleBroadcast :: "inbound \<Rightarrow> presence \<Rightarrow> pstep" where
  "handleBroadcast (InPresence subId users) p = handlePresenceBroadcast subId users p"
| "handleBroadcast (InShared subId data) p = handleSharedStateBroadcast subId data p"
| "handleBroadcast _ p = (p, [])"

definition reset_chan :: "chan \<Rightarrow> chan" where
  "reset_chan c = c\<lparr>ch_gen := Suc (ch_gen c), ch_subId := None, ch_promise := None\<rparr>"

definition invalidate :: "zync_error \<Rightarrow> presence \<Rightarrow> pstep" where
  "invalidate reason p =
     clearThrottle reason (p\<lparr>pr_user := reset_chan (pr_user p), pr_shared := reset_chan (pr_shared p),
       pr_localUserId := None, pr_cache := clearUserCache (pr_cache p), pr_sharedCache := None\<rparr>)"

definition scope_change :: zync_error where
  \<comment> \<open>the default reason\<close>
  "scope_change = presence_error ''Presence set superseded by scope change'' ''REQUEST_SUPERSEDED'' ''state'' False"

definition handleDisconnect :: "presence \<Rightarrow> pstep" where
  "handleDisconnect = invalidate
     (presence_error ''Connection closed before presence was accepted'' ''CONNECTION_FAILED'' ''network'' True)"

definition replay_kind :: "chan_kind \<Rightarrow> presence \<Rightarrow> pstep \<times> nat option" where
  "replay_kind k p =
     (if ch_callbacks (chan_of k p) \<noteq> [] \<and> ch_subId (chan_of k p) = None then ensure_subscription k p
      else ((p, []), None))"

definition replaySubscriptions :: "presence \<Rightarrow> pstep \<times> nat option" where
  \<comment> \<open>up to the first await: the shared half follows when the establishment it gives resolves\<close>
  "replaySubscriptions p =
     (case replay_kind UserChan p of
        (r, Some pid) \<Rightarrow> (r, Some pid)
      | ((p1, es), None) \<Rightarrow>
          (case replay_kind SharedChan p1 of ((p2, es2), w) \<Rightarrow> ((p2, es @ es2), w)))"

end
