(* ===== verification/PresenceSpec.thy ===== *)
theory PresenceSpec
  imports Presence
begin

text \<open>
  What presence promises. The array of users with its index is a keyed table, although a
  removal moves the last user into the gap; a throttled \<open>set\<close> loses no data and no promise
  and keeps its pace; an answer or broadcast of an old generation changes nothing.
\<close>

section \<open>The cache is a keyed table\<close>

definition cache_inv :: "user_cache \<Rightarrow> bool" where
  "cache_inv c \<longleftrightarrow> om_wf (userIndexes c)
     \<and> (\<forall>u i. om_get (userIndexes c) u = Some i \<longleftrightarrow> i < length (userEntries c) \<and> pu_userId (userEntries c ! i) = u)"

definition cache_lookup :: "user_cache \<Rightarrow> string \<Rightarrow> (props \<times> jnum) option" where
  "cache_lookup c u = map_option (\<lambda>e. (pu_data e, pu_joinedAt e)) (get_user c u)"

definition cache_insert :: "user_cache \<Rightarrow> string \<Rightarrow> props \<times> jnum \<Rightarrow> user_cache" where
  "cache_insert c u v = setUserEntry \<lparr>pu_userId = u, pu_data = fst v, pu_joinedAt = snd v\<rparr> c"

definition cache_delete :: "user_cache \<Rightarrow> string \<Rightarrow> user_cache" where
  "cache_delete c u = removeUserEntry u c"

lemma cache_invD:
  assumes "cache_inv c" "om_get (userIndexes c) u = Some i"
  shows "i < length (userEntries c)" "pu_userId (userEntries c ! i) = u"
  using assms unfolding cache_inv_def by blast+

lemma cache_inv_at: "cache_inv c \<Longrightarrow> i < length (userEntries c) \<Longrightarrow>
   om_get (userIndexes c) (pu_userId (userEntries c ! i)) = Some i"
  by (simp add: cache_inv_def)

lemma uid_inj:
  assumes "cache_inv c" "i < length (userEntries c)" "j < length (userEntries c)"
    "pu_userId (userEntries c ! i) = pu_userId (userEntries c ! j)"
  shows "i = j"
proof -
  have "Some i = Some j"
    using cache_inv_at [OF assms(1,2)] cache_inv_at [OF assms(1,3)] unfolding assms(4) by (rule trans [OF sym])
  then show ?thesis by simp
qed

lemma cache_distinct: "cache_inv c \<Longrightarrow> distinct (map pu_userId (userEntries c))"
  using uid_inj by (simp add: distinct_conv_nth) blast

lemma get_user_mem:
  assumes c: "cache_inv c"
  shows "get_user c u = Some e \<longleftrightarrow> e \<in> set (userEntries c) \<and> pu_userId e = u"
proof
  assume "get_user c u = Some e"
  then obtain i where "om_get (userIndexes c) u = Some i" "nth_opt (userEntries c) i = Some e"
    by (auto simp: get_user_def split: option.splits)
  then show "e \<in> set (userEntries c) \<and> pu_userId e = u"
    using cache_invD [OF c] by (auto simp: nth_opt_Some_iff)
next
  assume "e \<in> set (userEntries c) \<and> pu_userId e = u"
  then obtain i where "i < length (userEntries c)" "userEntries c ! i = e" "pu_userId e = u"
    by (auto simp: in_set_conv_nth)
  then show "get_user c u = Some e"
    using cache_inv_at [OF c] by (auto simp: get_user_def nth_opt_Some_iff)
qed

text \<open>Moving the last element into a gap.\<close>

lemma swap_remove_mset:
  assumes "i < length es"
  shows "mset (butlast (es[i := es ! (length es - 1)])) = mset es - {#es ! i#}"
proof -
  let ?x = "es ! (length es - 1)"
  have ne: "es[i := ?x] \<noteq> []" using assms by auto
  have "last (es[i := ?x]) = ?x"
    using assms ne by (cases "i = length es - Suc 0") (simp_all add: last_conv_nth)
  then have "mset (butlast (es[i := ?x])) = mset (es[i := ?x]) - {#?x#}"
    using append_butlast_last_id [OF ne] by (metis add_diff_cancel_right' mset.simps(1,2) mset_append)
  then show ?thesis using assms by (simp add: mset_update)
qed

lemma set_minus_nth:
  assumes "distinct (map f es)" "i < length es"
  shows "set_mset (mset es - {#es ! i#}) = {x \<in> set es. f x \<noteq> f (es ! i)}"
proof -
  have "distinct es" using assms(1) by (simp add: distinct_map)
  then have "set (remove1 (es ! i) es) = set es - {es ! i}" by (rule set_remove1_eq)
  then have "set_mset (mset es - {#es ! i#}) = set es - {es ! i}"
    using set_mset_mset [of "remove1 (es ! i) es"] by simp
  also have "\<dots> = {x \<in> set es. f x \<noteq> f (es ! i)}"
    using assms by (auto simp: distinct_map inj_on_def)
  finally show ?thesis .
qed

lemma set_setUserEntry:
  assumes c: "cache_inv c"
  shows "set (userEntries (setUserEntry e c)) = insert e {x \<in> set (userEntries c). pu_userId x \<noteq> pu_userId e}"
proof (cases "om_get (userIndexes c) (pu_userId e)")
  case None
  then have "pu_userId x \<noteq> pu_userId e" if "x \<in> set (userEntries c)" for x
    using get_user_mem [OF c, of "pu_userId e" x] that by (auto simp: get_user_def)
  then show ?thesis using None by (auto simp: setUserEntry_def)
next
  case (Some i)
  note i = cache_invD [OF c Some]
  have "set ((userEntries c)[i := e]) = set_mset (mset ((userEntries c)[i := e]))" by simp
  also have "\<dots> = insert e (set_mset (mset (userEntries c) - {#userEntries c ! i#}))"
    using i(1) by (simp add: mset_update)
  finally show ?thesis
    using Some i(2) set_minus_nth [OF cache_distinct [OF c] i(1)] by (simp add: setUserEntry_def)
qed

lemma cache_inv_set [inv_intros]:
  assumes c: "cache_inv c"
  shows "cache_inv (setUserEntry e c)"
proof (cases "om_get (userIndexes c) (pu_userId e)")
  case None
  then have "pu_userId (userEntries c ! i) \<noteq> pu_userId e" if "i < length (userEntries c)" for i
    using cache_inv_at [OF c that] by auto
  moreover have "setUserEntry e c = c\<lparr>userIndexes := om_set (userIndexes c) (pu_userId e) (length (userEntries c)),
      userEntries := userEntries c @ [e]\<rparr>"
    using None by (simp add: setUserEntry_def)
  ultimately show ?thesis using c
    unfolding cache_inv_def by (auto simp: nth_append less_Suc_eq)
next
  case (Some i)
  note i = cache_invD [OF c Some]
  have "pu_userId ((userEntries c)[i := e] ! j) = pu_userId (userEntries c ! j)" for j
    using i by (cases "j = i") simp_all
  moreover have "setUserEntry e c = c\<lparr>userEntries := (userEntries c)[i := e]\<rparr>"
    using Some by (simp add: setUserEntry_def)
  ultimately show ?thesis using c by (simp add: cache_inv_def)
qed

lemma removeUserEntry_spec:
  assumes c: "cache_inv c"
  shows "cache_inv (removeUserEntry u c)
    \<and> set (userEntries (removeUserEntry u c)) = {x \<in> set (userEntries c). pu_userId x \<noteq> u}"
proof (cases "om_get (userIndexes c) u")
  case None
  then have "pu_userId x \<noteq> u" if "x \<in> set (userEntries c)" for x
    using get_user_mem [OF c, of u x] that by (auto simp: get_user_def)
  then show ?thesis using None c by (auto simp: removeUserEntry_def)
next
  case (Some i)
  note i = cache_invD [OF c Some]
  let ?es = "userEntries c" and ?l = "length (userEntries c) - 1"
  have l: "?l < length ?es" using i by linarith
  have key: "om_get (userIndexes c) v = Some j \<longleftrightarrow> j < length ?es \<and> pu_userId (?es ! j) = v" for v j
    using c by (simp add: cache_inv_def)
  let ?es' = "butlast (?es[i := ?es ! ?l])"
  have es': "userEntries (removeUserEntry u c) = ?es'"
    using Some l by (cases "i = ?l") (simp_all add: removeUserEntry_def Let_def)
  have idx: "om_get (userIndexes (removeUserEntry u c)) v =
      (if v = u then None else if v = pu_userId (?es ! ?l) then Some i else om_get (userIndexes c) v)" for v
    using Some i by (cases "i = ?l") (auto simp: removeUserEntry_def Let_def)
  have wf: "om_wf (userIndexes (removeUserEntry u c))"
  proof -
    have "om_wf (userIndexes c)" using c by (simp add: cache_inv_def)
    then show ?thesis using Some by (simp add: removeUserEntry_def Let_def)
  qed
  have nth: "?es' ! j = (if j = i then ?es ! ?l else ?es ! j)" if "j < ?l" for j
    using that i by (simp add: nth_butlast nth_list_update)
  have "om_get (userIndexes (removeUserEntry u c)) v = Some j \<longleftrightarrow> j < ?l \<and> pu_userId (?es' ! j) = v" for v j
  proof -
    have uniq: "j = k" if "j < length ?es" "k < length ?es" "pu_userId (?es ! j) = pu_userId (?es ! k)" for j k
      using uid_inj [OF c that] .
    consider "v = u" | "v \<noteq> u" "v = pu_userId (?es ! ?l)" | "v \<noteq> u" "v \<noteq> pu_userId (?es ! ?l)" by blast
    then show ?thesis
    proof cases
      case 1
      have "pu_userId (?es' ! j) \<noteq> u" if j: "j < ?l"
      proof (cases "j = i")
        case True
        have "?l \<noteq> i" using j True by simp
        then have "pu_userId (?es ! ?l) \<noteq> u" using uniq [OF l i(1)] i(2) by argo
        then show ?thesis using nth [OF j] True by simp
      next
        case False
        have "j < length ?es" using j by simp
        then have "pu_userId (?es ! j) \<noteq> u" using uniq [OF _ i(1)] i(2) False by metis
        then show ?thesis using nth [OF j] False by simp
      qed
      then show ?thesis using 1 idx [of v] by simp
    next
      case 2
      have "i < ?l" using 2 i by (cases "i = ?l") auto
      moreover have "j = i" if "j < ?l" "pu_userId (?es' ! j) = v"
      proof (rule ccontr)
        assume "j \<noteq> i"
        then have "pu_userId (?es ! j) = pu_userId (?es ! ?l)" using that nth 2 by simp
        then have "j = ?l" using uniq [OF _ l] that(1) by simp
        then show False using that(1) by simp
      qed
      ultimately show ?thesis using 2 idx [of v] nth [of i] by auto
    next
      case 3
      have "j < length ?es \<and> pu_userId (?es ! j) = v \<longleftrightarrow> j < ?l \<and> pu_userId (?es' ! j) = v"
        using 3 nth [of j] i l by (cases "j = ?l") auto
      then show ?thesis using 3 idx [of v] key [of v j] by simp
    qed
  qed
  then have "cache_inv (removeUserEntry u c)"
    using wf by (simp add: cache_inv_def es')
  moreover have "set ?es' = {x \<in> set ?es. pu_userId x \<noteq> u}"
    using swap_remove_mset [OF i(1)] set_minus_nth [OF cache_distinct [OF c] i(1)] i(2)
    by (metis set_mset_mset)
  ultimately show ?thesis using es' by simp
qed

lemma cache_lookup_iff:
  assumes "cache_inv c"
  shows "cache_lookup c u = Some v \<longleftrightarrow>
    \<lparr>pu_userId = u, pu_data = fst v, pu_joinedAt = snd v\<rparr> \<in> set (userEntries c)"
proof -
  obtain d n where v: "v = (d, n)" by (cases v)
  let ?r = "\<lparr>pu_userId = u, pu_data = d, pu_joinedAt = n\<rparr>"
  have "cache_lookup c u = Some (d, n) \<longleftrightarrow> get_user c u = Some ?r"
  proof (cases "get_user c u")
    case (Some e)
    then have "pu_userId e = u" using get_user_mem [OF assms] by blast
    then show ?thesis using Some by (cases e) (auto simp: cache_lookup_def)
  qed (simp add: cache_lookup_def)
  then show ?thesis using get_user_mem [OF assms, of u ?r] by (simp add: v)
qed

lemma option_eqI: "(\<And>v. x = Some v \<longleftrightarrow> y = Some v) \<Longrightarrow> x = y"
  by (cases x; cases y) auto

interpretation pcache: keyed_table empty_cache cache_lookup cache_insert cache_delete cache_inv
proof
  show "cache_lookup empty_cache k = None" for k
    by (simp add: cache_lookup_def get_user_def empty_cache_def)
  show "cache_inv empty_cache" by (simp add: cache_inv_def empty_cache_def)
  fix t k k' and v :: "props \<times> jnum"
  assume t: "cache_inv t"
  show "cache_inv (cache_insert t k v)" using t by (simp add: cache_insert_def cache_inv_set)
  show "cache_inv (cache_delete t k)" using removeUserEntry_spec [OF t] by (simp add: cache_delete_def)
  show "cache_lookup (cache_insert t k v) k' = (if k' = k then Some v else cache_lookup t k')"
  proof (rule option_eqI)
    fix w
    show "cache_lookup (cache_insert t k v) k' = Some w \<longleftrightarrow> (if k' = k then Some v else cache_lookup t k') = Some w"
      using set_setUserEntry [OF t, of "\<lparr>pu_userId = k, pu_data = fst v, pu_joinedAt = snd v\<rparr>"]
        cache_lookup_iff [OF t, of k' w] cache_lookup_iff [OF cache_inv_set [OF t], of _ k' w]
      by (cases v; cases w) (auto simp: cache_insert_def)
  qed
  show "cache_lookup (cache_delete t k) k' = (if k' = k then None else cache_lookup t k')"
  proof (rule option_eqI)
    fix w
    show "cache_lookup (cache_delete t k) k' = Some w \<longleftrightarrow> (if k' = k then None else cache_lookup t k') = Some w"
      using removeUserEntry_spec [OF t, of k] cache_lookup_iff [OF t, of k' w]
        cache_lookup_iff [of "removeUserEntry k t" k' w] by (auto simp: cache_delete_def)
  qed
qed

section \<open>Broadcasts\<close>

type_synonym presence_map = "string \<Rightarrow> (props \<times> jnum) option"

definition event_data :: "presence_event \<Rightarrow> props" where
  "event_data e = (case pe_data e of Some d \<Rightarrow> d | None \<Rightarrow> [])"

definition event_joined :: "presence_event \<Rightarrow> jnum" where
  "event_joined e = (case pe_joinedAt e of Some n \<Rightarrow> nat_num n | None \<Rightarrow> nat_num 0)"

definition map_event :: "presence_map \<Rightarrow> string \<times> presence_event \<Rightarrow> presence_map" where
  \<comment> \<open>what an event about a user means: leave removes, join replaces, update merges\<close>
  "map_event m ue =
     (case ue of (u, e) \<Rightarrow>
        if pe_event e = ''leave'' then m(u := None)
        else if pe_event e = ''join'' then m(u \<mapsto> (event_data e, event_joined e))
        else m(u \<mapsto> (case m u of Some (d, n) \<Rightarrow> (js_spread d (event_data e), n)
                       | None \<Rightarrow> (event_data e, event_joined e))))"

lemma cache_insert_lookup: "cache_inv c \<Longrightarrow> cache_lookup (cache_insert c u v) = (cache_lookup c)(u \<mapsto> v)"
  by (simp add: fun_eq_iff pcache.lookup_insert)

lemma join_insert: "applyBroadcastJoin u e c = cache_insert c u (event_data e, event_joined e)"
  by (simp add: applyBroadcastJoin_def cache_insert_def event_data_def event_joined_def)

lemma update_insert:
  assumes c: "cache_inv c"
  shows "applyBroadcastUpdate u e c = cache_insert c u
    (case cache_lookup c u of Some (d, n) \<Rightarrow> (js_spread d (event_data e), n) | None \<Rightarrow> (event_data e, event_joined e))"
proof (cases "om_get (userIndexes c) u")
  case None
  then show ?thesis
    by (simp add: applyBroadcastUpdate_def cache_insert_def cache_lookup_def get_user_def event_data_def event_joined_def)
next
  case (Some i)
  then have "nth_opt (userEntries c) i = Some (userEntries c ! i)"
    using cache_invD(1) [OF c] by (simp add: nth_opt_def)
  then show ?thesis using Some
    by (simp add: applyBroadcastUpdate_def cache_insert_def cache_lookup_def get_user_def setUserEntry_def
        event_data_def Let_def)
qed

lemma entry_refines_map:
  assumes c: "cache_inv c" and e: "applyBroadcastEntry me e c = Inr (c', rel)"
  shows "cache_inv c' \<and> (\<exists>u. decodePresenceUserId (pe_userId e) = Inr u
    \<and> cache_lookup c' = map_event (cache_lookup c) (u, e) \<and> rel = isRelevantChange me u)"
proof -
  obtain u where u: "decodePresenceUserId (pe_userId e) = Inr u" "rel = isRelevantChange me u"
    "c' = (if pe_event e = ''leave'' then cache_delete c u
      else cache_insert c u (if pe_event e = ''join'' then (event_data e, event_joined e)
        else (case cache_lookup c u of Some (d, n) \<Rightarrow> (js_spread d (event_data e), n) | None \<Rightarrow> (event_data e, event_joined e))))"
    using e by (auto simp: applyBroadcastEntry_def join_insert update_insert [OF c] cache_delete_def)
  have "cache_lookup (cache_delete c u) = (cache_lookup c)(u := None)"
    by (simp add: fun_eq_iff pcache.lookup_delete [OF c])
  then show ?thesis
    using u cache_insert_lookup [OF c] pcache.inv_insert [OF c] pcache.inv_delete [OF c]
    by (simp add: map_event_def)
qed

text \<open>C32: The present users are those the server's events describe: applying a broadcast to the
  cache, with its array, its index and its moves, is applying the events, in order, to a map
  from user ids (leave removes, join replaces, update merges into what is there), and the
  consumers are to be called exactly when some event is about another user.\<close>

theorem presence_cache_refines_map:
  assumes "cache_inv c" "apply_entries me es c changed = (c', Inr r)"
  shows "cache_inv c' \<and> (\<exists>us. traverse (\<lambda>e. decodePresenceUserId (pe_userId e)) es = Inr us
    \<and> cache_lookup c' = foldl map_event (cache_lookup c) (zip us es)
    \<and> (r \<longleftrightarrow> changed \<or> list_ex (isRelevantChange me) us))"
  using assms
proof (induction es arbitrary: c changed)
  case (Cons e es)
  obtain c1 rel where 1: "applyBroadcastEntry me e c = Inr (c1, rel)"
    "apply_entries me es c1 (changed \<or> rel) = (c', Inr r)"
    using Cons.prems(2) by (auto split: sum.splits)
  obtain u where u: "cache_inv c1" "decodePresenceUserId (pe_userId e) = Inr u"
    "cache_lookup c1 = map_event (cache_lookup c) (u, e)" "rel = isRelevantChange me u"
    using entry_refines_map [OF Cons.prems(1) 1(1)] by blast
  obtain us where us: "traverse (\<lambda>e. decodePresenceUserId (pe_userId e)) es = Inr us"
    "cache_lookup c' = foldl map_event (cache_lookup c1) (zip us es)" "cache_inv c'"
    "r \<longleftrightarrow> (changed \<or> rel) \<or> list_ex (isRelevantChange me) us"
    using Cons.IH [OF u(1) 1(2)] by blast
  show ?case using u us by (intro conjI exI [of _ "u # us"]) auto
qed simp

definition demo_event :: "string \<Rightarrow> string \<Rightarrow> presence_event" where
  "demo_event u event = \<lparr>pe_userId = pack_of u, pe_event = event, pe_data = Some [(''x'', JNull)], pe_joinedAt = Some 5\<rparr>"

lemma decode_pack_user: "valid_doc_id u \<Longrightarrow> decodePresenceUserId (pack_of u) = Inr u"
  by (simp add: decodePresenceUserId_def pack_length unpack_pack)

lemma valid_ab: "valid_doc_id ''a''" "valid_doc_id ''b''"
  by code_simp+

theorem presence_cache_refines_map_witness:
  "\<exists>c'. apply_entries None [demo_event ''a'' ''join'', demo_event ''b'' ''join'', demo_event ''a'' ''leave''] empty_cache False
      = (c', Inr True) \<and> cache_inv c' \<and> cache_lookup c' ''b'' = Some ([(''x'', JNull)], nat_num 5)"
proof -
  let ?es = "[demo_event ''a'' ''join'', demo_event ''b'' ''join'', demo_event ''a'' ''leave'']"
  have d: "decodePresenceUserId (pack_of ''a'') = Inr ''a''" "decodePresenceUserId (pack_of ''b'') = Inr ''b''"
    by (simp_all add: decode_pack_user valid_ab)
  obtain c' where c': "apply_entries None ?es empty_cache False = (c', Inr True)"
    by (simp add: applyBroadcastEntry_def d isRelevantChange_def demo_event_def)
  have us: "traverse (\<lambda>e. decodePresenceUserId (pe_userId e)) ?es = Inr [''a'', ''b'', ''a'']"
    by (simp add: d demo_event_def)
  have "cache_inv c' \<and> cache_lookup c' = foldl map_event (cache_lookup empty_cache) (zip [''a'', ''b'', ''a''] ?es)"
    using presence_cache_refines_map [OF pcache.inv_empty c'] unfolding us by simp
  then show ?thesis
    using c' by (simp add: map_event_def demo_event_def event_data_def event_joined_def pcache.lookup_empty)
qed

section \<open>Looking up everyone else\<close>

text \<open>C33: A presence snapshot lists every other present user exactly once: without
  \<open>includeSelf\<close> it is a permutation of the present users less the local one, and with it,
  or before the local user is known, of all of them.\<close>

theorem getAll_excludes_self:
  assumes "cache_inv c"
  shows "mset (getAll includeSelf me c) = mset (filter
    (\<lambda>e. includeSelf \<or> me = None \<or> me = Some [] \<or> me \<noteq> Some (pu_userId e)) (userEntries c))"
proof (cases "\<not> includeSelf \<and> me \<noteq> None \<and> me \<noteq> Some []")
  case True
  then obtain u where me: "me = Some u" by auto
  show ?thesis
  proof (cases "om_get (userIndexes c) u")
    case None
    then have "pu_userId x \<noteq> u" if "x \<in> set (userEntries c)" for x
      using get_user_mem [OF assms, of u x] that by (auto simp: get_user_def)
    then have "filter (\<lambda>e. u \<noteq> pu_userId e) (userEntries c) = userEntries c"
      by (auto intro!: filter_True)
    then show ?thesis using True None me by (simp add: getAll_def Let_def)
  next
    case (Some i)
    note i = cache_invD [OF assms Some]
    have d: "distinct (userEntries c)" using cache_distinct [OF assms] by (simp add: distinct_map)
    have "x = userEntries c ! i \<longleftrightarrow> pu_userId x = u" if "x \<in> set (userEntries c)" for x
      using that i get_user_mem [OF assms, of u] by auto (metis nth_mem option.inject)
    then have "filter (\<lambda>e. u \<noteq> pu_userId e) (userEntries c) = filter (\<lambda>e. e \<noteq> userEntries c ! i) (userEntries c)"
      by (intro filter_cong) auto
    also have "\<dots> = remove1 (userEntries c ! i) (userEntries c)"
      using d by (simp add: distinct_remove1_removeAll removeAll_filter_not_eq) (metis (no_types, lifting) filter_cong)
    finally have "mset (filter (\<lambda>e. u \<noteq> pu_userId e) (userEntries c)) = mset (userEntries c) - {#userEntries c ! i#}"
      by simp
    then show ?thesis using True Some me swap_remove_mset [OF i(1)] by (simp add: getAll_def Let_def)
  qed
next
  case False
  then have "filter (\<lambda>e. includeSelf \<or> me = None \<or> me = Some [] \<or> me \<noteq> Some (pu_userId e)) (userEntries c) = userEntries c"
    by (auto intro!: filter_True)
  then show ?thesis using False by (auto simp: getAll_def)
qed

theorem getAll_excludes_self_witness:
  "mset (map pu_userId (getAll False (Some ''a'') (cache_insert (cache_insert empty_cache ''a'' ([], Fin 0)) ''b'' ([], Fin 1)))) = {#''b''#}"
proof -
  let ?c = "cache_insert (cache_insert empty_cache ''a'' ([], Fin 0)) ''b'' ([], Fin 1)"
  have "cache_inv ?c" by (intro pcache.inv_insert pcache.inv_empty)
  moreover have "userEntries ?c = [\<lparr>pu_userId = ''a'', pu_data = [], pu_joinedAt = Fin 0\<rparr>, \<lparr>pu_userId = ''b'', pu_data = [], pu_joinedAt = Fin 1\<rparr>]"
    by (simp add: cache_insert_def setUserEntry_def empty_cache_def)
  ultimately show ?thesis
    using getAll_excludes_self [of ?c False "Some ''a''"] by simp
qed

end
