(* ===== verification/PresenceRuns.thy ===== *)
theory PresenceRuns
  imports PresenceSpec
begin

text \<open>
  Runs of the presence machine: the events in any order that the code allows, a timer only
  when it is armed and due. What holds in every reachable state: the promises of \<open>set\<close> are
  conserved, the throttle keeps its pace and never strands data, and what it merges is what
  the caller wrote.
\<close>

section \<open>Events and runs\<close>

datatype presence_event_in =
    EvSet props nat rat
  | EvThrottle rat
  | EvResponse nat "thrown + presence_ok"
  | EvRemove
  | EvSetShared props
  | EvSubscribe chan_kind
  | EvUnsubscribe chan_kind nat
  | EvFlush nat
  | EvBroadcast inbound
  | EvInvalidate
  | EvDisconnect
  | EvReplay chan_kind
  | EvLocalUser "string option"

fun presence_step :: "presence_event_in \<Rightarrow> presence \<Rightarrow> pstep" where
  "presence_step (EvSet data w now) p = presence_set data w now p"
| "presence_step (EvThrottle now) p = throttle_fire now p"
| "presence_step (EvResponse token r) p = presence_response token r p"
| "presence_step EvRemove p = presence_remove p"
| "presence_step (EvSetShared data) p = setShared data p"
| "presence_step (EvSubscribe k) p = subscribeCallback k p"
| "presence_step (EvUnsubscribe k lid) p = presence_unsubscribe k lid p"
| "presence_step (EvFlush lid) p = listener_flush lid p"
| "presence_step (EvBroadcast m) p = handleBroadcast m p"
| "presence_step EvInvalidate p = invalidate scope_change p"
| "presence_step EvDisconnect p = handleDisconnect p"
| "presence_step (EvReplay k) p = fst (replay_kind k p)"
| "presence_step (EvLocalUser u) p = (setLocalUserId u p, [])"

fun enabled :: "presence_event_in \<Rightarrow> presence \<Rightarrow> bool" where
  "enabled (EvThrottle now) p \<longleftrightarrow> (case pr_throttleTimer p of Some due \<Rightarrow> due \<le> now | None \<Rightarrow> False)"
| "enabled _ p \<longleftrightarrow> True"

inductive presence_run :: "presence_event_in list \<Rightarrow> presence \<Rightarrow> presence_effect list \<Rightarrow> bool" where
  start: "presence_run [] new_presence []"
| step: "presence_run evs p es \<Longrightarrow> enabled ev p \<Longrightarrow> presence_step ev p = (p', es') \<Longrightarrow>
    presence_run (evs @ [ev]) p' (es @ es')"

inductive_cases presence_run_snocE: "presence_run (evs @ [ev]) p es"
inductive_simps presence_run_Nil: "presence_run [] p es"

section \<open>What concerns \<open>set\<close>\<close>

fun set_waiters_of :: "purpose \<Rightarrow> nat list" where
  "set_waiters_of (ForSet ws) = ws"
| "set_waiters_of _ = []"

definition in_flight_sets :: "presence \<Rightarrow> nat list" where
  "in_flight_sets p = concat (map (\<lambda>(_, why). set_waiters_of why) (pr_requests p))"

fun settled_sets :: "presence_effect \<Rightarrow> nat list" where
  "settled_sets (PResolveSet w) = [w]"
| "settled_sets (PRejectSet w _) = [w]"
| "settled_sets _ = []"

fun sent_data :: "presence_effect \<Rightarrow> props list" where
  "sent_data (PSend _ (OutPresenceSet (JObj d))) = [d]"
| "sent_data _ = []"

definition throttle_of :: "presence \<Rightarrow> rat \<times> props option \<times> nat list \<times> rat option" where
  "throttle_of p = (pr_lastSetTime p, pr_pendingSetData p, pr_pendingSetWaiters p, pr_throttleTimer p)"

lemma throttle_frame [simp]:
  "throttle_of (p\<lparr>pr_next := a\<rparr>) = throttle_of p" "throttle_of (p\<lparr>pr_listeners := b\<rparr>) = throttle_of p"
  "throttle_of (p\<lparr>pr_cache := c\<rparr>) = throttle_of p" "throttle_of (p\<lparr>pr_sharedCache := d\<rparr>) = throttle_of p"
  "throttle_of (p\<lparr>pr_requests := e\<rparr>) = throttle_of p" "throttle_of (p\<lparr>pr_localUserId := f\<rparr>) = throttle_of p"
  "throttle_of (p\<lparr>pr_user := g\<rparr>) = throttle_of p" "throttle_of (p\<lparr>pr_shared := h\<rparr>) = throttle_of p"
  by (simp_all add: throttle_of_def)

definition tokens_ok :: "presence \<Rightarrow> bool" where
  "tokens_ok p \<longleftrightarrow> om_wf (pr_requests p) \<and> (\<forall>t \<in> fst ` set (pr_requests p). t < pr_next p)"

definition quiet :: "presence \<Rightarrow> pstep \<Rightarrow> bool" where
  \<comment> \<open>a step that has nothing to do with \<open>set\<close>\<close>
  "quiet p r \<longleftrightarrow> throttle_of (fst r) = throttle_of p
     \<and> (tokens_ok p \<longrightarrow> tokens_ok (fst r) \<and> in_flight_sets (fst r) = in_flight_sets p)
     \<and> concat (map settled_sets (snd r)) = [] \<and> concat (map sent_data (snd r)) = []"

lemma quiet_refl [simp, intro]: "concat (map settled_sets es) = [] \<Longrightarrow> concat (map sent_data es) = [] \<Longrightarrow> quiet p (p, es)"
  by (simp add: quiet_def)

lemma quiet_then_do:
  assumes "quiet p r" "\<And>q. quiet q (f q)"
  shows "quiet p (then_do r f)"
proof -
  obtain q es where r: "r = (q, es)" by (cases r)
  obtain q' es' where f: "f q = (q', es')" by (cases "f q")
  show ?thesis using assms(1) assms(2) [of q] unfolding r f
    by (simp add: then_do_def f quiet_def del: concat_eq_Nil_conv)
qed

lemma quiet_from:
  \<comment> \<open>a quiet step after an assignment that concerns none of the fields\<close>
  assumes "quiet q r" "throttle_of q = throttle_of p" "pr_requests q = pr_requests p" "pr_next p \<le> pr_next q"
  shows "quiet p r"
  using assms by (fastforce simp: quiet_def tokens_ok_def in_flight_sets_def)

lemma chan_frame [simp]:
  "throttle_of (put_chan k c p) = throttle_of p" "pr_requests (put_chan k c p) = pr_requests p"
  "pr_next (put_chan k c p) = pr_next p" "pr_listeners (put_chan k c p) = pr_listeners p"
  "chan_of k (put_chan k c p) = c"
  by (cases k; simp add: throttle_of_def)+

lemma quiet_send:
  assumes "set_waiters_of why = []" "sent_data (PSend 0 msg) = []"
  shows "quiet p (send_request msg why p)"
proof -
  have "sent_data (PSend t msg) = []" for t
    using assms(2) by (cases "PSend t msg" rule: sent_data.cases) auto
  moreover have "pr_next p \<notin> fst ` set (pr_requests p)" if "tokens_ok p"
    using that by (force simp: tokens_ok_def)
  ultimately show ?thesis using assms(1)
    by (fastforce simp: quiet_def send_request_def throttle_of_def tokens_ok_def in_flight_sets_def om_set_fresh om_wf_def)
qed


section \<open>The quiet operations\<close>

lemma quiet_dispatchAccepted: "sent_data (PSend 0 msg) = [] \<Longrightarrow> quiet p (dispatchAccepted msg fallback p)"
  unfolding dispatchAccepted_def by (rule quiet_send) simp_all

lemma quiet_listener_call: "quiet p (listener_call lid v p)"
  by (auto simp: listener_call_def quiet_def throttle_of_def tokens_ok_def in_flight_sets_def split: option.splits)

lemma quiet_listener_flush: "quiet p (listener_flush lid p)"
  by (auto simp: listener_flush_def quiet_def throttle_of_def tokens_ok_def in_flight_sets_def split: option.splits)

lemma quiet_fire_all: "quiet p (fire_all lids v p)"
  by (induction lids arbitrary: p) (simp_all add: quiet_then_do quiet_listener_call)

lemma close_listener_frame [simp]:
  "throttle_of (close_listener k lid p) = throttle_of p" "pr_requests (close_listener k lid p) = pr_requests p"
  "pr_next (close_listener k lid p) = pr_next p"
  by (simp_all add: close_listener_def Let_def throttle_of_def split: option.splits)
    (cases k; simp)+

lemma close_all_frame [simp]:
  "throttle_of (foldl (\<lambda>p lid. close_listener k lid p) p lids) = throttle_of p"
  "pr_requests (foldl (\<lambda>p lid. close_listener k lid p) p lids) = pr_requests p"
  "pr_next (foldl (\<lambda>p lid. close_listener k lid p) p lids) = pr_next p"
  by (induction lids arbitrary: p) simp_all

lemma drop_promise_frame [simp]:
  "throttle_of (drop_promise k pid gen p) = throttle_of p" "pr_requests (drop_promise k pid gen p) = pr_requests p"
  "pr_next (drop_promise k pid gen p) = pr_next p"
  by (simp_all add: drop_promise_def Let_def)

lemma stop_waiting_frame [simp]:
  "throttle_of (stop_waiting pid p) = throttle_of p" "pr_requests (stop_waiting pid p) = pr_requests p"
  "pr_next (stop_waiting pid p) = pr_next p"
  by (simp_all add: stop_waiting_def throttle_of_def)

lemma quiet_sub_effects [simp]:
  "concat (map settled_sets (map PResolveSub ws)) = []" "concat (map sent_data (map PResolveSub ws)) = []"
  "concat (map settled_sets (map (\<lambda>w. PRejectSub w e) ws)) = []" "concat (map sent_data (map (\<lambda>w. PRejectSub w e) ws)) = []"
  by simp_all

lemma quietI:
  assumes "throttle_of q = throttle_of p" "pr_requests q = pr_requests p" "pr_next p \<le> pr_next q"
    "concat (map settled_sets es) = []" "concat (map sent_data es) = []"
  shows "quiet p (q, es)"
  by (rule quiet_from [of q]) (use assms in auto)

lemma quiet_establish_done: "quiet p (establish_done k pid gen p)"
  unfolding establish_done_def by (rule quietI) simp_all

lemma quiet_establish_failed: "quiet p (establish_failed k pid gen err p)"
  unfolding establish_failed_def Let_def by (rule quietI) simp_all

lemma quiet_establish_loop: "quiet p (establish_loop k pid gen p)"
proof -
  have "sent_data (PSend 0 (subscribe_message k)) = []" by (cases k) simp_all
  then show ?thesis by (simp add: establish_loop_def quiet_send quiet_establish_failed)
qed

lemma quiet_adopt: "quiet p (adopt k pid gen subId ok p)"
proof (cases k)
  case UserChan
  have u: "quiet q (fireUserCallbacks q)" for q by (simp add: fireUserCallbacks_def quiet_fire_all)
  show ?thesis
  proof (cases "populateUserCacheFromSnapshot ok (pr_cache (put_chan UserChan ((pr_user p)\<lparr>ch_subId := Some subId\<rparr>) p))")
    case (Pair c r)
    show ?thesis
    proof (cases r)
      case (Inl err)
      show ?thesis using Pair Inl UserChan
        by (simp add: Let_def) (rule quiet_from [OF quiet_establish_failed], simp_all add: throttle_of_def)
    next
      case (Inr u0)
      show ?thesis using Pair Inr UserChan
        by (simp add: Let_def)
          (intro conjI impI quiet_then_do quiet_establish_done quiet_from [OF u] quietI; simp add: throttle_of_def)
    qed
  qed
next
  case SharedChan
  have s: "quiet q (fireSharedCallbacks q)" for q by (simp add: fireSharedCallbacks_def quiet_fire_all)
  show ?thesis unfolding SharedChan adopt.simps Let_def
    by (rule quiet_then_do [OF quiet_from [OF s] quiet_establish_done])
      (simp_all add: throttle_of_def)
qed

lemma sent_unsubscribe [simp]: "sent_data (PSend 0 (unsubscribe_message k s)) = []"
  by (cases k) simp_all

lemma quiet_subscribed: "quiet p (subscribed k pid gen r p)"
  by (auto simp: subscribed_def quiet_establish_failed quiet_adopt quiet_send split: sum.splits option.splits)

lemma quiet_stale_released: "quiet p (stale_released k pid gen r p)"
  by (auto simp: stale_released_def Let_def quiet_establish_done quiet_establish_loop quiet_establish_failed
      intro!: quiet_then_do split: sum.splits)

lemma quiet_ensure: "quiet p (fst (ensure_subscription k p))"
  by (auto simp: ensure_subscription_def Let_def split: option.splits
      intro!: quiet_from [OF quiet_establish_loop])

lemma quiet_cleanup: "quiet p (cleanup_subscription k p)"
proof -
  have "quiet q (dispatchAccepted (unsubscribe_message k s) fb q)" for q s fb by (rule quiet_dispatchAccepted) simp
  then have "quiet p (dispatchAccepted (unsubscribe_message k s) fb q)"
    if "throttle_of q = throttle_of p" "pr_requests q = pr_requests p" "pr_next p \<le> pr_next q" for q s fb
    using that by (rule quiet_from)
  moreover have "throttle_of (cleanup_cache k q) = throttle_of q" "pr_requests (cleanup_cache k q) = pr_requests q"
    "pr_next (cleanup_cache k q) = pr_next q" for q
    by (cases k; simp add: cleanup_cache_def throttle_of_def)+
  ultimately show ?thesis
    by (simp add: cleanup_subscription_def Let_def quietI split: option.splits)
qed

lemma quiet_subscribeCallback: "quiet p (subscribeCallback k p)"
proof -
  have call: "quiet q (case initial_value k q0 of Some v \<Rightarrow> listener_call lid v q | None \<Rightarrow> (q, []))" for q q0 lid
    by (simp add: quiet_listener_call split: option.split)
  have tail: "quiet q (case ensure_subscription k q of
      (r, None) \<Rightarrow> then_do r (\<lambda>p. (p, [PResolveSub lid]))
    | (r, Some pid) \<Rightarrow> then_do r (\<lambda>p.
        (p\<lparr>pr_listeners := (case om_get (pr_listeners p) lid of
              Some l \<Rightarrow> om_set (pr_listeners p) lid (l\<lparr>li_waiting := Some pid\<rparr>) | None \<Rightarrow> pr_listeners p)\<rparr>, [])))" for q lid
    using quiet_ensure [of q k]
    by (cases "ensure_subscription k q"; cases "snd (ensure_subscription k q)")
      (auto intro!: quiet_then_do quietI)
  show ?thesis unfolding subscribeCallback_def Let_def
    by (rule quiet_then_do [OF quiet_from [OF call] tail]) simp_all
qed

lemma quiet_unsubscribe: "quiet p (presence_unsubscribe k lid p)"
  by (auto simp: presence_unsubscribe_def split: option.splits intro: quiet_from [OF quiet_cleanup])

lemma quiet_broadcast: "quiet p (handleBroadcast m p)"
proof (cases m)
  case (InPresence subId users)
  have u: "quiet q (fireUserCallbacks q)" for q by (simp add: fireUserCallbacks_def quiet_fire_all)
  have "quiet p (fireUserCallbacks (p\<lparr>pr_cache := c\<rparr>))" "quiet p (p\<lparr>pr_cache := c\<rparr>, [])" for c
    by (rule quiet_from [OF u] quietI; simp)+
  then show ?thesis using InPresence
    by (auto simp: handlePresenceBroadcast_def Let_def split: prod.splits sum.splits)
next
  case (InShared subId data)
  have s: "quiet q (fireSharedCallbacks q)" for q by (simp add: fireSharedCallbacks_def quiet_fire_all)
  have "quiet p (fireSharedCallbacks (p\<lparr>pr_sharedCache := c\<rparr>))" for c
    by (rule quiet_from [OF s]; simp)
  then show ?thesis using InShared by (simp add: handleSharedStateBroadcast_def)
qed simp_all

lemma quiet_replay: "quiet p (fst (replay_kind k p))"
  by (simp add: replay_kind_def quiet_ensure)

lemma in_flight_delete:
  assumes "tokens_ok p" "om_get (pr_requests p) t = Some why"
  shows "mset (in_flight_sets p) = mset (set_waiters_of why)
      + mset (in_flight_sets (p\<lparr>pr_requests := om_delete (pr_requests p) t\<rparr>))"
    "tokens_ok (p\<lparr>pr_requests := om_delete (pr_requests p) t\<rparr>)"
proof -
  have "om_wf m \<Longrightarrow> om_get m t = Some why \<Longrightarrow>
      mset (concat (map (\<lambda>(_, w). set_waiters_of w) m)) = mset (set_waiters_of why)
        + mset (concat (map (\<lambda>(_, w). set_waiters_of w) (om_delete m t)))" for m
  proof (induction m)
    case (Cons x m)
    obtain k w where x: "x = (k, w)" by (cases x)
    show ?case
    proof (cases "k = t")
      case True
      then have "om_get m t = None" using Cons.prems(1) by (simp add: x om_get_None_iff)
      moreover have "om_delete (x # m) t = om_delete m t" using True by (simp add: x om_delete_def)
      ultimately show ?thesis using True Cons.prems(2) by (simp add: x om_delete_absent)
    next
      case False
      have "om_delete (x # m) t = x # om_delete m t" using False by (simp add: x om_delete_def)
      then show ?thesis using False Cons by (simp add: x)
    qed
  qed simp
  then show "mset (in_flight_sets p) = mset (set_waiters_of why)
      + mset (in_flight_sets (p\<lparr>pr_requests := om_delete (pr_requests p) t\<rparr>))"
    using assms by (simp add: in_flight_sets_def tokens_ok_def)
  show "tokens_ok (p\<lparr>pr_requests := om_delete (pr_requests p) t\<rparr>)"
    using assms(1) by (simp add: tokens_ok_def) (auto simp: om_delete_def)
qed

lemma response_other:
  assumes "om_get (pr_requests p) t = Some why" "set_waiters_of why = []" "\<nexists>ws. why = ForSet ws"
  shows "tokens_ok p \<Longrightarrow> tokens_ok (fst (presence_response t r p))
      \<and> mset (in_flight_sets (fst (presence_response t r p))) = mset (in_flight_sets p)"
    "throttle_of (fst (presence_response t r p)) = throttle_of p"
    "concat (map settled_sets (snd (presence_response t r p))) = []"
    "concat (map sent_data (snd (presence_response t r p))) = []"
proof -
  let ?q = "p\<lparr>pr_requests := om_delete (pr_requests p) t\<rparr>"
  have q: "quiet ?q (presence_response t r p)"
    using assms by (cases why; cases r)
      (simp_all add: presence_response_def Let_def quiet_subscribed quiet_stale_released quiet_refl)
  have same: "throttle_of ?q = throttle_of p" by simp
  show "tokens_ok p \<Longrightarrow> tokens_ok (fst (presence_response t r p))
      \<and> mset (in_flight_sets (fst (presence_response t r p))) = mset (in_flight_sets p)"
    using in_flight_delete [OF _ assms(1)] q assms(2) by (simp add: quiet_def)
  show "throttle_of (fst (presence_response t r p)) = throttle_of p"
    "concat (map settled_sets (snd (presence_response t r p))) = []"
    "concat (map sent_data (snd (presence_response t r p))) = []"
    using q same by (simp_all add: quiet_def)
qed

section \<open>No promise of \<open>set\<close> is lost\<close>

fun set_issued :: "presence_event_in \<Rightarrow> nat list" where
  "set_issued (EvSet _ w _) = [w]"
| "set_issued _ = []"

definition held_sets :: "presence \<Rightarrow> nat multiset" where
  "held_sets p = mset (pr_pendingSetWaiters p) + mset (in_flight_sets p)"

lemma sendSet_flight:
  assumes "tokens_ok p"
  shows "tokens_ok (fst (sendSet d ws p))" "in_flight_sets (fst (sendSet d ws p)) = in_flight_sets p @ ws"
proof -
  have "pr_next p \<notin> fst ` set (pr_requests p)" using assms by (force simp: tokens_ok_def)
  then show "tokens_ok (fst (sendSet d ws p))" "in_flight_sets (fst (sendSet d ws p)) = in_flight_sets p @ ws"
    using assms by (fastforce simp: sendSet_def send_request_def tokens_ok_def in_flight_sets_def om_set_fresh om_wf_def)+
qed

lemma sendSet_frame [simp]:
  "throttle_of (fst (sendSet d ws p)) = throttle_of p"
  "snd (sendSet d ws p) = [PSend (pr_next p) (OutPresenceSet (JObj d))]"
  "pr_pendingSetWaiters (fst (sendSet d ws p)) = pr_pendingSetWaiters p"
  by (simp_all add: sendSet_def send_request_def)

lemma throttle_fields:
  "throttle_of p = throttle_of q \<Longrightarrow> pr_lastSetTime p = pr_lastSetTime q \<and> pr_pendingSetData p = pr_pendingSetData q
     \<and> pr_pendingSetWaiters p = pr_pendingSetWaiters q \<and> pr_throttleTimer p = pr_throttleTimer q"
  by (simp add: throttle_of_def)

lemma clearThrottle_settles [simp]:
  "concat (map settled_sets (snd (clearThrottle reason p))) = pr_pendingSetWaiters p"
  "concat (map sent_data (snd (clearThrottle reason p))) = []"
  "in_flight_sets (fst (clearThrottle reason p)) = in_flight_sets p"
  "tokens_ok (fst (clearThrottle reason p)) = tokens_ok p"
  "throttle_of (fst (clearThrottle reason p)) = (0, None, [], None)"
  by (simp_all add: clearThrottle_def in_flight_sets_def tokens_ok_def throttle_of_def comp_def)

lemma quiet_account:
  assumes "quiet p (q, es)" "tokens_ok p"
  shows "tokens_ok q \<and> mset (concat (map settled_sets es)) + held_sets q = held_sets p"
  using assms throttle_fields [of q p] by (simp add: quiet_def held_sets_def)

definition accounts :: "presence_event_in \<Rightarrow> presence \<Rightarrow> bool" where
  "accounts ev p \<longleftrightarrow> tokens_ok (fst (presence_step ev p))
     \<and> mset (set_issued ev) + held_sets p
       = mset (concat (map settled_sets (snd (presence_step ev p)))) + held_sets (fst (presence_step ev p))"

lemma quiet_event:
  "quiet p (presence_step ev p)" if "\<nexists>d w now. ev = EvSet d w now" "\<nexists>now. ev = EvThrottle now"
    "\<nexists>t r. ev = EvResponse t r" "ev \<notin> {EvRemove, EvInvalidate, EvDisconnect}"
  using that by (cases ev)
    (simp_all add: setShared_def quiet_dispatchAccepted quiet_subscribeCallback quiet_unsubscribe
      quiet_listener_flush quiet_broadcast quiet_replay quietI setLocalUserId_def)

lemma remove_step:
  "presence_step EvRemove p = (let r = clearThrottle
      (presence_error ''Presence set superseded by remove'' ''REQUEST_SUPERSEDED'' ''state'' False) p;
     s = dispatchAccepted OutPresenceRemove ''Presence remove failed'' (fst r)
   in (fst s, snd r @ snd s))"
  by (simp add: presence_remove_def then_do_def Let_def split: prod.splits)

lemma response_cases:
  obtains "om_get (pr_requests p) t = None"
  | ws where "om_get (pr_requests p) t = Some (ForSet ws)"
  | why where "om_get (pr_requests p) t = Some why" "set_waiters_of why = []" "\<nexists>ws. why = ForSet ws"
  by (cases "om_get (pr_requests p) t") (auto, metis set_waiters_of.elims)

lemma accounts_set: assumes ok: "tokens_ok p" shows "accounts (EvSet d w now) p"
proof -
  define q where "q = p\<lparr>pr_throttleTimer := None, pr_pendingSetData := None, pr_lastSetTime := now, pr_pendingSetWaiters := []\<rparr>"
  have "tokens_ok q" "in_flight_sets q = in_flight_sets p" "pr_pendingSetWaiters q = []"
    using ok by (simp_all add: q_def tokens_ok_def in_flight_sets_def)
  then show ?thesis
    using ok sendSet_flight [of q]
    by (simp add: accounts_def presence_set_def Let_def held_sets_def q_def [symmetric])
      (simp add: tokens_ok_def in_flight_sets_def)
qed

lemma accounts_fire: assumes ok: "tokens_ok p" shows "accounts (EvThrottle now) p"
proof (cases "pr_pendingSetData p")
  case None
  then show ?thesis using ok by (simp add: accounts_def throttle_fire_def Let_def held_sets_def tokens_ok_def in_flight_sets_def)
next
  case (Some d)
  define q where "q = p\<lparr>pr_throttleTimer := None, pr_lastSetTime := now, pr_pendingSetWaiters := []\<rparr>"
  have "tokens_ok q" "in_flight_sets q = in_flight_sets p" "pr_pendingSetWaiters q = []"
    using ok by (simp_all add: q_def tokens_ok_def in_flight_sets_def)
  moreover obtain q' es where s: "sendSet d (pr_pendingSetWaiters p) q = (q', es)" by fastforce
  moreover have "tokens_ok (q'\<lparr>pr_pendingSetData := None\<rparr>) = tokens_ok q'"
    "in_flight_sets (q'\<lparr>pr_pendingSetData := None\<rparr>) = in_flight_sets q'"
    by (simp_all add: tokens_ok_def in_flight_sets_def)
  moreover have "es = [PSend (pr_next q) (OutPresenceSet (JObj d))]" "pr_pendingSetWaiters q' = pr_pendingSetWaiters q"
    using s sendSet_frame [of d "pr_pendingSetWaiters p" q] by simp_all
  ultimately show ?thesis
    using Some sendSet_flight [of q d "pr_pendingSetWaiters p"]
    by (simp add: accounts_def throttle_fire_def Let_def held_sets_def q_def [symmetric] then_do_def)
qed

lemma accounts_response: assumes ok: "tokens_ok p" shows "accounts (EvResponse t r) p"
proof (cases rule: response_cases [of p t])
  case 1
  then show ?thesis using ok by (simp add: accounts_def presence_response_def)
next
  case (2 ws)
  have [simp]: "settled_sets \<circ> PResolveSet = (\<lambda>x. [x])" "settled_sets \<circ> (\<lambda>w. PRejectSet w e) = (\<lambda>x. [x])" for e
    by (simp_all add: comp_def)
  show ?thesis using 2 in_flight_delete [OF ok 2]
    by (cases r) (simp_all add: accounts_def presence_response_def Let_def held_sets_def)
next
  case (3 why)
  then show ?thesis
    using response_other [of p t why r] ok throttle_fields [of "fst (presence_response t r p)" p]
    by (simp add: accounts_def held_sets_def)
qed

lemma accounts_clear: assumes ok: "tokens_ok p"
  shows "accounts EvRemove p" "accounts EvInvalidate p" "accounts EvDisconnect p"
proof -
  let ?e = "presence_error ''Presence set superseded by remove'' ''REQUEST_SUPERSEDED'' ''state'' False"
  let ?q = "fst (clearThrottle ?e p)"
  have q: "tokens_ok ?q" "held_sets ?q = mset (in_flight_sets p)"
    using ok by (simp_all add: held_sets_def) (simp add: clearThrottle_def)
  have "quiet ?q (dispatchAccepted OutPresenceRemove ''Presence remove failed'' ?q)"
    by (rule quiet_dispatchAccepted) simp
  then have s: "tokens_ok (fst (dispatchAccepted OutPresenceRemove ''Presence remove failed'' ?q))
      \<and> mset (concat (map settled_sets (snd (dispatchAccepted OutPresenceRemove ''Presence remove failed'' ?q))))
        + held_sets (fst (dispatchAccepted OutPresenceRemove ''Presence remove failed'' ?q)) = held_sets ?q"
    using quiet_account [of ?q "fst (dispatchAccepted OutPresenceRemove ''Presence remove failed'' ?q)"
        "snd (dispatchAccepted OutPresenceRemove ''Presence remove failed'' ?q)"] q by simp
  then show "accounts EvRemove p"
    unfolding accounts_def remove_step Let_def using q by (simp add: held_sets_def [of p])
  have inv: "accounts ev p" if "presence_step ev p = invalidate reason p" "set_issued ev = []" for ev reason
    using ok unfolding accounts_def that invalidate_def
    by (simp add: held_sets_def) (simp add: clearThrottle_def tokens_ok_def in_flight_sets_def)
  show "accounts EvInvalidate p" by (rule inv) simp_all
  show "accounts EvDisconnect p" by (rule inv) (simp_all add: handleDisconnect_def)
qed

lemma accounts_step:
  assumes ok: "tokens_ok p"
  shows "accounts ev p"
proof (cases "(\<nexists>d w now. ev = EvSet d w now) \<and> (\<nexists>now. ev = EvThrottle now)
    \<and> (\<nexists>t r. ev = EvResponse t r) \<and> ev \<notin> {EvRemove, EvInvalidate, EvDisconnect}")
  case True
  then have "set_issued ev = []" by (cases ev) auto
  then show ?thesis
    using quiet_account [of p "fst (presence_step ev p)" "snd (presence_step ev p)"] quiet_event [of ev p] True ok
    by (simp add: accounts_def)
next
  case False
  have set: "accounts (EvSet d w now) p" for d w now
    by (rule accounts_set [OF ok])
  have fire: "accounts (EvThrottle now) p" for now
    by (rule accounts_fire [OF ok])
  have resp: "accounts (EvResponse t r) p" for t r
    by (rule accounts_response [OF ok])
  have clear: "accounts EvRemove p" "accounts EvInvalidate p" "accounts EvDisconnect p"
    using accounts_clear [OF ok] by simp_all
  show ?thesis using False set fire resp clear by auto
qed

text \<open>C34: No promise that \<open>set\<close> returned is lost or settled twice: in every run, whatever the
  order of writes, timers, answers, removals, scope changes and disconnects, the promises given
  out are exactly those settled so far together with those that wait for the throttle and
  those whose message is unanswered.\<close>

theorem presence_sets_conserved:
  assumes "presence_run evs p es"
  shows "mset (concat (map set_issued evs))
    = mset (concat (map settled_sets es)) + mset (pr_pendingSetWaiters p) + mset (in_flight_sets p)"
proof -
  have "tokens_ok p \<and> mset (concat (map set_issued evs)) = mset (concat (map settled_sets es)) + held_sets p"
    using assms
  proof (induction rule: presence_run.induct)
    case start
    show ?case by (simp add: tokens_ok_def new_presence_def held_sets_def in_flight_sets_def)
  next
    case (step evs p es ev p' es')
    then have "accounts ev p" using accounts_step by blast
    then show ?case using step by (simp add: accounts_def add.assoc) (simp add: add.commute)
  qed
  then show ?thesis by (simp add: held_sets_def)
qed

theorem presence_sets_conserved_witness:
  "\<exists>p es. presence_run [EvSet [] 0 20, EvSet [] 1 21, EvRemove] p es
     \<and> mset (concat (map settled_sets es)) + mset (pr_pendingSetWaiters p) + mset (in_flight_sets p) = {#0, 1#}"
proof -
  obtain p es where r: "presence_run ((([] @ [EvSet [] 0 20]) @ [EvSet [] 1 21]) @ [EvRemove]) p es"
    by (meson enabled.simps presence_run.intros prod.exhaust_sel)
  then show ?thesis using presence_sets_conserved [OF r] by auto
qed

section \<open>The throttle\<close>

definition throttle_inv :: "rat \<times> props option \<times> nat list \<times> rat option \<Rightarrow> bool" where
  "throttle_inv s = (case s of (lastSet, pending, waiters, timer) \<Rightarrow>
     (case pending of None \<Rightarrow> waiters = [] \<and> timer = None
      | Some d \<Rightarrow> waiters \<noteq> [] \<and> timer = Some (lastSet + THROTTLE_INTERVAL_MS)))"

lemma throttle_of_response [simp]: "throttle_of (fst (presence_response t r p)) = throttle_of p"
proof (cases rule: response_cases [of p t])
  case (3 why)
  then show ?thesis by (rule response_other(2))
qed (cases r; simp add: presence_response_def Let_def)+

lemma throttle_of_remove: "throttle_of (fst (presence_step EvRemove p)) = (0, None, [], None)"
proof -
  have "quiet q (dispatchAccepted OutPresenceRemove fb q)" for q fb by (rule quiet_dispatchAccepted) simp
  then show ?thesis unfolding remove_step Let_def by (simp add: quiet_def)
qed

lemma throttle_of_set:
  "throttle_of (fst (presence_set d w now p)) =
     (if now - pr_lastSetTime p \<ge> THROTTLE_INTERVAL_MS then (now, None, [], None)
      else (pr_lastSetTime p, Some (js_spread (case pr_pendingSetData p of Some x \<Rightarrow> x | None \<Rightarrow> []) d),
        pr_pendingSetWaiters p @ [w],
        case pr_throttleTimer p of None \<Rightarrow> Some (pr_lastSetTime p + THROTTLE_INTERVAL_MS) | t \<Rightarrow> t))"
  by (simp add: presence_set_def Let_def split: option.split) (simp add: throttle_of_def)

lemma throttle_of_fire:
  "throttle_of (fst (throttle_fire now p)) =
     (case pr_pendingSetData p of None \<Rightarrow> (pr_lastSetTime p, None, pr_pendingSetWaiters p, None)
      | Some d \<Rightarrow> (now, None, [], None))"
proof (cases "pr_pendingSetData p")
  case (Some d)
  then show ?thesis
    by (simp add: throttle_fire_def then_do_def throttle_of_def sendSet_def send_request_def)
qed (simp add: throttle_fire_def throttle_of_def)

lemma throttle_of_step:
  "throttle_of (fst (presence_step ev p)) =
     (case ev of EvSet d w now \<Rightarrow> throttle_of (fst (presence_set d w now p))
      | EvThrottle now \<Rightarrow> throttle_of (fst (throttle_fire now p))
      | EvRemove \<Rightarrow> (0, None, [], None) | EvInvalidate \<Rightarrow> (0, None, [], None) | EvDisconnect \<Rightarrow> (0, None, [], None)
      | _ \<Rightarrow> throttle_of p)"
  using quiet_event [of ev p]
  by (cases ev) (simp_all add: quiet_def throttle_of_remove [simplified] invalidate_def handleDisconnect_def)

lemma throttle_inv_step:
  assumes "throttle_inv (throttle_of p)"
  shows "throttle_inv (throttle_of (fst (presence_step ev p)))"
proof -
  have p: "throttle_inv (pr_lastSetTime p, pr_pendingSetData p, pr_pendingSetWaiters p, pr_throttleTimer p)"
    using assms by (simp add: throttle_of_def)
  show ?thesis unfolding throttle_of_step
    by (cases ev) (use p assms in \<open>auto simp: throttle_of_set throttle_of_fire throttle_inv_def split: option.splits\<close>)
qed

lemma throttle_inv_run: "presence_run evs p es \<Longrightarrow> throttle_inv (throttle_of p)"
proof (induction rule: presence_run.induct)
  case (step evs p es ev p' es')
  then show ?case using throttle_inv_step [of p ev] by simp
qed (simp add: throttle_inv_def throttle_of_def new_presence_def)

text \<open>C35: Throttled presence data is never stranded: in every reachable state, data that waits
  comes with the promises that wait for it and with a timer armed for exactly one interval
  after the last send; when that timer fires, at any time from then on, the one message that
  is sent carries all of the data and settles all of these promises, and nothing waits any
  more. Without waiting data there is no waiting promise and no timer.\<close>

theorem presence_throttle_liveness:
  assumes "presence_run evs p es"
  shows "case pr_pendingSetData p of
      None \<Rightarrow> pr_pendingSetWaiters p = [] \<and> pr_throttleTimer p = None
    | Some d \<Rightarrow> pr_pendingSetWaiters p \<noteq> [] \<and> pr_throttleTimer p = Some (pr_lastSetTime p + THROTTLE_INTERVAL_MS)
        \<and> (\<forall>now. case presence_step (EvThrottle now) p of (q, sent) \<Rightarrow>
             sent = [PSend (pr_next p) (OutPresenceSet (JObj d))]
             \<and> om_get (pr_requests q) (pr_next p) = Some (ForSet (pr_pendingSetWaiters p))
             \<and> throttle_of q = (now, None, [], None))"
  using throttle_inv_run [OF assms]
  by (auto simp: throttle_inv_def throttle_of_def throttle_fire_def then_do_def sendSet_def send_request_def
      split: option.splits)

theorem presence_throttle_liveness_witness:
  "\<exists>p es. presence_run [EvSet [(''x'', JNull)] 0 20, EvSet [(''y'', JNull)] 1 21] p es
     \<and> pr_pendingSetData p = Some [(''y'', JNull)] \<and> pr_throttleTimer p = Some 36"
proof -
  obtain p es where r: "presence_run (([] @ [EvSet [(''x'', JNull)] 0 20]) @ [EvSet [(''y'', JNull)] 1 21]) p es"
    and d: "pr_pendingSetData p = Some [(''y'', JNull)]" "pr_lastSetTime p = 20"
  proof -
    obtain p1 es1 where 1: "presence_step (EvSet [(''x'', JNull)] 0 20) new_presence = (p1, es1)" by fastforce
    have t1: "throttle_of p1 = (20, None, [], None)"
      using throttle_of_set [of "[(''x'', JNull)]" 0 20 new_presence] 1
      by (simp add: new_presence_def THROTTLE_INTERVAL_MS_def)
    obtain p2 es2 where 2: "presence_step (EvSet [(''y'', JNull)] 1 21) p1 = (p2, es2)" by fastforce
    have "throttle_of p2 = (20, Some [(''y'', JNull)], [1], Some 36)"
      using throttle_of_set [of "[(''y'', JNull)]" 1 21 p1] 2 t1
      by (simp add: throttle_of_def THROTTLE_INTERVAL_MS_def js_spread_def js_put_def)
    then show thesis
      using that [OF presence_run.step [OF presence_run.step [OF presence_run.start _ 1] _ 2]]
      by (simp add: throttle_of_def)
  qed
  then show ?thesis using presence_throttle_liveness [OF r] by (auto simp: THROTTLE_INTERVAL_MS_def)
qed

section \<open>What is sent is what was written\<close>

fun set_data :: "presence_event_in \<Rightarrow> props list" where
  "set_data (EvSet d _ _) = [d]"
| "set_data _ = []"

fun keeps_sets :: "presence_event_in \<Rightarrow> bool" where
  \<comment> \<open>nothing withdraws what was written; objects have no property twice\<close>
  "keeps_sets EvRemove \<longleftrightarrow> False"
| "keeps_sets EvInvalidate \<longleftrightarrow> False"
| "keeps_sets EvDisconnect \<longleftrightarrow> False"
| "keeps_sets (EvSet d _ _) \<longleftrightarrow> om_wf d"
| "keeps_sets _ \<longleftrightarrow> True"

abbreviation merge_all :: "props list \<Rightarrow> props" where
  "merge_all ds \<equiv> foldl js_spread [] ds"

definition waiting_data :: "presence \<Rightarrow> props" where
  "waiting_data p = (case pr_pendingSetData p of Some d \<Rightarrow> d | None \<Rightarrow> [])"

lemma map_of_rev_wf: "om_wf b \<Longrightarrow> map_of (rev b) = om_get b"
proof
  fix k
  assume b: "om_wf b"
  show "map_of (rev b) k = om_get b k"
  proof (rule option_eqI)
    show "map_of (rev b) k = Some v \<longleftrightarrow> om_get b k = Some v" for v
      using b by (simp add: om_get_def om_wf_def rev_map [symmetric])
  qed
qed

lemma spread_lookup:
  fixes a b :: props
  assumes "om_wf a" "om_wf b"
  shows "om_get (js_spread a b) = om_get a ++ om_get b"
  using assms by (simp add: fun_eq_iff om_get_js_spread map_of_rev_wf map_add_def)

lemma wf_spread: "om_wf a \<Longrightarrow> om_wf (js_spread a (b :: props))"
  by (simp add: js_spread_put_all jso.inv_put_all)

lemma response_sends_no_set: "concat (map sent_data (snd (presence_response t r p))) = []"
proof (cases rule: response_cases [of p t])
  case (3 why)
  then show ?thesis by (rule response_other(4))
qed (cases r; simp add: presence_response_def Let_def comp_def)+

lemma waiting_of_throttle: "throttle_of q = throttle_of p \<Longrightarrow> waiting_data q = waiting_data p"
  by (simp add: waiting_data_def throttle_of_def)

lemma merge_step:
  assumes S: "om_wf S" and W: "om_wf (waiting_data p)" and ev: "keeps_sets ev"
    and st: "presence_step ev p = (p', es)"
  shows "om_wf (foldl js_spread S (concat (map sent_data es))) \<and> om_wf (waiting_data p')
    \<and> om_get (foldl js_spread S (concat (map sent_data es))) ++ om_get (waiting_data p')
      = om_get S ++ om_get (waiting_data p) ++ om_get (merge_all (set_data ev))"
proof -
  have nil: "om_get [] = (Map.empty :: string \<Rightarrow> jv option)" by (simp add: fun_eq_iff)
  have same: ?thesis if "concat (map sent_data es) = []" "throttle_of p' = throttle_of p" "set_data ev = []"
    unfolding that(1,3) waiting_of_throttle [OF that(2)] using S W by (simp add: nil)
  have quiet: ?thesis if "quiet p (presence_step ev p)" "set_data ev = []"
  proof -
    have "quiet p (p', es)" using that(1) st by simp
    then show ?thesis using same that(2) unfolding quiet_def fst_conv snd_conv by blast
  qed
  consider (EvSet) d w now where "ev = EvSet d w now" | (EvThrottle) now where "ev = EvThrottle now"
    | (EvResponse) t r where "ev = EvResponse t r" | (other) "quiet p (presence_step ev p)" "set_data ev = []"
    using ev quiet_event [of ev p] by (cases ev) auto
  then show ?thesis
  proof cases
    case (EvSet d w now)
    have d: "om_wf d" using ev EvSet by simp
    show ?thesis
    proof (cases "now - pr_lastSetTime p \<ge> THROTTLE_INTERVAL_MS")
      case True
      let ?m = "case pr_pendingSetData p of Some x \<Rightarrow> js_spread x d | None \<Rightarrow> d"
      have "es = [PSend (pr_next p) (OutPresenceSet (JObj ?m))]" "waiting_data p' = []"
        using st True EvSet by (auto simp: presence_set_def Let_def sendSet_def send_request_def waiting_data_def)
      moreover have "om_wf ?m" "om_get ?m = om_get (waiting_data p) ++ om_get d"
        using W d by (auto simp: waiting_data_def wf_spread spread_lookup nil split: option.splits)
      moreover have "om_get (merge_all (set_data ev)) = om_get d"
        using spread_lookup [of "[]" d] d EvSet by (simp add: nil)
      ultimately show ?thesis using S by (simp add: wf_spread spread_lookup nil)
    next
      case False
      then have "es = []" "waiting_data p' = js_spread (waiting_data p) d"
        using st EvSet by (auto simp: presence_set_def Let_def waiting_data_def)
      moreover have "om_get (merge_all (set_data ev)) = om_get d"
        using spread_lookup [of "[]" d] d EvSet by (simp add: nil)
      ultimately show ?thesis using S W d by (simp add: wf_spread spread_lookup)
    qed
  next
    case (EvThrottle now)
    show ?thesis
    proof (cases "pr_pendingSetData p")
      case None
      then have "es = []" "waiting_data p' = waiting_data p"
        using st EvThrottle by (auto simp: throttle_fire_def waiting_data_def)
      then show ?thesis using S W EvThrottle by (simp add: nil)
    next
      case (Some d)
      then have "es = [PSend (pr_next p) (OutPresenceSet (JObj d))]" "waiting_data p' = []" "waiting_data p = d"
        using st EvThrottle by (auto simp: throttle_fire_def then_do_def sendSet_def send_request_def waiting_data_def)
      then show ?thesis using S W EvThrottle by (simp add: nil wf_spread spread_lookup)
    qed
  next
    case (EvResponse t r)
    then have "presence_response t r p = (p', es)" using st by simp
    then have "concat (map sent_data es) = []" "throttle_of p' = throttle_of p"
      using response_sends_no_set [of t r p] throttle_of_response [of t r p] by (simp_all only: fst_conv snd_conv)
    then show ?thesis using same EvResponse by simp
  qed (rule quiet)
qed



section \<open>Answers of an old generation\<close>

fun gen_of :: "purpose \<Rightarrow> (chan_kind \<times> nat) option" where
  "gen_of (ForSubscribe k _ gen) = Some (k, gen)"
| "gen_of (ForStale k _ gen) = Some (k, gen)"
| "gen_of _ = None"

definition gen_ok :: "presence \<Rightarrow> bool" where
  \<comment> \<open>no request is of a generation that has not begun\<close>
  "gen_ok p \<longleftrightarrow> (\<forall>(t, why) \<in> set (pr_requests p).
     case gen_of why of Some (k, gen) \<Rightarrow> gen \<le> ch_gen (chan_of k p) | None \<Rightarrow> True)"

definition gens :: "presence \<Rightarrow> nat \<times> nat" where
  "gens p = (ch_gen (pr_user p), ch_gen (pr_shared p))"

lemma gens_chan: "gens p = gens q \<Longrightarrow> ch_gen (chan_of k p) = ch_gen (chan_of k q)"
  by (cases k) (simp_all add: gens_def)

lemma gens_frame [simp]:
  "gens (p\<lparr>pr_next := a\<rparr>) = gens p" "gens (p\<lparr>pr_listeners := b\<rparr>) = gens p"
  "gens (p\<lparr>pr_cache := c\<rparr>) = gens p" "gens (p\<lparr>pr_sharedCache := d\<rparr>) = gens p"
  "gens (p\<lparr>pr_requests := e\<rparr>) = gens p" "gens (p\<lparr>pr_localUserId := f\<rparr>) = gens p"
  by (simp_all add: gens_def)

lemma gens_put: "ch_gen c = ch_gen (chan_of k p) \<Longrightarrow> gens (put_chan k c p) = gens p"
  by (cases k) (simp_all add: gens_def)

definition keeps_gens :: "presence \<Rightarrow> pstep \<Rightarrow> bool" where
  "keeps_gens p r \<longleftrightarrow> gens (fst r) = gens p \<and> (gen_ok p \<longrightarrow> gen_ok (fst r))"

lemma gen_ok_same:
  "gens q = gens p \<Longrightarrow> set (pr_requests q) \<subseteq> set (pr_requests p) \<Longrightarrow> gen_ok p \<Longrightarrow> gen_ok q"
  using gens_chan [of q p] by (fastforce simp: gen_ok_def split: option.splits)

lemma keeps_gensI: "gens q = gens p \<Longrightarrow> set (pr_requests q) \<subseteq> set (pr_requests p) \<Longrightarrow> keeps_gens p (q, es)"
  by (simp add: keeps_gens_def gen_ok_same)

lemma keeps_gens_then_do:
  assumes "keeps_gens p r" "\<And>q. gens q = gens p \<Longrightarrow> keeps_gens q (f q)"
  shows "keeps_gens p (then_do r f)"
proof -
  obtain q es where r: "r = (q, es)" by (cases r)
  obtain q' es' where f: "f q = (q', es')" by (cases "f q")
  show ?thesis using assms(1) assms(2) [of q] unfolding r f by (simp add: then_do_def f keeps_gens_def)
qed

lemma keeps_gens_from:
  "keeps_gens q r \<Longrightarrow> gens q = gens p \<Longrightarrow> set (pr_requests q) \<subseteq> set (pr_requests p) \<Longrightarrow> keeps_gens p r"
  by (auto simp: keeps_gens_def gen_ok_same)

lemma keeps_gens_send:
  assumes "case gen_of why of Some (k, gen) \<Rightarrow> gen \<le> ch_gen (chan_of k p) | None \<Rightarrow> True"
  shows "keeps_gens p (send_request msg why p)"
proof -
  have "x \<in> insert (t, why) (set m)" if "x \<in> set (om_set m t why)" for x m t
    using that by (induction m) (auto split: if_splits)
  then show ?thesis
    using assms gens_chan [of "fst (send_request msg why p)" p]
    by (fastforce simp: keeps_gens_def send_request_def gen_ok_def split: option.splits)
qed

lemma keeps_gens_refl [simp, intro]: "keeps_gens p (p, es)"
  by (simp add: keeps_gens_def)

lemma keeps_listener_call: "keeps_gens p (listener_call lid v p)"
  by (auto simp: listener_call_def intro: keeps_gensI split: option.splits)

lemma keeps_listener_flush: "keeps_gens p (listener_flush lid p)"
  by (auto simp: listener_flush_def intro: keeps_gensI split: option.splits)

lemma keeps_fire_all: "keeps_gens p (fire_all lids v p)"
  by (induction lids arbitrary: p) (simp_all add: keeps_gens_then_do keeps_listener_call)

lemma gens_close [simp]: "gens (close_listener k lid p) = gens p"
  by (simp add: close_listener_def Let_def gens_put split: option.split)

lemma gens_close_all [simp]: "gens (foldl (\<lambda>p lid. close_listener k lid p) p lids) = gens p"
  by (induction lids arbitrary: p) simp_all

lemma gens_drop [simp]: "gens (drop_promise k pid gen p) = gens p"
  by (simp add: drop_promise_def Let_def gens_put)

lemma gens_stop [simp]: "gens (stop_waiting pid p) = gens p"
  by (simp add: stop_waiting_def)

lemma keeps_establish_done: "keeps_gens p (establish_done k pid gen p)"
  unfolding establish_done_def by (rule keeps_gensI) simp_all

lemma keeps_establish_failed: "keeps_gens p (establish_failed k pid gen err p)"
  unfolding establish_failed_def Let_def by (rule keeps_gensI) simp_all

lemma keeps_establish_loop: "keeps_gens p (establish_loop k pid gen p)"
  by (simp add: establish_loop_def keeps_gens_send keeps_establish_failed)

lemma keeps_fires: "keeps_gens p (fireUserCallbacks p)" "keeps_gens p (fireSharedCallbacks p)"
  by (simp_all add: fireUserCallbacks_def fireSharedCallbacks_def keeps_fire_all)

lemma keeps_adopt: "keeps_gens p (adopt k pid gen subId ok p)"
proof (cases k)
  case UserChan
  define q where "q = put_chan UserChan ((pr_user p)\<lparr>ch_subId := Some subId\<rparr>) p"
  have q: "gens q = gens p" "pr_requests q = pr_requests p" unfolding q_def by (simp_all add: gens_def)
  have fire: "keeps_gens p (fireUserCallbacks (q\<lparr>pr_cache := c\<rparr>))" "keeps_gens p (q\<lparr>pr_cache := c\<rparr>, [])" for c
    using q by (simp_all add: keeps_gens_from [OF keeps_fires(1)] keeps_gensI)
  have fail: "keeps_gens p (establish_failed UserChan pid gen err (q\<lparr>pr_cache := c\<rparr>))" for err c
    by (rule keeps_gens_from [OF keeps_establish_failed]) (simp_all add: q)
  show ?thesis unfolding UserChan adopt.simps Let_def q_def [symmetric]
    by (simp add: keeps_gens_then_do fire fail keeps_establish_done split: prod.split sum.split)
next
  case SharedChan
  show ?thesis unfolding SharedChan adopt.simps Let_def
    by (rule keeps_gens_then_do [OF keeps_gens_from [OF keeps_fires(2)] keeps_establish_done])
      (simp_all add: gens_def)
qed

lemma keeps_subscribed: "gen \<le> ch_gen (chan_of k p) \<Longrightarrow> keeps_gens p (subscribed k pid gen r p)"
  by (simp add: subscribed_def keeps_establish_failed keeps_adopt keeps_gens_send split: sum.split option.split)

lemma keeps_stale_released: "keeps_gens p (stale_released k pid gen r p)"
  by (simp add: stale_released_def Let_def keeps_establish_done keeps_establish_loop keeps_establish_failed
      keeps_gens_then_do split: sum.split)

lemma keeps_ensure: "keeps_gens p (fst (ensure_subscription k p))"
proof -
  have "keeps_gens p (establish_loop k pid gen (put_chan k ((chan_of k p)\<lparr>ch_promise := x\<rparr>) (p\<lparr>pr_next := n\<rparr>)))" for pid gen x n
  proof (rule keeps_gens_from [OF keeps_establish_loop])
    have "ch_gen (chan_of k (p\<lparr>pr_next := n\<rparr>)) = ch_gen (chan_of k p)" by (rule gens_chan) simp
    then show "gens (put_chan k ((chan_of k p)\<lparr>ch_promise := x\<rparr>) (p\<lparr>pr_next := n\<rparr>)) = gens p" by (simp add: gens_put)
  qed simp
  then show ?thesis by (simp add: ensure_subscription_def Let_def split: option.split)
qed

lemma keeps_dispatchAccepted: "keeps_gens p (dispatchAccepted msg fb p)"
  unfolding dispatchAccepted_def by (rule keeps_gens_send) simp

lemma keeps_cleanup: "keeps_gens p (cleanup_subscription k p)"
proof -
  let ?q = "cleanup_cache k (put_chan k ((chan_of k p)\<lparr>ch_subId := None\<rparr>) p)"
  have "gens ?q = gens p" "pr_requests ?q = pr_requests p"
    by (cases k; simp add: cleanup_cache_def gens_def)+
  then show ?thesis
    by (simp add: cleanup_subscription_def Let_def keeps_gensI keeps_gens_from [OF keeps_dispatchAccepted] split: option.split)
qed

lemma keeps_subscribeCallback: "keeps_gens p (subscribeCallback k p)"
proof -
  have call: "keeps_gens q (case v0 of Some v \<Rightarrow> listener_call lid v q | None \<Rightarrow> (q, []))" for q v0 lid
    by (simp add: keeps_listener_call split: option.split)
  have tail: "keeps_gens q (case ensure_subscription k q of
      (r, None) \<Rightarrow> then_do r (\<lambda>p. (p, [PResolveSub lid]))
    | (r, Some pid) \<Rightarrow> then_do r (\<lambda>p.
        (p\<lparr>pr_listeners := (case om_get (pr_listeners p) lid of
              Some l \<Rightarrow> om_set (pr_listeners p) lid (l\<lparr>li_waiting := Some pid\<rparr>) | None \<Rightarrow> pr_listeners p)\<rparr>, [])))" for q lid
    using keeps_ensure [of q k]
    by (cases "ensure_subscription k q"; cases "snd (ensure_subscription k q)")
      (auto intro!: keeps_gens_then_do keeps_gensI)
  have put: "gens (put_chan k ((chan_of k q)\<lparr>ch_callbacks := x\<rparr>) q) = gens q" for q x
    by (rule gens_put) simp
  show ?thesis unfolding subscribeCallback_def Let_def
    by (rule keeps_gens_then_do [OF keeps_gens_from [OF call] tail]) (simp_all add: put)
qed

lemma keeps_broadcast: "keeps_gens p (handleBroadcast m p)"
proof (cases m)
  case (InPresence subId users)
  have "keeps_gens p (fireUserCallbacks (p\<lparr>pr_cache := c\<rparr>))" "keeps_gens p (p\<lparr>pr_cache := c\<rparr>, [])" for c
    by (rule keeps_gens_from [OF keeps_fires(1)] keeps_gensI; simp)+
  then show ?thesis using InPresence
    by (simp add: handlePresenceBroadcast_def Let_def split: prod.split sum.split)
next
  case (InShared subId data)
  have "keeps_gens p (fireSharedCallbacks (p\<lparr>pr_sharedCache := c\<rparr>))" for c
    by (rule keeps_gens_from [OF keeps_fires(2)]; simp)
  then show ?thesis using InShared by (simp add: handleSharedStateBroadcast_def)
qed simp_all

lemma gens_throttle [simp]:
  "gens (p\<lparr>pr_pendingSetWaiters := a\<rparr>) = gens p" "gens (p\<lparr>pr_pendingSetData := b\<rparr>) = gens p"
  "gens (p\<lparr>pr_throttleTimer := c\<rparr>) = gens p" "gens (p\<lparr>pr_lastSetTime := d\<rparr>) = gens p"
  by (simp_all add: gens_def)

lemma keeps_sendSet: "keeps_gens p (sendSet d ws p)"
  unfolding sendSet_def by (rule keeps_gens_send) simp

lemma keeps_clear: "keeps_gens p (clearThrottle reason p)"
  unfolding clearThrottle_def by (rule keeps_gensI) simp_all

lemma keeps_response:
  assumes ok: "gen_ok p"
  shows "keeps_gens p (presence_response t r p)"
proof (cases "om_get (pr_requests p) t")
  case (Some why)
  let ?q = "p\<lparr>pr_requests := om_delete (pr_requests p) t\<rparr>"
  have sub: "set (pr_requests ?q) \<subseteq> set (pr_requests p)" by (auto simp: om_delete_def)
  have "case gen_of why of Some (k, gen) \<Rightarrow> gen \<le> ch_gen (chan_of k p) | None \<Rightarrow> True"
    using ok om_get_SomeD [OF Some] by (auto simp: gen_ok_def)
  moreover have "ch_gen (chan_of k ?q) = ch_gen (chan_of k p)" for k by (rule gens_chan) simp
  ultimately have "keeps_gens ?q (presence_response t r p)"
    using Some by (cases why; cases r) (simp_all add: presence_response_def Let_def keeps_subscribed keeps_stale_released)
  then show ?thesis by (rule keeps_gens_from) (use sub in simp_all)
qed (simp add: presence_response_def)

lemma gen_ok_step:
  assumes ok: "gen_ok p"
  shows "gen_ok (fst (presence_step ev p))"
proof -
  have inv: "gen_ok (fst (invalidate reason p))" for reason
  proof -
    have "(\<forall>k. ch_gen (chan_of k p) \<le> ch_gen (chan_of k (fst (invalidate reason p))))
        \<and> pr_requests (fst (invalidate reason p)) = pr_requests p"
    proof (intro conjI allI)
      fix k
      show "ch_gen (chan_of k p) \<le> ch_gen (chan_of k (fst (invalidate reason p)))"
        by (cases k) (simp_all add: invalidate_def clearThrottle_def reset_chan_def)
    qed (simp add: invalidate_def clearThrottle_def)
    then show ?thesis using ok by (fastforce simp: gen_ok_def split: option.splits intro: order_trans)
  qed
  have "keeps_gens p (presence_step ev p)" if "ev \<notin> {EvInvalidate, EvDisconnect}"
  proof (cases ev)
    case (EvSet d w now)
    have "keeps_gens p (sendSet x ws (p\<lparr>pr_throttleTimer := None, pr_pendingSetData := None, pr_lastSetTime := now,
        pr_pendingSetWaiters := []\<rparr>))" for x ws
      by (rule keeps_gens_from [OF keeps_sendSet]) simp_all
    then show ?thesis using EvSet by (simp add: presence_set_def Let_def keeps_gensI)
  next
    case (EvThrottle now)
    have "keeps_gens p (sendSet x ws (p\<lparr>pr_throttleTimer := None, pr_lastSetTime := now, pr_pendingSetWaiters := []\<rparr>))" for x ws
      by (rule keeps_gens_from [OF keeps_sendSet]) simp_all
    then show ?thesis using EvThrottle
      by (auto simp: throttle_fire_def Let_def intro!: keeps_gens_then_do keeps_gensI split: option.split)
  next
    case (EvResponse t r)
    then show ?thesis using keeps_response [OF ok] by simp
  next
    case EvRemove
    then show ?thesis by (simp add: presence_remove_def keeps_gens_then_do keeps_clear keeps_dispatchAccepted)
  next
    case (EvUnsubscribe k lid)
    have "keeps_gens p (cleanup_subscription k (close_listener k lid p))"
      by (rule keeps_gens_from [OF keeps_cleanup]) simp_all
    then show ?thesis using EvUnsubscribe by (simp add: presence_unsubscribe_def split: option.split)
  next
    case (EvLocalUser u)
    then show ?thesis by (simp add: setLocalUserId_def keeps_gensI)
  qed (use that in \<open>simp_all add: setShared_def keeps_dispatchAccepted keeps_subscribeCallback
      keeps_listener_flush keeps_broadcast replay_kind_def keeps_ensure\<close>)
  then show ?thesis using inv ok by (cases "ev \<in> {EvInvalidate, EvDisconnect}") (auto simp: keeps_gens_def handleDisconnect_def)
qed

lemma gen_ok_run: "presence_run evs p es \<Longrightarrow> gen_ok p"
proof (induction rule: presence_run.induct)
  case (step evs p es ev p' es')
  then show ?case using gen_ok_step [of p ev] by simp
qed (simp add: gen_ok_def new_presence_def)

definition visible :: "presence \<Rightarrow> user_cache \<times> props option \<times> nat option \<times> nat option" where
  \<comment> \<open>what consumers see and which subscriptions count as established\<close>
  "visible p = (pr_cache p, pr_sharedCache p, ch_subId (pr_user p), ch_subId (pr_shared p))"

fun harmless :: "presence_effect \<Rightarrow> bool" where
  \<comment> \<open>an effect that shows nothing to consumers and subscribes to nothing\<close>
  "harmless (PFire _ _) \<longleftrightarrow> False"
| "harmless (PEmit _) \<longleftrightarrow> False"
| "harmless (PSend _ m) \<longleftrightarrow> (\<exists>k s. m = unsubscribe_message k s)"
| "harmless _ \<longleftrightarrow> True"

lemma visible_frame [simp]:
  "visible (stop_waiting pid p) = visible p" "visible (drop_promise k pid gen p) = visible p"
  "visible (close_listener k lid p) = visible p"
proof -
  show "visible (stop_waiting pid p) = visible p" by (simp add: visible_def stop_waiting_def)
  show "visible (drop_promise k pid gen p) = visible p" by (cases k) (simp_all add: visible_def drop_promise_def Let_def)
  show "visible (close_listener k lid p) = visible p"
    by (cases k) (simp_all add: visible_def close_listener_def Let_def split: option.split)
qed

lemma visible_close_all [simp]: "visible (foldl (\<lambda>p lid. close_listener k lid p) p lids) = visible p"
  by (induction lids arbitrary: p) simp_all

lemma visible_update [simp]: "visible (p\<lparr>pr_requests := m\<rparr>) = visible p" "visible (p\<lparr>pr_next := n\<rparr>) = visible p"
  by (simp_all add: visible_def)

lemma stale_failed:
  assumes "gen \<noteq> ch_gen (chan_of k p)"
  shows "visible (fst (establish_failed k pid gen err p)) = visible p \<and> list_all harmless (snd (establish_failed k pid gen err p))"
  using assms by (simp add: establish_failed_def Let_def list_all_iff)

lemma stale_answer:
  assumes t: "om_get (pr_requests q) t = Some (ForSubscribe k pid gen)" and gen: "gen < ch_gen (chan_of k q)"
  shows "visible (fst (presence_response t r q)) = visible q \<and> list_all harmless (snd (presence_response t r q))"
proof -
  let ?q = "q\<lparr>pr_requests := om_delete (pr_requests q) t\<rparr>"
  have "ch_gen (chan_of k ?q) = ch_gen (chan_of k q)" by (rule gens_chan) simp
  then have g: "gen \<noteq> ch_gen (chan_of k ?q)" using gen by simp
  have s: "visible (fst (send_request (unsubscribe_message k s) why ?q)) = visible q
      \<and> list_all harmless (snd (send_request (unsubscribe_message k s) why ?q))" for s why
    by (auto simp: send_request_def)
  have "visible (fst (subscribed k pid gen r ?q)) = visible q \<and> list_all harmless (snd (subscribed k pid gen r ?q))"
    using stale_failed [OF g, of pid] s g by (simp add: subscribed_def split: sum.split option.split)
  then show ?thesis using t by (simp add: presence_response_def)
qed



end
