(* ===== verification/SubscriptionsSpec.thy ===== *)
theory SubscriptionsSpec
  imports Subscriptions
begin

text \<open>
  What the subscription tracker promises. A view is the table its operations describe
  (\<open>omt\<close>, the keyed table of \<open>Prelude\<close>), a flush gives each subscription everything that
  is pending for it, in order and at once, a field listen delivers changes only, and what
  arrives while disconnected is handled after the reconnect as if it had arrived then.
\<close>

section \<open>Copies and equality\<close>

fun wf_jv :: "jv \<Rightarrow> bool" where
  "wf_jv (JArr xs) = list_all wf_jv xs"
| "wf_jv (JObj ps) = (distinct (map fst ps) \<and> list_all (\<lambda>(k, v). wf_jv v) ps)"
| "wf_jv v = True"

fun nan_free :: "jv \<Rightarrow> bool" where
  "nan_free (JArr xs) = list_all nan_free xs"
| "nan_free (JObj ps) = list_all (\<lambda>(k, v). nan_free v) ps"
| "nan_free (JNum n) = (n \<noteq> NaN)"
| "nan_free v = True"

lemma js_spread_fresh:
  "distinct (map fst (xs @ qs)) \<Longrightarrow>
   length (foldl (\<lambda>c (k, v). js_put c k v) xs qs) = length xs + length qs
   \<and> (\<forall>k. om_get (foldl (\<lambda>c (k, v). js_put c k v) xs (qs :: props)) k =
        (case om_get qs k of Some v \<Rightarrow> Some v | None \<Rightarrow> om_get xs k))"
proof (induction qs rule: rev_induct)
  case (snoc q qs)
  obtain k v where q: "q = (k, v)" by (cases q)
  let ?m = "foldl (\<lambda>c (k, v). js_put c k v) xs qs"
  have k: "k \<notin> fst ` set qs" "k \<notin> fst ` set xs" using snoc.prems q by auto
  have IH: "length ?m = length xs + length qs" "\<And>k. om_get ?m k =
        (case om_get qs k of Some v \<Rightarrow> Some v | None \<Rightarrow> om_get xs k)"
    using snoc by auto
  have "om_get ?m k = None" using IH(2) k by (simp add: om_get_None_iff [THEN iffD2])
  moreover have "length (js_add c k v) = Suc (length c)" for c :: props
    by (induction c k v rule: js_add.induct) auto
  moreover have "om_get (qs @ [(k, v)]) k' = (if k' = k then Some v else om_get qs k')" for k'
    using om_get_set [of qs k v k'] om_set_fresh [OF k(1), of v] by simp
  ultimately show ?case using IH q by (auto simp: js_put_def om_get_js_add)
qed simp

lemma clone_entries:
  assumes "distinct (map fst ps)"
  shows "length (foldl (\<lambda>c (k, v). js_put c k v) [] (map (\<lambda>(k, v). (k, cloneValue v)) ps)) = length ps
    \<and> (\<forall>k. om_get (foldl (\<lambda>c (k, v). js_put c k v) [] (map (\<lambda>(k, v). (k, cloneValue v)) ps)) k
          = map_option cloneValue (om_get ps k))"
proof -
  let ?qs = "map (\<lambda>(k, v). (k, cloneValue v)) ps"
  have d: "distinct (map fst ([] @ ?qs))" using assms by (simp add: comp_def case_prod_beta)
  have "om_get ?qs k = map_option cloneValue (om_get ps k)" for k
    by (induction ps) auto
  then show ?thesis using js_spread_fresh [OF d] by (auto split: option.split)
qed

lemma recordsEqual_iff:
  "recordsEqual ps qs \<longleftrightarrow> (\<forall>(k, v) \<in> set ps. \<exists>w. om_get qs k = Some w \<and> valuesEqual v w)"
  by (induction ps) (auto split: option.splits)

lemma arraysEqual_iff: "length xs = length ys \<Longrightarrow> arraysEqual xs ys \<longleftrightarrow> list_all2 valuesEqual xs ys"
  by (induction xs ys rule: list_induct2) auto

text \<open>Comparing with a copy is comparing with the value it was made of.\<close>

lemma valuesEqual_clone: "wf_jv w \<Longrightarrow> valuesEqual v (cloneValue w) = valuesEqual v w"
proof (induction w arbitrary: v)
  case (JArr ws)
  have "list_all2 valuesEqual xs (map cloneValue ws) = list_all2 valuesEqual xs ws" for xs
    using JArr unfolding list_all2_map2
    by (auto simp: list_all2_conv_all_nth list_all_length)
  then show ?case by (cases v) (auto simp: arraysEqual_iff)
next
  case (JObj ps)
  have c: "distinct (map fst ps)" using JObj.prems by simp
  have IH: "valuesEqual u (cloneValue w) = valuesEqual u w" if "om_get ps k = Some w" for u k w
    using that JObj by (auto simp: list_all_iff dest!: om_get_SomeD)
  show ?case
    using clone_entries [OF c] IH by (cases v) (auto simp: recordsEqual_iff split: prod.splits, (blast | fastforce)+)
qed auto

lemma valuesEqual_refl: "wf_jv v \<Longrightarrow> valuesEqual v v \<longleftrightarrow> nan_free v"
proof (induction v)
  case (JArr xs)
  then show ?case by (auto simp: arraysEqual_iff list_all2_conv_all_nth list_all_length)
next
  case (JObj ps)
  have "om_get ps k = Some v" if "(k, v) \<in> set ps" for k v
    using that JObj.prems by (simp add: om_get_in_set om_wf_def)
  then show ?case using JObj by (fastforce simp: recordsEqual_iff list_all_iff)
qed (auto simp: num_eq_def)

section \<open>Views are tables\<close>

fun op_entry :: "delta_op \<Rightarrow> jv option \<times> jv option" where
  "op_entry (OpSet path v) = (nth_opt path 1, Some v)"
| "op_entry (OpRemove path) = (nth_opt path 1, None)"

lemma apply_view_op_fst:
  "fst (apply_view_op m op) = (case op_entry op of (k, Some v) \<Rightarrow> om_set m k v | (k, None) \<Rightarrow> om_delete m k)"
  by (cases op) (simp_all add: apply_view_op_def Let_def)

definition fold_flag :: "('m \<Rightarrow> 'x \<Rightarrow> 'm \<times> bool) \<Rightarrow> 'm \<times> bool \<Rightarrow> 'x list \<Rightarrow> 'm \<times> bool" where
  \<comment> \<open>the loops \<open>changed = step(x) || changed\<close>\<close>
  "fold_flag f = foldl (\<lambda>(m, c) x. case f m x of (r, c') \<Rightarrow> (r, c' \<or> c))"

lemma fold_flag_simps [simp]:
  "fold_flag f s [] = s"
  "fold_flag f (m, c) (x # xs) = fold_flag f (fst (f m x), snd (f m x) \<or> c) xs"
  by (simp_all add: fold_flag_def case_prod_beta)

lemma fold_flag_append [simp]: "fold_flag f s (xs @ ys) = fold_flag f (fold_flag f s xs) ys"
  by (simp add: fold_flag_def)

lemma fst_fold_flag: "fst (fold_flag f (m, c) xs) = foldl (\<lambda>m x. fst (f m x)) m xs"
  by (induction xs arbitrary: m c) simp_all

lemma snd_fold_flag: "snd (fold_flag f (m, c) xs) \<longleftrightarrow> c \<or> snd (fold_flag f (m, False) xs)"
proof (induction xs arbitrary: m c)
  case (Cons x xs)
  show ?case
    using Cons.IH [of "fst (f m x)" "snd (f m x) \<or> c"] Cons.IH [of "fst (f m x)" "snd (f m x)"] by auto
qed simp

lemma applyOps_flag:
  "applyOpsToView view ops =
     (view\<lparr>vw_records := fst (fold_flag apply_view_op (vw_records view, False) ops)\<rparr>,
      snd (fold_flag apply_view_op (vw_records view, False) ops))"
  by (simp add: applyOpsToView_def fold_flag_def case_prod_beta)

lemma vw_records_applyOps:
  "fst (applyOpsToView view ops) = view\<lparr>vw_records := omt.apply_ops (vw_records view) (map op_entry ops)\<rparr>"
proof -
  have "foldl (\<lambda>m op. fst (apply_view_op m op)) m ops = omt.apply_ops m (map op_entry ops)" for m
    by (induction ops arbitrary: m)
      (simp_all add: omt.apply_ops_def apply_view_op_fst case_prod_beta split: option.split)
  then show ?thesis by (simp add: applyOps_flag fst_fold_flag)
qed

lemma applyOps_append:
  "applyOpsToView view (xs @ ys) =
     (case applyOpsToView view xs of (v, c) \<Rightarrow> case applyOpsToView v ys of (v', c') \<Rightarrow> (v', c' \<or> c))"
proof -
  obtain m c where mc: "fold_flag apply_view_op (vw_records view, False) xs = (m, c)" by fastforce
  show ?thesis
    using snd_fold_flag [of apply_view_op m c ys]
    by (auto simp: applyOps_flag mc fst_fold_flag)
qed

definition ops_of :: "store_delta list \<Rightarrow> delta_op list" where
  "ops_of deltas = concat (map sd_ops deltas)"

lemma apply_deltas:
  "foldl (\<lambda>(view, changed) delta. case applyOpsToView view (sd_ops delta) of (v, c) \<Rightarrow> (v, c \<or> changed))
     (view, False) deltas = applyOpsToView view (ops_of deltas)"
proof (induction deltas rule: rev_induct)
  case Nil
  show ?case by (simp add: ops_of_def applyOps_flag)
next
  case (snoc d ds)
  then show ?case by (simp add: ops_of_def applyOps_append split: prod.split)
qed

lemma applyToSubscription_alt:
  "applyToSubscription entry deltas =
     (case en_view entry of
        None \<Rightarrow> (entry, [])
      | Some view \<Rightarrow>
          (case applyOpsToView view (ops_of deltas) of (view', changed) \<Rightarrow>
             if \<not> changed then (entry\<lparr>en_view := Some view'\<rparr>, [])
             else let v = JArr (snapshotView view') in
               (entry\<lparr>en_view := Some view', en_lastValue := Some v, en_deliveredValue := Some v\<rparr>,
                deliver_all entry v)))"
  by (simp add: applyToSubscription_def apply_deltas deliver_all_def split: option.split prod.split)

text \<open>Setting a record always counts as a change; nothing changed means nothing was set or found.\<close>

lemma unchanged_view: "\<not> snd (applyOpsToView view ops) \<Longrightarrow> fst (applyOpsToView view ops) = view"
proof -
  have "snd (fold_flag apply_view_op (m, False) ops) \<or> fst (fold_flag apply_view_op (m, False) ops) = m" for m
  proof (induction ops arbitrary: m)
    case (Cons op ops)
    have "snd (apply_view_op m op) \<or> fst (apply_view_op m op) = m"
      using om_delete_absent [of m "nth_opt (op_path op) 1"]
      by (cases op; cases "om_get m (nth_opt (op_path op) 1)") (simp_all add: apply_view_op_def Let_def)
    then show ?case
      using Cons.IH [of "fst (apply_view_op m op)"] snd_fold_flag [of apply_view_op "fst (apply_view_op m op)"
          "snd (apply_view_op m op)" ops] by (cases "snd (apply_view_op m op)") auto
  qed simp
  from this [of "vw_records view"]
  show "\<not> snd (applyOpsToView view ops) \<Longrightarrow> fst (applyOpsToView view ops) = view"
    by (simp add: applyOps_flag)
qed

section \<open>Grouping and flushing\<close>

lemma group_by_sub_get:
  "om_get (group_by_sub ds) s =
     (if filter (\<lambda>d. sd_subId d = s) ds = [] then None else Some (filter (\<lambda>d. sd_subId d = s) ds))"
proof (induction ds rule: rev_induct)
  case Nil
  show ?case by (simp add: group_by_sub_def)
next
  case (snoc d ds)
  have "group_by_sub (ds @ [d]) = om_set (group_by_sub ds) (sd_subId d)
    (case om_get (group_by_sub ds) (sd_subId d) of Some l \<Rightarrow> l @ [d] | None \<Rightarrow> [d])"
    by (simp add: group_by_sub_def split: option.split)
  then show ?case using snoc by (auto split: option.split if_splits)
qed

lemma group_by_sub_wf: "om_wf (group_by_sub ds)"
  unfolding group_by_sub_def by (rule foldl_invariant) (auto split: option.split)

lemma get_entry_register [simp]:
  "get_entry (register_entry s e t) s' = (if s' = s then Some e else get_entry t s')"
  by (simp add: get_entry_def register_entry_def)

lemma get_entry_other_fields [simp]:
  "get_entry (t\<lparr>tr_pendingDeltas := p\<rparr>) s = get_entry t s"
  "get_entry (t\<lparr>tr_flushScheduled := f\<rparr>) s = get_entry t s"
  "get_entry (t\<lparr>tr_deltaQueue := q\<rparr>) s = get_entry t s"
  "get_entry (t\<lparr>tr_connected := c\<rparr>) s = get_entry t s"
  by (simp_all add: get_entry_def)

lemma flush_groups_Cons:
  "flush_groups ((s, ds) # groups) t =
     (case get_entry t s of
        None \<Rightarrow> flush_groups groups t
      | Some e \<Rightarrow>
          let t' = register_entry s (fst (applyToSubscription e ds)) t
          in (fst (flush_groups groups t'), snd (applyToSubscription e ds) @ snd (flush_groups groups t')))"
  by (simp add: case_prod_beta Let_def split: option.split)

declare flush_groups.simps(2) [simp del]

lemma flush_groups_get:
  "om_wf groups \<Longrightarrow> get_entry (fst (flush_groups groups t)) s =
     (case om_get groups s of
        None \<Rightarrow> get_entry t s
      | Some ds \<Rightarrow> map_option (\<lambda>e. fst (applyToSubscription e ds)) (get_entry t s))"
proof (induction groups arbitrary: t)
  case (Cons g groups)
  obtain k ds where g: "g = (k, ds)" by (cases g)
  then have "om_get groups k = None" using Cons.prems by (simp add: om_get_None_iff)
  then show ?case using Cons g
    by (cases "get_entry t k") (auto simp: flush_groups_Cons Let_def split: option.split)
qed simp

definition sub_effects :: "tracker \<Rightarrow> nat \<times> store_delta list \<Rightarrow> effect list" where
  "sub_effects t g = (case get_entry t (fst g) of None \<Rightarrow> [] | Some e \<Rightarrow> snd (applyToSubscription e (snd g)))"

lemma flush_groups_effects:
  "om_wf groups \<Longrightarrow> snd (flush_groups groups t) = concat (map (sub_effects t) groups)"
proof (induction groups arbitrary: t)
  case (Cons g groups)
  obtain k ds where g: "g = (k, ds)" by (cases g)
  have "sub_effects (register_entry k e t) x = sub_effects t x" if "x \<in> set groups" for e x
  proof -
    have "fst x \<noteq> k" using that Cons.prems g by (auto simp: image_iff)
    then show ?thesis by (simp add: sub_effects_def)
  qed
  then have "concat (map (sub_effects (register_entry k e t)) groups) = concat (map (sub_effects t) groups)" for e
    by (intro arg_cong [where f = concat] map_cong refl)
  moreover have "sub_effects t (k, ds) =
      (case get_entry t k of None \<Rightarrow> [] | Some e \<Rightarrow> snd (applyToSubscription e ds))"
    by (simp add: sub_effects_def split: option.split)
  ultimately show ?case using Cons g
    by (cases "get_entry t k") (simp_all add: flush_groups_Cons Let_def)
qed simp

lemma flush_tick_get:
  "get_entry (fst (flush_tick t)) s =
     (let ds = filter (\<lambda>d. sd_subId d = s) (tr_pendingDeltas t) in
      if ds = [] then get_entry t s else map_option (\<lambda>e. fst (applyToSubscription e ds)) (get_entry t s))"
  by (cases "tr_pendingDeltas t")
    (simp_all add: flush_tick_def flushPending_def Let_def flush_groups_get group_by_sub_wf group_by_sub_get)

lemma flush_tick_effects:
  "snd (flush_tick t) = concat (map (sub_effects t) (group_by_sub (tr_pendingDeltas t)))"
  by (cases "tr_pendingDeltas t")
    (simp_all add: flush_tick_def flushPending_def Let_def flush_groups_effects group_by_sub_wf
      group_by_sub_def [of "[]"] sub_effects_def [abs_def])

section \<open>Properties of a flush\<close>


definition demo_view :: view where
  "demo_view = \<lparr>vw_records = [(Some (JStr ''a''), demo_row ''a'' (JNum (Fin 1)))],
     vw_comparator = compareRecords (map fst demo_cols)\<rparr>"

definition demo_entry :: sub_entry where
  "demo_entry = \<lparr>en_params = StoreSubscribe ''users'' no_query, en_callbacks = [5], en_projection = None,
     en_view = Some demo_view, en_onRemap = None, en_lastValue = None, en_deliveredValue = None\<rparr>"

definition demo_delta :: store_delta where
  "demo_delta = \<lparr>sd_subId = 3, sd_ops = [OpSet [JStr ''users'', JStr ''b''] (demo_row ''b'' (JNum (Fin 2)))]\<rparr>"

definition demo_tracker :: tracker where
  "demo_tracker = fst (dispatch demo_delta (register_entry 3 demo_entry new_tracker))"

lemma demo_tracker_facts:
  "get_entry demo_tracker 3 = Some demo_entry" "tr_pendingDeltas demo_tracker = [demo_delta]"
  "en_view demo_entry = Some demo_view" "tr_connected demo_tracker"
  "tr_subscriptions demo_tracker = [(3, demo_entry)]" "tr_flushScheduled demo_tracker"
  by (simp_all add: demo_tracker_def dispatch_def demo_delta_def new_tracker_def scheduleFlush_def demo_entry_def
      register_entry_def get_entry_def)


text \<open>C0: A flush calls no consumer callback twice, however many deltas are pending: when no
  callback is registered in two places, the callbacks called are distinct.\<close>

fun receiver :: "effect \<Rightarrow> nat option" where
  "receiver (Deliver cb _) = Some cb"
| "receiver _ = None"

lemma receivers_sub_effects:
  "map receiver (sub_effects t g) = [] \<or>
   (\<exists>e. get_entry t (fst g) = Some e \<and> map receiver (sub_effects t g) = map Some (en_callbacks e))"
  by (auto simp: sub_effects_def applyToSubscription_alt deliver_all_def Let_def split: option.split prod.split)

lemma distinct_concat_disjoint:
  assumes "distinct (map k xs)"
    and "\<And>x. x \<in> set xs \<Longrightarrow> distinct (f x)"
    and "\<And>x y. x \<in> set xs \<Longrightarrow> y \<in> set xs \<Longrightarrow> k x \<noteq> k y \<Longrightarrow> set (f x) \<inter> set (f y) = {}"
  shows "distinct (concat (map f xs))"
  using assms
proof (induction xs)
  case (Cons x xs)
  have "set (f x) \<inter> set (concat (map f xs)) = {}"
  proof -
    have "set (f x) \<inter> set (f y) = {}" if "y \<in> set xs" for y
      using Cons.prems(1) Cons.prems(3) [of x y] that by (auto simp: image_iff)
    then show ?thesis by auto
  qed
  then show ?case using Cons by auto
qed simp

lemma callbacks_of_subs:
  assumes "distinct (concat (map (\<lambda>(_, e). en_callbacks e) m))"
  shows "(k, e) \<in> set m \<Longrightarrow> distinct (en_callbacks e)"
    and "(k, e) \<in> set m \<Longrightarrow> (k', e') \<in> set m \<Longrightarrow> k \<noteq> k' \<Longrightarrow> set (en_callbacks e) \<inter> set (en_callbacks e') = {}"
  using assms by (induction m) fastforce+

theorem flush_calls_once:
  assumes "distinct (concat (map (\<lambda>(_, e). en_callbacks e) (tr_subscriptions t)))"
  shows "distinct (map receiver (snd (flush_tick t)))"
proof -
  let ?g = "group_by_sub (tr_pendingDeltas t)"
  note cbs = callbacks_of_subs [OF assms]
  have "distinct (concat (map (\<lambda>g. map receiver (sub_effects t g)) ?g))"
  proof (rule distinct_concat_disjoint [where k = fst])
    show "distinct (map fst ?g)" using group_by_sub_wf by (simp add: om_wf_def)
    show "distinct (map receiver (sub_effects t x))" for x
    proof (cases "map receiver (sub_effects t x) = []")
      case False
      then obtain e where e: "get_entry t (fst x) = Some e"
        "map receiver (sub_effects t x) = map Some (en_callbacks e)"
        using receivers_sub_effects by blast
      have "distinct (en_callbacks e)" using e(1) cbs(1) by (auto simp: get_entry_def dest: om_get_SomeD)
      then show ?thesis unfolding e(2) by (simp add: distinct_map)
    qed simp
    show "set (map receiver (sub_effects t x)) \<inter> set (map receiver (sub_effects t y)) = {}"
      if "fst x \<noteq> fst y" for x y
      using receivers_sub_effects [of t x] receivers_sub_effects [of t y] cbs(2) [of "fst x" _ "fst y"] that
      unfolding get_entry_def by (fastforce dest!: om_get_SomeD)
  qed
  then show ?thesis by (simp add: flush_tick_effects map_concat comp_def)
qed

theorem flush_calls_once_witness: "distinct (map receiver (snd (flush_tick demo_tracker)))"
  by (rule flush_calls_once) (simp add: demo_tracker_facts demo_entry_def)

section \<open>Field listens deliver changes\<close>

fun deliver_changes :: "jv option \<Rightarrow> jv list \<Rightarrow> jv list" where
  \<comment> \<open>what a consumer sees of a sequence of projected values: those that differ from the last seen\<close>
  "deliver_changes prev [] = []"
| "deliver_changes prev (v # vs) =
     (if (case prev of None \<Rightarrow> False | Some p \<Rightarrow> valuesEqual v p) then deliver_changes prev vs
      else v # deliver_changes (Some v) vs)"

lemma deliver_changes_clone:
  "wf_jv p \<Longrightarrow> deliver_changes (Some (cloneValue p)) vs = deliver_changes (Some p) vs"
  by (induction vs) (simp_all add: valuesEqual_clone)

lemma register_same: "get_entry t s = Some e \<Longrightarrow> om_wf (tr_subscriptions t) \<Longrightarrow> register_entry s e t = t"
proof -
  have "om_get m s = Some e \<Longrightarrow> om_set m s e = m" for m
    by (induction m) auto
  then show "get_entry t s = Some e \<Longrightarrow> register_entry s e t = t" by (simp add: get_entry_def register_entry_def)
qed

lemma register_fields [simp]:
  "tr_connected (register_entry s e t) = tr_connected t" "tr_deltaQueue (register_entry s e t) = tr_deltaQueue t"
  "tr_pendingDeltas (register_entry s e t) = tr_pendingDeltas t"
  "tr_flushScheduled (register_entry s e t) = tr_flushScheduled t"
  by (simp_all add: register_entry_def)

lemma dispatch_field_listen:
  assumes "tr_connected t" "get_entry t s = Some e" "en_view e = None" "en_projection e = Some (Some field)"
    and "sd_subId d = s"
  shows "dispatch d t =
    (let v = project (sd_ops d) (Some (Some field)) in
     if (case en_lastValue e of None \<Rightarrow> False | Some p \<Rightarrow> valuesEqual v p) then (register_entry s e t, [])
     else (register_entry s (e\<lparr>en_lastValue := Some (cloneValue v), en_deliveredValue := Some v\<rparr>) t, deliver_all e v))"
  using assms by (simp add: dispatch_def dispatchDelta_def field_projection_def Let_def deliver_all_def)

lemma field_listen_run:
  assumes "tr_connected t" "get_entry t s = Some e" "en_view e = None" "en_projection e = Some (Some field)"
    and "\<forall>d \<in> set ds. sd_subId d = s \<and> wf_jv (project (sd_ops d) (Some (Some field)))"
  shows "snd (dispatch_all ds t) = concat (map (deliver_all e)
    (deliver_changes (en_lastValue e) (map (\<lambda>d. project (sd_ops d) (Some (Some field))) ds)))"
  using assms
proof (induction ds arbitrary: t e)
  case (Cons d ds)
  let ?v = "project (sd_ops d) (Some (Some field))"
  let ?e = "e\<lparr>en_lastValue := Some (cloneValue ?v), en_deliveredValue := Some ?v\<rparr>"
  have d: "sd_subId d = s" "wf_jv ?v" using Cons.prems(5) by auto
  note step = dispatch_field_listen [OF Cons.prems(1-4) d(1)]
  have same: "deliver_all ?e = deliver_all e" by (simp add: fun_eq_iff deliver_all_def)
  show ?case
  proof (cases "case en_lastValue e of None \<Rightarrow> False | Some p \<Rightarrow> valuesEqual ?v p")
    case True
    then show ?thesis
      using Cons.IH [of "register_entry s e t" e] Cons.prems step by (simp add: case_prod_beta Let_def)
  next
    case False
    then show ?thesis
      using Cons.IH [of "register_entry s ?e t" ?e] Cons.prems step d(2) same
      by (simp add: case_prod_beta deliver_changes_clone Let_def)
  qed
qed simp


definition demo_listen :: sub_entry where
  "demo_listen = demo_entry\<lparr>en_projection := Some (Some ''name''), en_view := None\<rparr>"

definition set_doc :: "string \<Rightarrow> string \<Rightarrow> store_delta" where
  "set_doc name mood = \<lparr>sd_subId = 3, sd_ops = [OpSet [JStr ''users'', JStr ''u1'']
     (JObj [(''name'', JStr name), (''mood'', JStr mood)])]\<rparr>"


end
