(* ===== verification/SubscriptionRuns.thy ===== *)
theory SubscriptionRuns
  imports SubscriptionsSpec
begin

text \<open>
  Runs of the subscription tracker: its step relation with the invariant of the reachable
  states, the reconnect, the initial snapshot, and the independence of a view's order from
  the order of arrival. \<open>repopulate\<close> is what the client passes to \<open>reconnect\<close>
  (\<open>client.ts\<close>): the replayed snapshots, for the subscriptions that are still there.
\<close>

section \<open>The step relation\<close>

type_synonym replay_snapshots = "(nat \<times> string \<times> jv list) list"

definition repopulateSubscription :: "nat \<Rightarrow> string \<Rightarrow> jv list \<Rightarrow> tracker \<Rightarrow> tracker \<times> effect list" where
  "repopulateSubscription newSubId collection value t =
     (case get_entry t newSubId of
        None \<Rightarrow> (t, [])
      | Some _ \<Rightarrow> dispatchInitialSnapshot newSubId [collection] (JArr value) t)"

fun repopulate :: "replay_snapshots \<Rightarrow> tracker \<Rightarrow> tracker \<times> effect list" where
  "repopulate [] t = (t, [])"
| "repopulate ((newSubId, collection, value) # rest) t =
     (case repopulateSubscription newSubId collection value t of (t1, e1) \<Rightarrow>
      case repopulate rest t1 of (t2, e2) \<Rightarrow> (t2, e1 @ e2))"

definition fresh_entry :: "sub_entry \<Rightarrow> bool" where
  \<comment> \<open>as \<open>entryFor\<close> makes it\<close>
  "fresh_entry e \<longleftrightarrow> (case en_view e of None \<Rightarrow> True | Some view \<Rightarrow> vw_records view = [] \<and> en_projection e = None)
     \<and> en_lastValue e = None \<and> en_deliveredValue e = None"

inductive tracker_step :: "tracker \<Rightarrow> effect list \<Rightarrow> tracker \<Rightarrow> bool" where
  Debug: "tracker_step t [] (setDebug b t)"
| Register: "fresh_entry e \<Longrightarrow> tracker_step t [] (register_entry s e t)"
| Unregister: "tracker_step t [] (unregister_entry s t)"
| Disconnect: "tracker_step t [] (setDisconnected t)"
| Delta: "dispatch d t = (t', es) \<Longrightarrow> tracker_step t es t'"
| Snapshot: "dispatchInitialSnapshot s segments v t = (t', es) \<Longrightarrow> tracker_step t es t'"
| Tick: "tr_flushScheduled t \<Longrightarrow> flush_tick t = (t', es) \<Longrightarrow> tracker_step t es t'"
| Reconnect: "reconnect m (repopulate snaps) t = (t', es) \<Longrightarrow> tracker_step t es t'"

inductive tracker_reachable :: "tracker \<Rightarrow> bool" where
  Init: "tracker_reachable new_tracker"
| Step: "tracker_reachable t \<Longrightarrow> tracker_step t es t' \<Longrightarrow> tracker_reachable t'"

inductive_cases tracker_stepE: "tracker_step t es t'"

section \<open>The invariant\<close>

definition entry_ok :: "sub_entry \<Rightarrow> bool" where
  \<comment> \<open>a view is a table, has no projection, and delivers arrays\<close>
  "entry_ok e \<longleftrightarrow> (case en_view e of
      None \<Rightarrow> True
    | Some view \<Rightarrow> om_wf (vw_records view) \<and> en_projection e = None
        \<and> (case en_deliveredValue e of None \<Rightarrow> True
           | Some v \<Rightarrow> (\<exists>rows. v = JArr (js_sort (vw_comparator view) rows))))"

definition tracker_inv :: "tracker \<Rightarrow> bool" where
  "tracker_inv t \<longleftrightarrow>
     om_wf (tr_subscriptions t) \<and> (\<forall>(s, e) \<in> set (tr_subscriptions t). entry_ok e)
     \<and> (tr_pendingDeltas t \<noteq> [] \<longrightarrow> tr_flushScheduled t)
     \<and> (tr_connected t \<longrightarrow> tr_deltaQueue t = [])"

lemma om_set_ball: "\<forall>(k, e) \<in> set m. P e \<Longrightarrow> P e' \<Longrightarrow> \<forall>(k, e) \<in> set (om_set m k' e'). P e"
proof (induction m)
  case (Cons p m)
  then show ?case by (cases p) (auto split: if_splits)
qed simp

lemma om_delete_ball: "\<forall>(k, e) \<in> set m. P e \<Longrightarrow> \<forall>(k, e) \<in> set (om_delete m k'). P e"
  by (auto simp: om_delete_def)

lemma tracker_inv_register [inv_intros]: "tracker_inv t \<Longrightarrow> entry_ok e \<Longrightarrow> tracker_inv (register_entry s e t)"
  using om_set_ball [of "tr_subscriptions t" entry_ok e s] by (simp add: tracker_inv_def register_entry_def)

lemma tracker_inv_entry: "tracker_inv t \<Longrightarrow> get_entry t s = Some e \<Longrightarrow> entry_ok e"
  by (auto simp: tracker_inv_def get_entry_def dest!: om_get_SomeD)

lemma applyOps_view_wf:
  "om_wf (vw_records view) \<Longrightarrow> applyOpsToView view ops = (view', c) \<Longrightarrow>
   om_wf (vw_records view') \<and> vw_comparator view' = vw_comparator view"
  using vw_records_applyOps [of view ops] omt.inv_apply_ops [of "vw_records view" "map op_entry ops"] by simp

lemma entry_ok_apply: "entry_ok e \<Longrightarrow> entry_ok (fst (applyToSubscription e ds))"
  using applyOps_view_wf [of "the (en_view e)" "ops_of ds"]
  by (auto simp: entry_ok_def applyToSubscription_alt Let_def snapshotView_def split: option.splits prod.splits)

lemma entry_ok_dispatchDelta:
  assumes "entry_ok e" "get_entry t (sd_subId d) = Some e" "tracker_inv t"
  shows "tracker_inv (fst (dispatchDelta d t))"
proof (cases "en_view e")
  case None
  then show ?thesis using assms
    by (auto simp: dispatchDelta_def Let_def entry_ok_def intro!: tracker_inv_register split: if_splits)
next
  case (Some view)
  then have v: "om_wf (vw_records view)" "en_projection e = None" using assms(1) by (simp_all add: entry_ok_def)
  obtain view' c where a: "applyOpsToView view (sd_ops d) = (view', c)" by fastforce
  have "om_wf (vw_records view')" "vw_comparator view' = vw_comparator view"
    using applyOps_view_wf [OF v(1) a] by simp_all
  then show ?thesis using assms Some a v(2)
    by (auto simp: dispatchDelta_def Let_def field_projection_def entry_ok_def snapshotView_def
        intro!: tracker_inv_register split: if_splits)
qed

lemma tracker_inv_dispatch [inv_intros]: "tracker_inv t \<Longrightarrow> tracker_inv (fst (dispatch d t))"
proof -
  assume t: "tracker_inv t"
  have "tracker_inv (fst (dispatchDelta d t))"
    using t tracker_inv_entry [OF t] entry_ok_dispatchDelta [of _ t d]
    by (cases "get_entry t (sd_subId d)") (simp_all add: dispatchDelta_def)
  then show "tracker_inv (fst (dispatch d t))"
    using t by (auto simp: dispatch_def scheduleFlush_def tracker_inv_def split: option.splits)
qed

lemma tracker_inv_dispatch_all [inv_intros]: "tracker_inv t \<Longrightarrow> tracker_inv (fst (dispatch_all ds t))"
  using tracker_inv_dispatch by (induction ds arbitrary: t) (auto simp: case_prod_beta)

lemma tracker_inv_snapshot [inv_intros]: "tracker_inv t \<Longrightarrow> tracker_inv (fst (dispatchInitialSnapshot s segs v t))"
  by (simp add: dispatchInitialSnapshot_def Let_def tracker_inv_dispatch)

lemma tracker_inv_repopulate [inv_intros]: "tracker_inv t \<Longrightarrow> tracker_inv (fst (repopulate snaps t))"
proof (induction snaps arbitrary: t)
  case (Cons p snaps)
  obtain s c v where p: "p = (s, c, v)" by (cases p)
  have "tracker_inv (fst (repopulateSubscription s c v t))"
    using Cons.prems by (auto simp: repopulateSubscription_def intro!: tracker_inv_snapshot split: option.split)
  then show ?case using Cons.IH by (simp add: p case_prod_beta)
qed simp

lemma flush_groups_inv:
  "tracker_inv t \<Longrightarrow> tracker_inv (fst (flush_groups groups t))"
proof (induction groups arbitrary: t)
  case (Cons g groups)
  obtain s ds where g: "g = (s, ds)" by (cases g)
  show ?case using Cons tracker_inv_entry [OF Cons.prems]
    by (auto simp: g flush_groups_Cons Let_def intro!: Cons.IH tracker_inv_register entry_ok_apply split: option.split)
qed simp

lemma tracker_inv_tick [inv_intros]: "tracker_inv t \<Longrightarrow> tracker_inv (fst (flush_tick t))"
  by (auto simp: flush_tick_def flushPending_def Let_def tracker_inv_def intro!: flush_groups_inv [unfolded tracker_inv_def])

lemma remap_loop_ok:
  "om_wf r \<Longrightarrow> \<forall>(k, e) \<in> set r. P e \<Longrightarrow> \<forall>(k, e) \<in> set subs. P e \<Longrightarrow>
   om_wf (fst (remap_loop m subs r)) \<and> (\<forall>(k, e) \<in> set (fst (remap_loop m subs r)). P e)"
proof (induction m subs r rule: remap_loop.induct)
  case (2 m old e subs r)
  then show ?case using om_set_ball [of r P e] by (auto simp: case_prod_beta split: option.split)
qed simp

lemma entry_ok_clear: "entry_ok e \<Longrightarrow> entry_ok (clear_view e)"
  by (auto simp: entry_ok_def clear_view_def split: option.splits)

lemma om_wf_map_values: "om_wf m \<Longrightarrow> om_wf (map (\<lambda>(k, v). (k, f v)) m)"
  by (simp add: om_wf_def comp_def case_prod_beta)

text \<open>While connected the queue is neither read nor written.\<close>

definition with_queue :: "store_delta list \<Rightarrow> tracker \<times> 'e \<Rightarrow> tracker \<times> 'e" where
  "with_queue q r = ((fst r)\<lparr>tr_deltaQueue := q\<rparr>, snd r)"

lemma register_queue: "register_entry s e (t\<lparr>tr_deltaQueue := q\<rparr>) = (register_entry s e t)\<lparr>tr_deltaQueue := q\<rparr>"
  by (simp add: register_entry_def)

lemma dispatchDelta_frame:
  "tr_connected (fst (dispatchDelta d t)) = tr_connected t"
  "tr_deltaQueue (fst (dispatchDelta d t)) = tr_deltaQueue t"
  "dispatchDelta d (t\<lparr>tr_deltaQueue := q\<rparr>) = with_queue q (dispatchDelta d t)"
  by (simp_all add: dispatchDelta_def Let_def with_queue_def register_queue split: option.split prod.split)

lemma dispatch_frame:
  assumes "tr_connected t"
  shows "tr_connected (fst (dispatch d t))" "tr_deltaQueue (fst (dispatch d t)) = tr_deltaQueue t"
    "dispatch d (t\<lparr>tr_deltaQueue := q\<rparr>) = with_queue q (dispatch d t)"
  using assms by (simp_all add: dispatch_def dispatchDelta_frame scheduleFlush_def split: option.split)
    (simp add: with_queue_def)

lemma repopulateSubscription_frame:
  assumes "tr_connected t"
  shows "tr_connected (fst (repopulateSubscription s c v t))"
    "tr_deltaQueue (fst (repopulateSubscription s c v t)) = tr_deltaQueue t"
    "repopulateSubscription s c v (t\<lparr>tr_deltaQueue := q\<rparr>) = with_queue q (repopulateSubscription s c v t)"
  using assms by (simp_all add: repopulateSubscription_def dispatchInitialSnapshot_def Let_def dispatch_frame split: option.split)
    (simp add: with_queue_def)

lemma repopulate_frame:
  "tr_connected t \<Longrightarrow> tr_connected (fst (repopulate snaps t))
    \<and> tr_deltaQueue (fst (repopulate snaps t)) = tr_deltaQueue t
    \<and> repopulate snaps (t\<lparr>tr_deltaQueue := q\<rparr>) = with_queue q (repopulate snaps t)"
proof (induction snaps arbitrary: t)
  case (Cons p snaps)
  obtain s c v where p: "p = (s, c, v)" by (cases p)
  have "tr_connected (fst (repopulateSubscription s c v t))" using repopulateSubscription_frame(1) Cons.prems .
  then show ?case
    using Cons.IH [of "fst (repopulateSubscription s c v t)"] repopulateSubscription_frame [OF Cons.prems, of s c v]
    by (simp add: p case_prod_beta with_queue_def)
qed (simp add: with_queue_def)

definition remapped :: "(nat, nat) omap \<Rightarrow> tracker \<Rightarrow> tracker" where
  \<comment> \<open>the tracker as \<open>reconnect\<close> leaves it before the snapshots, with an empty queue\<close>
  "remapped m t = (clearMaterializedViews (t\<lparr>tr_subscriptions := fst (remap_loop m (tr_subscriptions t) []),
     tr_pendingDeltas := []\<rparr>))\<lparr>tr_connected := True, tr_deltaQueue := []\<rparr>"

lemma reconnect_alt:
  "reconnect m (repopulate snaps) t =
     (let r = repopulate snaps (remapped m t); r' = dispatch_all (tr_deltaQueue t) (fst r)
      in (fst r', snd (remap_loop m (tr_subscriptions t) []) @ snd r @ snd r'))"
proof -
  let ?u = "(clearMaterializedViews (t\<lparr>tr_subscriptions := fst (remap_loop m (tr_subscriptions t) []),
     tr_pendingDeltas := []\<rparr>))\<lparr>tr_connected := True\<rparr>"
  have "tr_deltaQueue ?u = tr_deltaQueue t" by (simp add: clearMaterializedViews_def)
  moreover have "remapped m t = ?u\<lparr>tr_deltaQueue := []\<rparr>" by (simp add: remapped_def)
  moreover have c: "tr_connected ?u" by simp
  ultimately show ?thesis
    using repopulate_frame [OF c, of snaps "[]"]
    by (simp add: reconnect_def Let_def case_prod_beta with_queue_def)
qed

lemma tracker_inv_reconnect [inv_intros]:
  assumes "tracker_inv t"
  shows "tracker_inv (fst (reconnect m (repopulate snaps) t))"
proof -
  let ?r = "fst (remap_loop m (tr_subscriptions t) [])"
  have r: "om_wf ?r" "\<forall>(k, e) \<in> set ?r. entry_ok e"
    using remap_loop_ok [of "[]" entry_ok "tr_subscriptions t" m] assms by (simp_all add: tracker_inv_def)
  have "tracker_inv (remapped m t)"
    using r by (auto simp: remapped_def tracker_inv_def clearMaterializedViews_def om_wf_map_values intro!: entry_ok_clear)
  then show ?thesis
    by (simp add: reconnect_alt Let_def tracker_inv_dispatch_all tracker_inv_repopulate)
qed

lemma tracker_step_inv: "tracker_step t es t' \<Longrightarrow> tracker_inv t \<Longrightarrow> tracker_inv t'"
proof (induction rule: tracker_step.induct)
  case (Register e t s)
  have "entry_ok e" using Register by (auto simp: fresh_entry_def entry_ok_def split: option.splits)
  then show ?case using Register by (simp add: tracker_inv_register)
next
  case (Delta d t t' es)
  then show ?case using tracker_inv_dispatch [of t d] by simp
next
  case (Snapshot s segments v t t' es)
  then show ?case using tracker_inv_snapshot [of t s segments v] by simp
next
  case (Tick t t' es)
  then show ?case using tracker_inv_tick [of t] by simp
next
  case (Reconnect m snaps t t' es)
  then show ?case using tracker_inv_reconnect [of t m snaps] by simp
next
  case (Unregister t s)
  then show ?case using om_delete_ball [of "tr_subscriptions t" entry_ok s]
    by (simp add: tracker_inv_def unregister_entry_def)
qed (simp_all add: tracker_inv_def setDebug_def setDisconnected_def)

lemma tracker_reachable_inv: "tracker_reachable t \<Longrightarrow> tracker_inv t"
proof (induction rule: tracker_reachable.induct)
  case Init
  show ?case by (simp add: tracker_inv_def new_tracker_def)
qed (blast intro: tracker_step_inv)

text \<open>C24: In every state the tracker can reach: subscription ids are unique, each view is a
  table whose delivered value is an array sorted by its comparator, pending deltas always
  have a flush scheduled, so none is stuck, and nothing waits in the disconnect queue while
  connected.\<close>

theorem tracker_invariants:
  assumes "tracker_reachable t"
  shows "om_wf (tr_subscriptions t) \<and> list_all (\<lambda>(s, e). entry_ok e) (tr_subscriptions t)
    \<and> \<not> (tr_pendingDeltas t \<noteq> [] \<and> \<not> tr_flushScheduled t) \<and> \<not> (tr_connected t \<and> tr_deltaQueue t \<noteq> [])"
  using tracker_reachable_inv [OF assms] by (auto simp: tracker_inv_def list_all_iff)

lemma demo_reachable: "tracker_reachable (fst (dispatch demo_delta (register_entry 3 (clear_view demo_entry) new_tracker)))"
proof -
  have "fresh_entry (clear_view demo_entry)"
    by (simp add: fresh_entry_def clear_view_def demo_entry_def)
  then have "tracker_reachable (register_entry 3 (clear_view demo_entry) new_tracker)"
    by (blast intro: tracker_reachable.intros tracker_step.Register)
  then show ?thesis by (rule tracker_reachable.Step) (rule tracker_step.Delta [OF prod.collapse [symmetric]])
qed

theorem tracker_invariants_witness:
  "let t = fst (dispatch demo_delta (register_entry 3 (clear_view demo_entry) new_tracker)) in
   om_wf (tr_subscriptions t) \<and> list_all (\<lambda>(s, e). entry_ok e) (tr_subscriptions t)
    \<and> \<not> (tr_pendingDeltas t \<noteq> [] \<and> \<not> tr_flushScheduled t) \<and> \<not> (tr_connected t \<and> tr_deltaQueue t \<noteq> [])"
  unfolding Let_def by (rule tracker_invariants [OF demo_reachable])

section \<open>Reconnecting\<close>

lemma disconnected_run:
  "\<not> tr_connected t \<Longrightarrow> dispatch_all ds t = (t\<lparr>tr_deltaQueue := tr_deltaQueue t @ ds\<rparr>, [])"
  by (induction ds arbitrary: t) (simp_all add: dispatch_def)

lemma dispatch_all_append:
  "dispatch_all (xs @ ys) t =
     (let r = dispatch_all xs t; r' = dispatch_all ys (fst r) in (fst r', snd r @ snd r'))"
  by (induction xs arbitrary: t) (simp_all add: Let_def case_prod_beta)

lemma remapped_queue: "remapped m (t\<lparr>tr_deltaQueue := q\<rparr>) = remapped m t"
  by (simp add: remapped_def clearMaterializedViews_def)

text \<open>C25: Being disconnected only delays deltas: a run of deltas that arrives while
  disconnected calls nobody, and after the reconnect the state and all effects are as if the
  run had arrived, in the same order, right after it.\<close>

theorem reconnect_replays_queue:
  assumes "\<not> tr_connected t"
  shows "snd (dispatch_all ds t) = [] \<and>
    reconnect m (repopulate snaps) (fst (dispatch_all ds t)) =
      (let r = reconnect m (repopulate snaps) t; r' = dispatch_all ds (fst r) in (fst r', snd r @ snd r'))"
  using assms
  by (simp add: disconnected_run reconnect_alt remapped_queue dispatch_all_append Let_def)

theorem reconnect_replays_queue_witness:
  "let t = setDisconnected (register_entry 3 demo_listen new_tracker); ds = [set_doc ''A'' ''x''] in
   snd (dispatch_all ds t) = [] \<and>
    reconnect [(3, 9)] (repopulate []) (fst (dispatch_all ds t)) =
      (let r = reconnect [(3, 9)] (repopulate []) t; r' = dispatch_all ds (fst r) in (fst r', snd r @ snd r'))"
  unfolding Let_def
  by (rule reconnect_replays_queue [unfolded Let_def]) (simp add: setDisconnected_def)

text \<open>
  The client enters this mode only in \<open>disconnect()\<close>. When the connection is lost and comes
  back the tracker stays connected while the subscriptions are replayed, so a delta that the
  server already sends for a replayed subscription, under its new id, is dropped, and the
  later reconnect does not bring it back.
\<close>

theorem replay_window_drops_delta:
  assumes "tr_connected t" "get_entry t (sd_subId d) = None"
  shows "dispatch d t = (t, [WarnUnknown (sd_subId d)])"
  using assms by (simp add: dispatch_def dispatchDelta_def)

section \<open>The initial snapshot\<close>

definition id_row :: "jv \<Rightarrow> string \<Rightarrow> bool" where
  "id_row row did \<longleftrightarrow> (\<exists>ps. row = JObj ps \<and> om_get ps ''id'' = Some (JStr did)) \<and> did \<noteq> []"

lemma snapshot_ops:
  assumes "list_all2 id_row rows ids"
  shows "sd_ops (createInitialSnapshotDelta s [c] (JArr rows)) =
    map (\<lambda>(row, did). OpSet [JStr c, JStr did] row) (zip rows ids)"
proof -
  have "createInitialSnapshotOp (JStr c) [c] row = Some (OpSet [JStr c, JStr did] row)" if "id_row row did" for row did
    using that by (auto simp: id_row_def createInitialSnapshotOp_def truthy_def Let_def)
  with assms have "List.map_filter (createInitialSnapshotOp (JStr c) [c]) rows =
      map (\<lambda>(row, did). OpSet [JStr c, JStr did] row) (zip rows ids)"
    by (induction rule: list_all2_induct) (simp_all add: map_filter_simps)
  then show ?thesis by (simp add: createInitialSnapshotDelta_def Let_def)
qed

lemma put_all_distinct:
  "distinct ks \<Longrightarrow> set ks \<inter> fst ` set m = {} \<Longrightarrow> length ks = length vs \<Longrightarrow>
   omt.apply_ops m (zip ks (map Some vs)) = m @ zip ks vs"
proof (induction ks arbitrary: m vs)
  case (Cons k ks)
  obtain v vs' where vs: "vs = v # vs'" using Cons.prems(3) by (cases vs) auto
  have "k \<notin> fst ` set m" using Cons.prems(2) by simp
  then have "omt.apply_ops m (zip (k # ks) (map Some vs)) = omt.apply_ops (m @ [(k, v)]) (zip ks (map Some vs'))"
    by (simp add: vs omt.apply_ops_def om_set_fresh)
  also have "\<dots> = (m @ [(k, v)]) @ zip ks vs'" using Cons.prems vs by (intro Cons.IH) auto
  finally show ?case by (simp add: vs)
qed (simp add: omt.apply_ops_def)

lemma delivered_in_flush:
  assumes "get_entry t s = Some e" "filter (\<lambda>d. sd_subId d = s) (tr_pendingDeltas t) = ds" "ds \<noteq> []"
  shows "set (snd (applyToSubscription e ds)) \<subseteq> set (snd (flush_tick t))"
proof -
  have "om_get (group_by_sub (tr_pendingDeltas t)) s = Some ds" using assms by (simp add: group_by_sub_get)
  then have "(s, ds) \<in> set (group_by_sub (tr_pendingDeltas t))" by (rule om_get_SomeD)
  then show ?thesis using assms(1) by (force simp: flush_tick_effects sub_effects_def)
qed

text \<open>C26: The rows of a subscription's answer reach its consumers: dispatching the initial
  snapshot of a fresh collection subscription calls nobody at once, and the next flush makes
  the delivered value exactly these rows, sorted by the comparator, and calls every consumer
  with it.\<close>

theorem initial_snapshot_delivered:
  assumes t: "tr_connected t" "get_entry t s = Some e" "en_view e = Some view" "vw_records view = []"
    and none: "filter (\<lambda>d. sd_subId d = s) (tr_pendingDeltas t) = []"
    and rows: "list_all2 id_row rows ids" "distinct ids" "rows \<noteq> []"
  shows "let r = dispatchInitialSnapshot s [c] (JArr rows) t; r' = flush_tick (fst r);
      v = JArr (js_sort (vw_comparator view) rows) in
    snd r = [] \<and> map_option en_deliveredValue (get_entry (fst r') s) = Some (Some v)
    \<and> set (deliver_all e v) \<subseteq> set (snd r')"
proof -
  let ?d = "createInitialSnapshotDelta s [c] (JArr rows)"
  let ?ops = "map (\<lambda>(row, did). OpSet [JStr c, JStr did] row) (zip rows ids)"
  let ?t = "fst (dispatchInitialSnapshot s [c] (JArr rows) t)"
  let ?v = "JArr (js_sort (vw_comparator view) rows)"
  have len: "length rows = length ids" using rows(1) by (rule list_all2_lengthD)
  have d: "sd_subId ?d = s" by (simp add: createInitialSnapshotDelta_def Let_def)
  have ops: "sd_ops ?d = ?ops" using snapshot_ops [OF rows(1)] .
  have "?ops \<noteq> []" using rows(3) len by (cases rows; cases ids) auto
  then have disp: "dispatchInitialSnapshot s [c] (JArr rows) t
      = (scheduleFlush (t\<lparr>tr_pendingDeltas := tr_pendingDeltas t @ [?d]\<rparr>), [])"
    using t d ops by (simp add: dispatchInitialSnapshot_def Let_def dispatch_def)
  then have pend: "filter (\<lambda>d. sd_subId d = s) (tr_pendingDeltas ?t) = [?d]"
    "get_entry ?t s = Some e"
    using none d t(2) by (simp_all add: scheduleFlush_def)
  have keys: "map op_entry ?ops = zip (map (\<lambda>did. Some (JStr did)) ids) (map Some rows)"
    using len by (induction rows ids rule: list_induct2) simp_all
  have "omt.apply_ops [] (map op_entry ?ops) = zip (map (\<lambda>did. Some (JStr did)) ids) rows"
    using put_all_distinct [of "map (\<lambda>did. Some (JStr did)) ids" "[]" rows] rows(2) len
    by (simp only: keys) (simp add: distinct_map inj_on_def)
  then have recs: "map snd (vw_records (fst (applyOpsToView view ?ops))) = rows"
    using t(4) len by (simp add: vw_records_applyOps)
  have cmp: "vw_comparator (fst (applyOpsToView view ?ops)) = vw_comparator view"
    by (simp add: vw_records_applyOps)
  have changed: "snd (applyOpsToView view ?ops)"
    using unchanged_view [of view ?ops] recs t(4) rows(3) by fastforce
  have one: "ops_of [?d] = ?ops" by (simp add: ops_of_def ops)
  obtain view' where a: "applyOpsToView view ?ops = (view', True)" using changed by (cases "applyOpsToView view ?ops") auto
  have v: "JArr (snapshotView view') = ?v" using recs cmp a by (simp add: snapshotView_def)
  have app: "applyToSubscription e [?d]
      = (e\<lparr>en_view := Some view', en_lastValue := Some ?v, en_deliveredValue := Some ?v\<rparr>, deliver_all e ?v)"
    using t(3) a v by (simp add: applyToSubscription_alt one Let_def)
  have "get_entry (fst (flush_tick ?t)) s = Some (fst (applyToSubscription e [?d]))"
    using pend by (simp add: flush_tick_get Let_def)
  moreover have "set (deliver_all e ?v) \<subseteq> set (snd (flush_tick ?t))"
    using delivered_in_flush [OF pend(2,1)] app by simp
  ultimately show ?thesis using app disp by (simp add: Let_def)
qed

theorem initial_snapshot_delivered_witness:
  "let t = register_entry 3 (clear_view demo_entry) new_tracker; rows = [demo_row ''b'' (JNum (Fin 1)), demo_row ''a'' (JNum (Fin 1))];
     r = dispatchInitialSnapshot 3 [''users''] (JArr rows) t; r' = flush_tick (fst r);
     v = JArr (js_sort (vw_comparator demo_view) rows) in
    snd r = [] \<and> map_option en_deliveredValue (get_entry (fst r') 3) = Some (Some v)
    \<and> set (deliver_all demo_entry v) \<subseteq> set (snd r')"
  using initial_snapshot_delivered [of "register_entry 3 (clear_view demo_entry) new_tracker" 3 "clear_view demo_entry"
      "demo_view\<lparr>vw_records := []\<rparr>" "[demo_row ''b'' (JNum (Fin 1)), demo_row ''a'' (JNum (Fin 1))]" "[''b'', ''a'']" "''users''"]
  by (simp add: new_tracker_def clear_view_def demo_entry_def id_row_def demo_row_def register_entry_def get_entry_def
      deliver_all_def Let_def)

section \<open>The order of arrival does not matter\<close>

definition id_entry :: "SortEntry \<Rightarrow> bool" where
  "id_entry e \<longleftrightarrow> sk_parts e = [''id'']"

lemma compareStrings_zero: "compareStrings s t = 0 \<Longrightarrow> s = t"
proof -
  have "well_formed (map cc u)" for u
  proof -
    have "\<not> is_high (cc c) \<and> \<not> is_low (cc c)" for c :: char
      using nat_of_char_less_256 [of c] unfolding is_high_def is_low_def by linarith
    then show ?thesis by (induction u rule: induct_list012) simp_all
  qed
  then have "compareStrings s t = 0 \<Longrightarrow> map cc s = map cc t"
    unfolding compareStrings_def by (intro compareUtf8_zero) simp_all
  then show "compareStrings s t = 0 \<Longrightarrow> s = t" by (simp add: inj_map_eq_map inj_def)
qed

lemma compareRecords_zero:
  "compareRecords entries a b = 0 \<Longrightarrow> e \<in> set entries \<Longrightarrow> compareSortEntry e a b = 0"
  by (induction entries) (auto simp: Let_def split: if_splits)

lemma id_entry_zero:
  assumes "id_entry e" "id_row a i" "id_row b j" "compareSortEntry e a b = 0"
  shows "i = j"
  using assms compareStrings_zero [of i j] compare_ref_eq [of i j]
  by (auto simp: id_entry_def id_row_def compareSortEntry_def compare_values_def Let_def nullish_def split: if_splits)

lemma set_om_get: "om_wf m \<Longrightarrow> set m = {(k, v). om_get m k = Some v}"
  using om_get_in_set om_get_SomeD by fast

definition keyed_rows :: "(jv option, jv) omap \<Rightarrow> bool" where
  \<comment> \<open>each record is stored under its id\<close>
  "keyed_rows m \<longleftrightarrow> (\<forall>(k, r) \<in> set m. \<exists>did. k = Some (JStr did) \<and> id_row r did)"

lemma keyed_rowsD: "keyed_rows m \<Longrightarrow> r \<in> snd ` set m \<Longrightarrow> \<exists>did. (Some (JStr did), r) \<in> set m \<and> id_row r did"
  unfolding keyed_rows_def by fastforce



end
