(* ===== verification/StoreCore.thy ===== *)
theory StoreCore
  imports Subscriptions ConnWire
begin

text \<open>
  \<open>store.ts\<close>: the store client. Reads and writes with their promises, writes that wait for
  the commit, and the registry of keyed subscriptions: consumers of one canonical message
  share a server subscription, which is established across connection gaps and namespace
  switches, paged with a shared cursor, and torn down a grace period after its last consumer.

  The state has the object heap it needs: a registration (\<open>RegistrationKey\<close>) is referred to
  by number, because queued establishments, timers and handles keep it after it has left
  \<open>keys\<close>. A promise is a number too, settled by an effect. What the code awaits is an event:
  the answer to a request (\<open>store_response\<close>), the grace timer (\<open>grace_fire\<close>), a woken
  establishment (\<open>resume\<close>), the microtask of a retained snapshot (\<open>snapshot_fire\<close>). What
  follows a settled promise in the same turn is part of the step that settles it.
\<close>

section \<open>Canonical keys\<close>

datatype reg_kind = KListen | KSubscribe

fun json_value :: "jv \<Rightarrow> jv" where
  \<comment> \<open>the value that the text of \<open>JSON.stringify\<close> denotes\<close>
  "json_value (JNum n) = (case n of Fin r \<Rightarrow> JNum (Fin r) | _ \<Rightarrow> JNull)"
| "json_value (JBytes bs) = JObj (map (\<lambda>(i, b). (show_nat i, JNum (Fin (of_nat (unat b))))) (enumerate 0 bs))"
| "json_value (JArr xs) = JArr (map json_value xs)"
| "json_value (JObj ps) = JObj (map (\<lambda>(k, v). (k, json_value v)) ps)"
| "json_value v = v"

definition json_condition :: "wire_condition \<Rightarrow> wire_condition" where
  \<comment> \<open>an inherited method in the place of an operator code is written as null\<close>
  "json_condition c = (case c of (field, op, v) \<Rightarrow>
     (field, case op of OpCode n \<Rightarrow> OpCode n | OpInherited _ \<Rightarrow> OpInherited [], map_option json_value v))"

definition json_query :: "query_fields \<Rightarrow> query_fields" where
  "json_query q = q
     \<lparr>qf_conditions := map_option (map json_condition) (qf_conditions q),
      qf_orConditions := map_option (map json_condition) (qf_orConditions q),
      qf_limit := map_option (\<lambda>n. case n of Fin r \<Rightarrow> Fin r | _ \<Rightarrow> NaN) (qf_limit q)\<rparr>"

definition canonical_key :: "reg_kind \<Rightarrow> store_message \<Rightarrow> reg_kind \<times> store_message" where
  \<comment> \<open>the text \<open>l:...\<close> or \<open>s:...\<close> is represented by what it denotes\<close>
  "canonical_key kind message =
     (kind, case message of StoreSubscribe collection q \<Rightarrow> StoreSubscribe collection (json_query q) | m \<Rightarrow> m)"

section \<open>State\<close>

record registration =
  rk_kind :: reg_kind
  rk_message :: store_message
  rk_segments :: "string list"
  rk_collection :: string
  rk_orderBy :: "props list option"
  rk_callbacks :: "nat list"
  rk_subId :: "nat option"
  rk_establishing :: "nat option"
  rk_nextCursor :: "string option"
  rk_hasMore :: bool
  rk_inFlight :: "nat option"
  rk_graceTimer :: bool
  rk_closed :: bool

definition rk_key :: "registration \<Rightarrow> reg_kind \<times> store_message" where
  "rk_key r = canonical_key (rk_kind r) (rk_message r)"

record consumer =
  cn_state :: nat
  cn_callback :: nat
  cn_waits :: nat             \<comment> \<open>the establishment its promise waits for\<close>

record handle =
  ha_state :: nat
  ha_callback :: nat
  ha_released :: bool

datatype op_result =
    RVoid
  | RCreated string
  | RShaped shaped
  | RQuery jv "string option"
  | RHandle

record pending_write =
  pw_writeId :: string
  pw_result :: op_result
  pw_fallback :: string
  pw_acked :: bool
  pw_outcome :: "(zync_error option) option"   \<comment> \<open>of \<open>commitPromise\<close>: \<open>Some None\<close> is resolved\<close>

datatype request_purpose =
    ForVoid nat op_result string
  | ForCommit nat
  | ForUnsubscribe
  | ForGet nat "string list"
  | ForQuery nat
  | ForEstablish nat nat nat        \<comment> \<open>registration, establishment, scope generation\<close>
  | ForPage nat nat nat             \<comment> \<open>registration, promise, subscription id\<close>

record store =
  st_inFlightWrites :: "(string, nat) omap"
  st_writes :: "(nat, pending_write) omap"
  st_regs :: "(nat, registration) omap"
  st_keys :: "(reg_kind \<times> store_message, nat) omap"
  st_unsettled :: "(nat, consumer) omap"
  st_handles :: "(nat, handle) omap"
  st_readyWaiters :: "(nat \<times> nat) list"       \<comment> \<open>registration, establishment\<close>
  st_woken :: "(nat \<times> nat) list"
  st_pageWaiters :: "(nat \<times> nat) list"        \<comment> \<open>registration, promise\<close>
  st_snapshots :: "(nat \<times> nat \<times> jv) list"      \<comment> \<open>queued microtasks: registration, callback, value\<close>
  st_sessionReady :: bool
  st_scopeGen :: nat
  st_switchPending :: int
  st_tracker :: tracker
  st_requests :: "(nat, request_purpose) omap"
  st_uuid :: uuid_state
  st_next :: nat

datatype store_effect =
    SSend nat store_message "nat option"      \<comment> \<open>request, message, \<open>responseTableIndex\<close>\<close>
  | STrack effect
  | SCall nat jv
  | SEmit zync_error
  | SResolve nat op_result
  | SReject nat thrown
  | SUnhandled zync_error                     \<comment> \<open>rejection of a promise without a handler\<close>

type_synonym sstep = "store \<times> store_effect list"

record store_ok = ok_response +
  ok_hasMore :: "bool option"

definition GRACE_TEARDOWN_MS :: nat where
  "GRACE_TEARDOWN_MS = 300"

definition new_store :: "uuid_state \<Rightarrow> store" where
  "new_store g = \<lparr>st_inFlightWrites = [], st_writes = [], st_regs = [], st_keys = [], st_unsettled = [],
     st_handles = [], st_readyWaiters = [], st_woken = [], st_pageWaiters = [], st_snapshots = [],
     st_sessionReady = False, st_scopeGen = 0, st_switchPending = 0, st_tracker = new_tracker,
     st_requests = [], st_uuid = g, st_next = 0\<rparr>"

definition and_do :: "sstep \<Rightarrow> (store \<Rightarrow> sstep) \<Rightarrow> sstep" where
  \<comment> \<open>one statement after the other\<close>
  "and_do r f = (case r of (s, es) \<Rightarrow> case f s of (s', es') \<Rightarrow> (s', es @ es'))"

definition send_store :: "store_message \<Rightarrow> nat option \<Rightarrow> request_purpose \<Rightarrow> store \<Rightarrow> sstep" where
  \<comment> \<open>\<open>conn.dispatch\<close>\<close>
  "send_store msg ti why s =
     (s\<lparr>st_requests := om_set (st_requests s) (st_next s) why, st_next := Suc (st_next s)\<rparr>, [SSend (st_next s) msg ti])"

definition get_reg :: "store \<Rightarrow> nat \<Rightarrow> registration option" where
  "get_reg s sid = om_get (st_regs s) sid"

definition put_reg :: "nat \<Rightarrow> registration \<Rightarrow> store \<Rightarrow> store" where
  "put_reg sid r s = s\<lparr>st_regs := om_set (st_regs s) sid r\<rparr>"

definition share_callbacks :: "nat \<Rightarrow> nat list \<Rightarrow> tracker \<Rightarrow> tracker" where
  \<comment> \<open>the tracker entry of a registration holds the same array\<close>
  "share_callbacks sid cbs t = t\<lparr>tr_subscriptions :=
     map (\<lambda>(k, e). (k, if en_onRemap e = Some sid then e\<lparr>en_callbacks := cbs\<rparr> else e)) (tr_subscriptions t)\<rparr>"

definition set_callbacks :: "nat \<Rightarrow> nat list \<Rightarrow> store \<Rightarrow> store" where
  \<comment> \<open>\<open>push\<close> and \<open>splice\<close> on \<open>state.callbacks\<close>\<close>
  "set_callbacks sid cbs s =
     (case get_reg s sid of
        None \<Rightarrow> s
      | Some r \<Rightarrow> (put_reg sid (r\<lparr>rk_callbacks := cbs\<rparr>) s)
          \<lparr>st_tracker := share_callbacks sid cbs (st_tracker s)\<rparr>)"

definition run_tracker :: "(tracker \<Rightarrow> tracker \<times> effect list) \<Rightarrow> store \<Rightarrow> sstep" where
  "run_tracker f s = (case f (st_tracker s) of (t, es) \<Rightarrow> (s\<lparr>st_tracker := t\<rparr>, map STrack es))"

definition emitted :: "thrown \<Rightarrow> string \<Rightarrow> nat \<Rightarrow> store_effect list" where
  \<comment> \<open>\<open>emitAndThrow\<close> in the promise \<open>w\<close>\<close>
  "emitted err fallback w = (let e = toZyncError err fallback True in [SEmit e, SReject w (TZync e)])"

definition missingSubIdError :: "reg_kind \<Rightarrow> zync_error" where
  "missingSubIdError kind = new_ZyncBaseError
     (case kind of KListen \<Rightarrow> ''Listen response missing subId'' | KSubscribe \<Rightarrow> ''Subscribe response missing subId'')
     ''INVALID_MESSAGE'' ''client'' False"

section \<open>Writes and reads\<close>

fun message_writeId :: "store_message \<Rightarrow> string option" where
  "message_writeId (StoreSet _ _ _ w) = w"
| "message_writeId (StoreRemove _ _ w) = w"
| "message_writeId (StoreBatch _ _ w) = w"
| "message_writeId _ = None"

definition dispatchVoid :: "store_message \<Rightarrow> string \<Rightarrow> op_result \<Rightarrow> nat \<Rightarrow> store \<Rightarrow> sstep" where
  "dispatchVoid msg fallback result w s = send_store msg None (ForVoid w result fallback) s"

definition dispatchWrite :: "store_message \<Rightarrow> string option \<Rightarrow> string option \<Rightarrow> string \<Rightarrow> op_result \<Rightarrow> nat \<Rightarrow> store \<Rightarrow> sstep" where
  "dispatchWrite msg writeId confirm fallback result w s =
     (if confirm = Some ''committed''
      then (case (if writeId = Some [] then None else writeId) of
              None \<Rightarrow> (s, [SReject w (client_error ''writeId is required for committed confirmation'' ''INVALID_MESSAGE'')])
            | Some wid \<Rightarrow>
                send_store msg None (ForCommit w)
                  (s\<lparr>st_inFlightWrites := om_set (st_inFlightWrites s) wid w,
                     st_writes := om_set (st_writes s) w
                       \<lparr>pw_writeId = wid, pw_result = result, pw_fallback = fallback, pw_acked = False,
                        pw_outcome = None\<rparr>\<rparr>))
      else dispatchVoid msg fallback result w s)"

definition new_promise :: "(nat \<Rightarrow> store \<Rightarrow> sstep) \<Rightarrow> store \<Rightarrow> sstep" where
  \<comment> \<open>an async method: its promise is a fresh number\<close>
  "new_promise f s = f (st_next s) (s\<lparr>st_next := Suc (st_next s)\<rparr>)"

definition store_write :: "(uuid_source \<Rightarrow> thrown + store_message \<times> uuid_state) \<Rightarrow> string option \<Rightarrow> string
    \<Rightarrow> nat \<Rightarrow> byte list \<Rightarrow> store \<Rightarrow> sstep" where
  \<comment> \<open>build the message, then \<open>dispatchWrite\<close>; what the builder throws rejects the promise\<close>
  "store_write build confirm fallback msecs random = new_promise (\<lambda>w s.
     case build (st_uuid s, msecs, random) of
       Inl err \<Rightarrow> (s, [SReject w err])
     | Inr (msg, g) \<Rightarrow> dispatchWrite msg (message_writeId msg) confirm fallback RVoid w (s\<lparr>st_uuid := g\<rparr>))"

definition drop_segments :: "thrown + command \<times> uuid_state \<Rightarrow> thrown + store_message \<times> uuid_state" where
  "drop_segments r = and_then r (\<lambda>((_, msg), g). Inr (msg, g))"

definition store_set :: "path_arg \<Rightarrow> jv \<Rightarrow> string option \<Rightarrow> nat \<Rightarrow> byte list \<Rightarrow> store \<Rightarrow> sstep" where
  "store_set path v confirm =
     store_write (\<lambda>src. drop_segments (buildSet path v confirm src)) confirm ''Set failed''"

definition store_remove :: "path_arg \<Rightarrow> string option \<Rightarrow> nat \<Rightarrow> byte list \<Rightarrow> store \<Rightarrow> sstep" where
  "store_remove path confirm =
     store_write (\<lambda>src. drop_segments (buildRemove path confirm src)) confirm ''Remove failed''"

definition store_batch :: "batch_operation list \<Rightarrow> string option \<Rightarrow> nat \<Rightarrow> byte list \<Rightarrow> store \<Rightarrow> sstep" where
  "store_batch operations confirm =
     store_write (buildBatch operations confirm) confirm ''Batch failed''"

fun join_with :: "string \<Rightarrow> string list \<Rightarrow> string" where
  \<comment> \<open>\<open>Array.prototype.join\<close>\<close>
  "join_with sep [] = []"
| "join_with sep [x] = x"
| "join_with sep (x # y # xs) = x @ sep @ join_with sep (y # xs)"

fun findMissingRequiredFields :: "dict \<Rightarrow> nat \<Rightarrow> (nat \<times> string) list \<Rightarrow> props \<Rightarrow> thrown + string list" where
  \<comment> \<open>\<open>flatValue[fieldName] == null\<close> also sees what every object inherits\<close>
  "findMissingRequiredFields d ti [] flatValue = Inr []"
| "findMissingRequiredFields d ti ((fi, fieldName) # rest) flatValue =
     and_then (isSystemField d (int ti) (int fi)) (\<lambda>system.
     and_then (if system then Inr False else isRequiredField d (int ti) (int fi)) (\<lambda>required.
     and_then (findMissingRequiredFields d ti rest flatValue) (\<lambda>missing.
       Inr (if required \<and> (case om_get flatValue fieldName of
                 Some v \<Rightarrow> v = JNull | None \<Rightarrow> fieldName \<notin> set object_proto_names)
            then join_with ''.'' (splitFieldPath fieldName) # missing else missing))))"

fun record_entries :: "jv \<Rightarrow> props option" where
  \<comment> \<open>\<open>isObjectRecord\<close>, with the entries that \<open>flatten\<close> reads\<close>
  "record_entries (JObj ps) = Some ps"
| "record_entries (JBytes bs) = Some (map (\<lambda>(i, b). (show_nat i, JNum (nat_num (unat b)))) (enumerate 0 bs))"
| "record_entries _ = None"

definition validateRequiredFields :: "dict \<Rightarrow> string \<Rightarrow> jv \<Rightarrow> thrown + unit" where
  "validateRequiredFields d collection v =
     (if \<not> ready d then Inr ()
      else case record_entries v of
        Some ps \<Rightarrow>
          and_then (getTableIndex d collection) (\<lambda>ti.
          and_then (getFields d (int ti)) (\<lambda>fs.
            case fs of
              None \<Rightarrow> Inl type_error
            | Some names \<Rightarrow>
                and_then (findMissingRequiredFields d ti (enumerate 0 names) (flatten ps)) (\<lambda>missing.
                  if length missing > 0
                  then Inl (TZync ((new_ZyncBaseError (''Missing required field(s): '' @ join_with '', '' missing)
                         ''SCHEMA_VALIDATION_FAILED'' ''validation'' False)
                         \<lparr>ze_details := Some [(''missingFields'', JArr (map JStr missing))]\<rparr>))
                  else Inr ())))
      | None \<Rightarrow> Inr ())"

definition store_create :: "dict \<Rightarrow> string \<Rightarrow> jv \<Rightarrow> string option \<Rightarrow> nat \<Rightarrow> byte list \<Rightarrow> nat \<Rightarrow> byte list
    \<Rightarrow> store \<Rightarrow> sstep" where
  \<comment> \<open>clock and random bytes of the document id, then of the write id\<close>
  "store_create d collection v confirm msecs random msecs' random' = new_promise (\<lambda>w s.
     case validateRequiredFields d collection v of
       Inl err \<Rightarrow> (s, [SReject w err])
     | Inr _ \<Rightarrow>
         (case generateUUIDv7 (st_uuid s) msecs random of (did, g) \<Rightarrow>
          case buildCreate collection v did confirm (g, msecs', random') of ((_, msg), g') \<Rightarrow>
            dispatchWrite msg (message_writeId msg) confirm ''Create failed'' (RCreated did) w (s\<lparr>st_uuid := g'\<rparr>)))"

definition store_get :: "path_arg \<Rightarrow> store \<Rightarrow> sstep" where
  "store_get path = new_promise (\<lambda>w s.
     case buildGet path of
       Inl err \<Rightarrow> (s, [SReject w err])
     | Inr (segments, msg) \<Rightarrow> send_store msg None (ForGet w segments) s)"

definition store_query :: "string \<Rightarrow> query_options option \<Rightarrow> store \<Rightarrow> sstep" where
  "store_query collection options = new_promise (\<lambda>w s.
     case buildQuery collection options of
       Inl err \<Rightarrow> (s, [SReject w err])
     | Inr (_, msg) \<Rightarrow> send_store msg None (ForQuery w) s)"

definition rows_of :: "jv option \<Rightarrow> jv list" where
  \<comment> \<open>\<open>(ok.value ?? []) as JsonValue[]\<close>; an answer's value is an array\<close>
  "rows_of v = (case v of Some (JArr xs) \<Rightarrow> xs | _ \<Rightarrow> [])"

definition finish_write :: "nat \<Rightarrow> pending_write \<Rightarrow> zync_error option \<Rightarrow> store \<Rightarrow> sstep" where
  \<comment> \<open>what follows \<open>await commitPromise\<close>\<close>
  "finish_write w pw outcome s =
     (s\<lparr>st_writes := om_delete (st_writes s) w\<rparr>,
      case outcome of None \<Rightarrow> [SResolve w (pw_result pw)] | Some e \<Rightarrow> emitted (TZync e) (pw_fallback pw) w)"

definition commit_answered :: "nat \<Rightarrow> thrown + store_ok \<Rightarrow> store \<Rightarrow> sstep" where
  \<comment> \<open>the answer to a write that waits for its commit\<close>
  "commit_answered w r s =
     (case om_get (st_writes s) w of
        None \<Rightarrow> (s, [])
      | Some pw \<Rightarrow>
          (case r of
             Inl err \<Rightarrow>
               (s\<lparr>st_inFlightWrites := om_delete (st_inFlightWrites s) (pw_writeId pw),
                  st_writes := om_delete (st_writes s) w\<rparr>, emitted err (pw_fallback pw) w)
           | Inr _ \<Rightarrow>
               (case pw_outcome pw of
                  Some outcome \<Rightarrow> finish_write w pw outcome s
                | None \<Rightarrow> (s\<lparr>st_writes := om_set (st_writes s) w (pw\<lparr>pw_acked := True\<rparr>)\<rparr>, []))))"

definition settle_commit :: "nat \<Rightarrow> zync_error option \<Rightarrow> store \<Rightarrow> sstep" where
  \<comment> \<open>\<open>pending.resolve()\<close> and \<open>pending.reject(error)\<close>: nothing handles the rejection
      until the write itself was answered\<close>
  "settle_commit w outcome s =
     (case om_get (st_writes s) w of
        None \<Rightarrow> (s, [])
      | Some pw \<Rightarrow>
          if pw_acked pw then finish_write w pw outcome s
          else (s\<lparr>st_writes := om_set (st_writes s) w (pw\<lparr>pw_outcome := Some outcome\<rparr>)\<rparr>,
                case outcome of None \<Rightarrow> [] | Some e \<Rightarrow> [SUnhandled e]))"

definition commit_message :: "string \<Rightarrow> zync_error option \<Rightarrow> store \<Rightarrow> sstep" where
  "commit_message writeId outcome s =
     (case om_get (st_inFlightWrites s) writeId of
        None \<Rightarrow> (s, [])
      | Some w \<Rightarrow> settle_commit w outcome (s\<lparr>st_inFlightWrites := om_delete (st_inFlightWrites s) writeId\<rparr>))"

definition write_error :: "props \<Rightarrow> zync_error" where
  "write_error msg =
     (let details = [(''phase'', case om_get msg ''phase'' of Some (JStr p) \<Rightarrow> JStr p | _ \<Rightarrow> JStr ''write'')]
            @ (case om_get msg ''batchIndex'' of Some i \<Rightarrow> [(''batchIndex'', i)] | None \<Rightarrow> [])
      in fromServerResponse
           \<lparr>se_code = js_string_field msg ''code'', se_message = js_string_field msg ''message'',
            se_retryAfter = None, se_requestId = None, se_path = None, se_details = Some details\<rparr>)"

fun handleInboundMessage :: "inbound \<Rightarrow> store \<Rightarrow> sstep" where
  "handleInboundMessage (InObject type msg) s =
     (if type = ''WriteCommitted'' then commit_message (js_string_field msg ''writeId'') None s
      else if type = ''WriteError'' then commit_message (js_string_field msg ''writeId'') (Some (write_error msg)) s
      else (s, []))"
| "handleInboundMessage _ s = (s, [])"

fun settle_all :: "nat list \<Rightarrow> zync_error \<Rightarrow> store \<Rightarrow> sstep" where
  "settle_all [] e s = (s, [])"
| "settle_all (w # ws) e s = and_do (settle_commit w (Some e) s) (settle_all ws e)"

definition rejectAllInFlight :: "store \<Rightarrow> sstep" where
  "rejectAllInFlight s =
     (let e = new_ZyncBaseError ''Connection closed before write was confirmed'' ''CONNECTION_FAILED'' ''network'' True
      in and_do (settle_all (map snd (st_inFlightWrites s)) e s) (\<lambda>s. (s\<lparr>st_inFlightWrites := []\<rparr>, [])))"

section \<open>The subscription registry\<close>

definition dispatchUnsubscribe :: "nat \<Rightarrow> store \<Rightarrow> sstep" where
  "dispatchUnsubscribe subId s = send_store (buildUnsubscribe subId) None ForUnsubscribe s"

definition acquireKey :: "reg_kind \<Rightarrow> store_message \<Rightarrow> string list \<Rightarrow> string \<Rightarrow> props list option \<Rightarrow> store \<Rightarrow> store \<times> nat" where
  "acquireKey kind message segments collection orderBy s =
     (case om_get (st_keys s) (canonical_key kind message) of
        Some sid \<Rightarrow>
          ((case get_reg s sid of Some r \<Rightarrow> put_reg sid (r\<lparr>rk_graceTimer := False\<rparr>) s | None \<Rightarrow> s), sid)
      | None \<Rightarrow>
          let sid = st_next s;
              r = \<lparr>rk_kind = kind, rk_message = message, rk_segments = segments, rk_collection = collection,
                   rk_orderBy = orderBy, rk_callbacks = [], rk_subId = None, rk_establishing = None,
                   rk_nextCursor = None, rk_hasMore = False, rk_inFlight = None, rk_graceTimer = False,
                   rk_closed = False\<rparr>
          in (put_reg sid r (s\<lparr>st_next := Suc sid, st_keys := om_set (st_keys s) (canonical_key kind message) sid\<rparr>), sid))"

definition dropKey :: "nat \<Rightarrow> store \<Rightarrow> store" where
  "dropKey sid s =
     (case get_reg s sid of
        None \<Rightarrow> s
      | Some r \<Rightarrow>
          (put_reg sid (r\<lparr>rk_closed := True, rk_graceTimer := False\<rparr>) s)
            \<lparr>st_keys := (if om_get (st_keys s) (rk_key r) = Some sid then om_delete (st_keys s) (rk_key r) else st_keys s)\<rparr>)"

definition teardown :: "nat \<Rightarrow> store \<Rightarrow> sstep" where
  "teardown sid s =
     (let s = dropKey sid s in
      case get_reg s sid of
        None \<Rightarrow> (s, [])
      | Some r \<Rightarrow>
          let s = put_reg sid (r\<lparr>rk_subId := None\<rparr>) s in
          (case rk_subId r of
             None \<Rightarrow> (s, [])
           | Some subId \<Rightarrow>
               let s = s\<lparr>st_tracker := unregister_entry subId (st_tracker s)\<rparr>
               in if st_sessionReady s then dispatchUnsubscribe subId s else (s, [])))"

definition waiting_for :: "nat \<Rightarrow> store \<Rightarrow> (nat \<times> consumer) list" where
  "waiting_for eid s = filter (\<lambda>(_, c). cn_waits c = eid) (st_unsettled s)"

definition end_establishing :: "nat \<Rightarrow> nat \<Rightarrow> store \<Rightarrow> store" where
  \<comment> \<open>\<open>if (state.establishing === loop) state.establishing = null\<close>; the consumers settle\<close>
  "end_establishing sid eid s =
     (let s = s\<lparr>st_unsettled := filter (\<lambda>(_, c). cn_waits c \<noteq> eid) (st_unsettled s)\<rparr> in
      case get_reg s sid of
        None \<Rightarrow> s
      | Some r \<Rightarrow> if rk_establishing r = Some eid then put_reg sid (r\<lparr>rk_establishing := None\<rparr>) s else s)"

definition add_handles :: "(nat \<times> consumer) list \<Rightarrow> store \<Rightarrow> store" where
  "add_handles cs s = s\<lparr>st_handles := foldl (\<lambda>m (cid, c). om_set m cid
     \<lparr>ha_state = cn_state c, ha_callback = cn_callback c, ha_released = False\<rparr>) (st_handles s) cs\<rparr>"

definition establish_resolve :: "nat \<Rightarrow> nat \<Rightarrow> store \<Rightarrow> sstep" where
  "establish_resolve sid eid s =
     (let cs = waiting_for eid s
      in (add_handles cs (end_establishing sid eid s), map (\<lambda>(cid, _). SResolve cid RHandle) cs))"

definition establish_reject :: "nat \<Rightarrow> nat \<Rightarrow> thrown \<Rightarrow> store \<Rightarrow> sstep" where
  "establish_reject sid eid err s =
     (let fallback = (case get_reg s sid of
            Some r \<Rightarrow> (case rk_kind r of KListen \<Rightarrow> ''Listen failed'' | KSubscribe \<Rightarrow> ''Subscribe failed'') | None \<Rightarrow> [])
      in (end_establishing sid eid s,
          concat (map (\<lambda>(cid, _). emitted err fallback cid) (waiting_for eid s))))"

definition establish_loop_step :: "nat \<Rightarrow> nat \<Rightarrow> store \<Rightarrow> sstep" where
  \<comment> \<open>a round of \<open>establishLoop\<close>, up to the next await\<close>
  "establish_loop_step sid eid s =
     (case get_reg s sid of
        None \<Rightarrow> (s, [])
      | Some r \<Rightarrow>
          if rk_closed r then establish_resolve sid eid s
          else if \<not> st_sessionReady s \<or> st_switchPending s > 0
          then (s\<lparr>st_readyWaiters := st_readyWaiters s @ [(sid, eid)]\<rparr>, [])
          else send_store (rk_message r) None (ForEstablish sid eid (st_scopeGen s)) s)"

definition afterEstablishFailure :: "thrown \<Rightarrow> nat \<Rightarrow> nat \<Rightarrow> nat \<Rightarrow> store \<Rightarrow> sstep" where
  "afterEstablishFailure err sid eid gen s =
     (case get_reg s sid of
        None \<Rightarrow> (s, [])
      | Some r \<Rightarrow>
          if rk_closed r then establish_resolve sid eid s
          else if length (rk_callbacks r) = 0 then establish_resolve sid eid (dropKey sid s)
          else if gen \<noteq> st_scopeGen s \<or> \<not> st_sessionReady s \<or> st_switchPending s > 0
          then establish_loop_step sid eid s
          else establish_reject sid eid err (dropKey sid s))"

definition entryFor :: "dict \<Rightarrow> nat \<Rightarrow> registration \<Rightarrow> thrown + sub_entry" where
  "entryFor d sid r =
     and_then (case rk_kind r of
         KListen \<Rightarrow> Inr None
       | KSubscribe \<Rightarrow> and_then (buildCollectionComparator d (rk_collection r) (rk_orderBy r))
           (\<lambda>cmp. Inr (Some \<lparr>vw_records = [], vw_comparator = cmp\<rparr>)))
       (\<lambda>view. Inr \<lparr>en_params = rk_message r, en_callbacks = rk_callbacks r,
          en_projection = (case rk_kind r of KListen \<Rightarrow> Some (createListenProjection (rk_segments r)) | KSubscribe \<Rightarrow> None),
          en_view = view, en_onRemap = Some sid, en_lastValue = None, en_deliveredValue = None\<rparr>)"

definition snapshot_segments :: "registration \<Rightarrow> string list" where
  "snapshot_segments r = (case rk_kind r of KListen \<Rightarrow> rk_segments r | KSubscribe \<Rightarrow> [rk_collection r])"

definition page_fields :: "store_ok \<Rightarrow> registration \<Rightarrow> registration" where
  \<comment> \<open>the cursor of an answer\<close>
  "page_fields ok r = r\<lparr>rk_nextCursor := ok_nextCursor ok,
     rk_hasMore := (case ok_hasMore ok of Some b \<Rightarrow> b | None \<Rightarrow> False)\<rparr>"

definition accepted :: "nat \<Rightarrow> store_ok \<Rightarrow> registration \<Rightarrow> registration" where
  "accepted subId ok r =
     (let r = r\<lparr>rk_subId := Some subId\<rparr> in if rk_kind r = KSubscribe then page_fields ok r else r)"

definition acceptAck :: "dict \<Rightarrow> nat \<Rightarrow> registration \<Rightarrow> store_ok \<Rightarrow> nat \<Rightarrow> store \<Rightarrow> sstep \<times> thrown option" where
  \<comment> \<open>with what it throws; the assignments made before the throw stay\<close>
  "acceptAck d sid r ok subId s =
     (let r = accepted subId ok r; s = put_reg sid r s
      in case entryFor d sid r of
           Inl err \<Rightarrow> ((s, []), Some err)
         | Inr entry \<Rightarrow>
             let s = s\<lparr>st_tracker := register_entry subId entry (st_tracker s)\<rparr>
             in (case ok_value ok of
                   None \<Rightarrow> (s, [])
                 | Some v \<Rightarrow> run_tracker (dispatchInitialSnapshot subId (snapshot_segments r) v) s, None))"

definition attemptEstablish :: "dict \<Rightarrow> nat \<Rightarrow> nat \<Rightarrow> nat \<Rightarrow> thrown + store_ok \<Rightarrow> store \<Rightarrow> sstep" where
  \<comment> \<open>from the answer on, with the rest of \<open>establishLoop\<close>\<close>
  "attemptEstablish d sid eid gen answer s =
     (case get_reg s sid of
        None \<Rightarrow> (s, [])
      | Some r \<Rightarrow>
          (case answer of
             Inl err \<Rightarrow> afterEstablishFailure err sid eid gen s
           | Inr ok \<Rightarrow>
               (case ok_subId ok of
                  None \<Rightarrow> afterEstablishFailure (TZync (missingSubIdError (rk_kind r))) sid eid gen s
                | Some subId \<Rightarrow>
                    if rk_closed r \<or> om_get (st_keys s) (rk_key r) \<noteq> Some sid
                    then and_do (if st_sessionReady s \<and> gen = st_scopeGen s then dispatchUnsubscribe subId s else (s, []))
                           (establish_resolve sid eid)
                    else if gen \<noteq> st_scopeGen s then establish_loop_step sid eid s
                    else if length (rk_callbacks r) = 0
                    then and_do (let s = dropKey sid s
                                 in if st_sessionReady s then dispatchUnsubscribe subId s else (s, []))
                           (establish_resolve sid eid)
                    else (case acceptAck d sid r ok subId s of
                            (st, None) \<Rightarrow> and_do st (establish_resolve sid eid)
                          | (st, Some err) \<Rightarrow> and_do st (afterEstablishFailure err sid eid gen)))))"

definition ensureEstablishing :: "nat \<Rightarrow> store \<Rightarrow> sstep" where
  \<comment> \<open>the promise is set first: the loop does not look at it\<close>
  "ensureEstablishing sid s =
     (case get_reg s sid of
        None \<Rightarrow> (s, [])
      | Some r \<Rightarrow>
          if rk_establishing r \<noteq> None then (s, [])
          else let eid = st_next s
               in establish_loop_step sid eid (put_reg sid (r\<lparr>rk_establishing := Some eid\<rparr>) (s\<lparr>st_next := Suc eid\<rparr>)))"

section \<open>Consumers\<close>

definition tracked_entry :: "registration \<Rightarrow> store \<Rightarrow> sub_entry option" where
  "tracked_entry r s = (case rk_subId r of Some subId \<Rightarrow> get_entry (st_tracker s) subId | None \<Rightarrow> None)"

definition attach :: "nat \<Rightarrow> nat \<Rightarrow> nat \<Rightarrow> store \<Rightarrow> sstep" where
  \<comment> \<open>registration, callback, promise\<close>
  "attach sid cb cid s =
     (case get_reg s sid of
        None \<Rightarrow> (s, [])
      | Some r \<Rightarrow>
          let waits = (case rk_establishing r of Some eid \<Rightarrow> eid | None \<Rightarrow> st_next s);
              s = set_callbacks sid (rk_callbacks r @ [cb]) s;
              c = \<lparr>cn_state = sid, cn_callback = cb, cn_waits = waits\<rparr>
          in (case tracked_entry r s of
                Some entry \<Rightarrow>
                  ((add_handles [(cid, c)] s)\<lparr>st_snapshots := st_snapshots s @
                     (case en_deliveredValue entry of Some v \<Rightarrow> [(sid, cb, v)] | None \<Rightarrow> [])\<rparr>,
                   [SResolve cid RHandle])
              | None \<Rightarrow> ensureEstablishing sid (s\<lparr>st_unsettled := om_set (st_unsettled s) cid c\<rparr>)))"

definition register_consumer :: "reg_kind \<Rightarrow> store_message \<Rightarrow> string list \<Rightarrow> string \<Rightarrow> props list option \<Rightarrow> nat
    \<Rightarrow> store \<Rightarrow> sstep" where
  "register_consumer kind msg segments collection orderBy cb s =
     (case acquireKey kind msg segments collection orderBy s of (s, sid) \<Rightarrow> new_promise (attach sid cb) s)"

definition store_listen :: "path_arg \<Rightarrow> nat \<Rightarrow> store \<Rightarrow> thrown + sstep" where
  \<comment> \<open>not an async method: a bad path is thrown\<close>
  "store_listen path cb s =
     and_then (buildListen path) (\<lambda>(segments, msg). Inr (register_consumer KListen msg segments [] None cb s))"

definition frozen_orderBy :: "query_options \<Rightarrow> props list option" where
  \<comment> \<open>\<open>options.orderBy?.map((clause) => ({ ...clause }))\<close>\<close>
  "frozen_orderBy options =
     (case qo_orderBy options of
        Some (JArr clauses) \<Rightarrow> Some (map (\<lambda>c. case own_entries c of Some ps \<Rightarrow> ps | None \<Rightarrow> []) clauses)
      | _ \<Rightarrow> None)"

definition store_subscribe :: "string \<Rightarrow> query_options \<Rightarrow> nat \<Rightarrow> store \<Rightarrow> thrown + sstep" where
  "store_subscribe collection options cb s =
     and_then (buildSubscribe collection options) (\<lambda>(_, msg).
       Inr (register_consumer KSubscribe msg [] collection (frozen_orderBy options) cb s))"

definition snapshot_fire :: "store \<Rightarrow> sstep" where
  \<comment> \<open>the next microtask queued by \<open>attach\<close>\<close>
  "snapshot_fire s =
     (case st_snapshots s of
        [] \<Rightarrow> (s, [])
      | (sid, cb, v) # rest \<Rightarrow>
          (s\<lparr>st_snapshots := rest\<rparr>,
           case get_reg s sid of Some r \<Rightarrow> (if cb \<in> set (rk_callbacks r) then [SCall cb v] else []) | None \<Rightarrow> []))"

definition release :: "nat \<Rightarrow> nat \<Rightarrow> store \<Rightarrow> store" where
  "release sid cb s =
     (case get_reg s sid of
        None \<Rightarrow> s
      | Some r \<Rightarrow>
          let cbs = remove1 cb (rk_callbacks r);
              s = set_callbacks sid cbs s
          in if rk_closed r \<or> length cbs > 0 \<or> rk_subId r = None then s
             else put_reg sid (r\<lparr>rk_callbacks := cbs, rk_graceTimer := True\<rparr>) s)"

definition release_handle :: "nat \<Rightarrow> store \<Rightarrow> store" where
  \<comment> \<open>\<open>unlisten\<close> and \<open>unsubscribe\<close>\<close>
  "release_handle cid s =
     (case om_get (st_handles s) cid of
        None \<Rightarrow> s
      | Some h \<Rightarrow>
          if ha_released h then s
          else release (ha_state h) (ha_callback h)
            (s\<lparr>st_handles := om_set (st_handles s) cid (h\<lparr>ha_released := True\<rparr>)\<rparr>))"

definition grace_fire :: "nat \<Rightarrow> store \<Rightarrow> sstep" where
  "grace_fire sid s =
     (case get_reg s sid of
        None \<Rightarrow> (s, [])
      | Some r \<Rightarrow> teardown sid (put_reg sid (r\<lparr>rk_graceTimer := False\<rparr>) s))"

definition snapshotOf :: "nat \<Rightarrow> store \<Rightarrow> jv option" where
  "snapshotOf sid s =
     (case get_reg s sid of
        None \<Rightarrow> None
      | Some r \<Rightarrow> (case tracked_entry r s of Some entry \<Rightarrow> en_deliveredValue entry | None \<Rightarrow> None))"

section \<open>Paging\<close>

definition loadMore :: "dict \<Rightarrow> nat \<Rightarrow> nat \<Rightarrow> store \<Rightarrow> sstep" where
  \<comment> \<open>registration, promise; from the head of the loop on\<close>
  "loadMore d sid w s =
     (case get_reg s sid of
        None \<Rightarrow> (s, [])
      | Some r \<Rightarrow>
          (case (rk_subId r, rk_nextCursor r) of
             (Some subId, Some cursor) \<Rightarrow>
               if rk_inFlight r \<noteq> None then (s\<lparr>st_pageWaiters := st_pageWaiters s @ [(sid, w)]\<rparr>, [])
               else (case getTableIndex d (rk_collection r) of
                       Inl err \<Rightarrow> (s, [SReject w err])
                     | Inr ti \<Rightarrow> send_store (buildLoadMore subId cursor) (Some ti) (ForPage sid w subId)
                         (put_reg sid (r\<lparr>rk_inFlight := Some w\<rparr>) s))
           | _ \<Rightarrow> (s, [SResolve w RVoid])))"

fun run_waiters :: "dict \<Rightarrow> (nat \<times> nat) list \<Rightarrow> store \<Rightarrow> sstep" where
  "run_waiters d [] s = (s, [])"
| "run_waiters d ((sid, w) # ws) s = and_do (loadMore d sid w s) (run_waiters d ws)"

definition page_done :: "nat \<Rightarrow> store \<Rightarrow> store" where
  "page_done sid s = (case get_reg s sid of Some r \<Rightarrow> put_reg sid (r\<lparr>rk_inFlight := None\<rparr>) s | None \<Rightarrow> s)"

definition page_answered :: "dict \<Rightarrow> nat \<Rightarrow> nat \<Rightarrow> nat \<Rightarrow> thrown + store_ok \<Rightarrow> store \<Rightarrow> sstep" where
  \<comment> \<open>what waits for the page fails with it or goes on in its turn\<close>
  "page_answered d sid w subId answer s =
     (case get_reg s sid of
        None \<Rightarrow> (s, [])
      | Some r \<Rightarrow>
          let waiting = filter (\<lambda>(i, _). i = sid) (st_pageWaiters s);
              s = s\<lparr>st_pageWaiters := filter (\<lambda>(i, _). i \<noteq> sid) (st_pageWaiters s)\<rparr>
          in (case answer of
                Inl err \<Rightarrow> (page_done sid s, SReject w err # map (\<lambda>(_, w'). SReject w' err) waiting)
              | Inr ok \<Rightarrow>
                  and_do
                    (if rk_closed r \<or> rk_subId r \<noteq> Some subId then (s, [])
                     else let s = put_reg sid (page_fields ok r) s
                          in (case ok_value ok of
                                None \<Rightarrow> (s, [])
                              | Some v \<Rightarrow> run_tracker (dispatchInitialSnapshot subId [rk_collection r] v) s))
                    (\<lambda>s. and_do (page_done sid s, [SResolve w RVoid]) (run_waiters d waiting))))"

definition handle_loadMore :: "dict \<Rightarrow> nat \<Rightarrow> store \<Rightarrow> sstep" where
  "handle_loadMore d cid s =
     (case om_get (st_handles s) cid of
        None \<Rightarrow> (s, [])
      | Some h \<Rightarrow> new_promise (\<lambda>w. loadMore d (ha_state h) w) s)"

section \<open>Readiness\<close>

definition wakeReady :: "store \<Rightarrow> store" where
  "wakeReady s = s\<lparr>st_readyWaiters := [], st_woken := st_woken s @ st_readyWaiters s\<rparr>"

definition resume :: "store \<Rightarrow> sstep" where
  \<comment> \<open>the next woken establishment goes on\<close>
  "resume s =
     (case st_woken s of
        [] \<Rightarrow> (s, [])
      | (sid, eid) # rest \<Rightarrow> establish_loop_step sid eid (s\<lparr>st_woken := rest\<rparr>))"

definition markSessionReady :: "store \<Rightarrow> store \<times> nat list" where
  \<comment> \<open>with the establishments whose settling the returned promise waits for\<close>
  "markSessionReady s =
     (let s = wakeReady (s\<lparr>st_sessionReady := True\<rparr>)
      in (s, List.map_filter (\<lambda>(_, sid). case get_reg s sid of Some r \<Rightarrow> rk_establishing r | None \<Rightarrow> None) (st_keys s)))"

definition markNotReady :: "store \<Rightarrow> store" where
  "markNotReady s = s\<lparr>st_sessionReady := False, st_scopeGen := Suc (st_scopeGen s)\<rparr>"

definition beginNamespaceSwitch :: "store \<Rightarrow> store" where
  "beginNamespaceSwitch s = s\<lparr>st_switchPending := st_switchPending s + 1\<rparr>"

definition rollbackNamespaceSwitch :: "store \<Rightarrow> store" where
  "rollbackNamespaceSwitch s = wakeReady (s\<lparr>st_switchPending := st_switchPending s - 1\<rparr>)"

definition commitNamespaceSwitch :: "store \<Rightarrow> store" where
  "commitNamespaceSwitch s = markNotReady (s\<lparr>st_switchPending := st_switchPending s - 1\<rparr>)"

definition drop_callback :: "nat \<Rightarrow> nat \<Rightarrow> store \<Rightarrow> store" where
  "drop_callback sid cb s =
     (case get_reg s sid of Some r \<Rightarrow> set_callbacks sid (remove1 cb (rk_callbacks r)) s | None \<Rightarrow> s)"

fun teardown_all :: "nat list \<Rightarrow> store \<Rightarrow> sstep" where
  "teardown_all [] s = (s, [])"
| "teardown_all (sid # sids) s = and_do (teardown sid s) (teardown_all sids)"

definition empty_keys :: "store \<Rightarrow> nat list" where
  "empty_keys s = filter (\<lambda>sid. case get_reg s sid of Some r \<Rightarrow> length (rk_callbacks r) = 0 | None \<Rightarrow> False)
     (map snd (st_keys s))"

definition rejectPending :: "store \<Rightarrow> sstep" where
  "rejectPending s =
     (let err = TZync (new_ZyncBaseError ''Client disconnected before the registration was established''
            ''CONNECTION_FAILED'' ''network'' False);
          pending = st_unsettled s;
          s = foldl (\<lambda>s (_, c). drop_callback (cn_state c) (cn_callback c) s) s pending;
          s = s\<lparr>st_unsettled := []\<rparr>
      in and_do (and_do (s, map (\<lambda>(cid, _). SReject cid err) pending) (teardown_all (empty_keys s)))
           (\<lambda>s. (wakeReady s, [])))"

definition onRemap :: "nat \<Rightarrow> nat \<Rightarrow> store \<Rightarrow> store" where
  "onRemap sid newId s =
     (case get_reg s sid of Some r \<Rightarrow> put_reg sid (r\<lparr>rk_subId := Some newId\<rparr>) s | None \<Rightarrow> s)"

definition store_response :: "dict \<Rightarrow> nat \<Rightarrow> thrown + store_ok \<Rightarrow> store \<Rightarrow> sstep" where
  "store_response d token answer s =
     (let q = s\<lparr>st_requests := om_delete (st_requests s) token\<rparr> in
      case om_get (st_requests s) token of
        None \<Rightarrow> (s, [])
      | Some (ForVoid w result fallback) \<Rightarrow>
          (q, case answer of Inr _ \<Rightarrow> [SResolve w result] | Inl err \<Rightarrow> emitted err fallback w)
      | Some (ForCommit w) \<Rightarrow> commit_answered w answer q
      | Some ForUnsubscribe \<Rightarrow>
          (q, case answer of Inr _ \<Rightarrow> [] | Inl err \<Rightarrow> [SEmit (toZyncError err ''Unsubscribe failed'' True)])
      | Some (ForGet w segments) \<Rightarrow>
          (q, case (case answer of Inl err \<Rightarrow> Inl err | Inr ok \<Rightarrow> shapeGetResult segments (rows_of (ok_value ok))) of
                Inr v \<Rightarrow> [SResolve w (RShaped v)] | Inl err \<Rightarrow> emitted err ''Get failed'' w)
      | Some (ForQuery w) \<Rightarrow>
          (q, case (case answer of Inl err \<Rightarrow> Inl err | Inr ok \<Rightarrow> shapeQueryResult (ok_response.truncate ok)) of
                Inr (v, c) \<Rightarrow> [SResolve w (RQuery v c)] | Inl err \<Rightarrow> emitted err ''Query failed'' w)
      | Some (ForEstablish sid eid gen) \<Rightarrow> attemptEstablish d sid eid gen answer q
      | Some (ForPage sid w subId) \<Rightarrow> page_answered d sid w subId answer q)"

end
