(* ===== verification/StoreRuns.thy ===== *)
theory StoreRuns
  imports StoreCore
begin

text \<open>
  Runs of the store client: every event in any order the code allows. The invariants of the
  registry: a key has one open registration, a registration has at most one establishment
  under way and every waiting consumer waits for it, and the tracker calls exactly the
  registration's consumers.
\<close>

section \<open>Events and runs\<close>

datatype store_event =
    StSet path_arg jv "string option" nat "byte list"
  | StRemove path_arg "string option" nat "byte list"
  | StBatch "batch_operation list" "string option" nat "byte list"
  | StCreate dict string jv "string option" nat "byte list" nat "byte list"
  | StGet path_arg
  | StQuery string "query_options option"
  | StListen path_arg nat
  | StSubscribe string query_options nat
  | StRelease nat
  | StGrace nat
  | StSnapshot
  | StLoadMore dict nat
  | StAnswer dict nat "thrown + store_ok"
  | StInbound inbound
  | StReady
  | StResume
  | StDropped
  | StReconnecting
  | StSwitchBegin
  | StSwitchRollback
  | StSwitchCommit
  | StRejectPending
  | StDelta store_delta
  | StFlush
  | StTrackerOff
  | StReconnect "(nat, nat) omap" "tracker \<Rightarrow> tracker \<times> effect list"

fun remap_regs :: "effect list \<Rightarrow> store \<Rightarrow> store" where
  \<comment> \<open>the \<open>onRemap\<close> hooks\<close>
  "remap_regs [] s = s"
| "remap_regs (Remap sid newId # es) s = remap_regs es (onRemap sid newId s)"
| "remap_regs (_ # es) s = remap_regs es s"

definition store_reconnect :: "(nat, nat) omap \<Rightarrow> (tracker \<Rightarrow> tracker \<times> effect list) \<Rightarrow> store \<Rightarrow> sstep" where
  "store_reconnect oldToNew beforeDrain s =
     (case reconnect oldToNew beforeDrain (st_tracker s) of (t, es) \<Rightarrow>
        (remap_regs es (s\<lparr>st_tracker := t\<rparr>), map STrack es))"

definition thrown_or :: "store \<Rightarrow> thrown + sstep \<Rightarrow> sstep" where
  "thrown_or s r = (case r of Inl _ \<Rightarrow> (s, []) | Inr st \<Rightarrow> st)"

fun store_step :: "store_event \<Rightarrow> store \<Rightarrow> sstep" where
  "store_step (StSet path v confirm msecs rnd) s = store_set path v confirm msecs rnd s"
| "store_step (StRemove path confirm msecs rnd) s = store_remove path confirm msecs rnd s"
| "store_step (StBatch ops confirm msecs rnd) s = store_batch ops confirm msecs rnd s"
| "store_step (StCreate d coll v confirm m1 r1 m2 r2) s = store_create d coll v confirm m1 r1 m2 r2 s"
| "store_step (StGet path) s = store_get path s"
| "store_step (StQuery coll opts) s = store_query coll opts s"
| "store_step (StListen path cb) s = thrown_or s (store_listen path cb s)"
| "store_step (StSubscribe coll opts cb) s = thrown_or s (store_subscribe coll opts cb s)"
| "store_step (StRelease cid) s = (release_handle cid s, [])"
| "store_step (StGrace sid) s = grace_fire sid s"
| "store_step StSnapshot s = snapshot_fire s"
| "store_step (StLoadMore d cid) s = handle_loadMore d cid s"
| "store_step (StAnswer d token answer) s = store_response d token answer s"
| "store_step (StInbound m) s = handleInboundMessage m s"
| "store_step StReady s = (fst (markSessionReady s), [])"
| "store_step StResume s = resume s"
| "store_step StDropped s = rejectAllInFlight (markNotReady s)"
| "store_step StReconnecting s = rejectAllInFlight s"
| "store_step StSwitchBegin s = (beginNamespaceSwitch s, [])"
| "store_step StSwitchRollback s = (rollbackNamespaceSwitch s, [])"
| "store_step StSwitchCommit s = (commitNamespaceSwitch s, [])"
| "store_step StRejectPending s = rejectPending s"
| "store_step (StDelta delta) s = run_tracker (dispatch delta) s"
| "store_step StFlush s = run_tracker flush_tick s"
| "store_step StTrackerOff s = (s\<lparr>st_tracker := setDisconnected (st_tracker s)\<rparr>, [])"
| "store_step (StReconnect m before) s = store_reconnect m before s"

definition harmless_before :: "(tracker \<Rightarrow> tracker \<times> effect list) \<Rightarrow> bool" where
  \<comment> \<open>what the client passes to \<open>reconnect\<close> repopulates views: entries stay whose they are\<close>
  "harmless_before f \<longleftrightarrow> (\<forall>t. (\<lambda>(k, e). (en_onRemap e, en_callbacks e)) ` set (tr_subscriptions (fst (f t)))
      \<subseteq> (\<lambda>(k, e). (en_onRemap e, en_callbacks e)) ` set (tr_subscriptions t)
     \<and> (\<forall>sid n. Remap sid n \<notin> set (snd (f t))))"

fun store_enabled :: "store_event \<Rightarrow> store \<Rightarrow> bool" where
  "store_enabled (StGrace sid) s \<longleftrightarrow> (case get_reg s sid of Some r \<Rightarrow> rk_graceTimer r | None \<Rightarrow> False)"
| "store_enabled StFlush s \<longleftrightarrow> tr_flushScheduled (st_tracker s)"
| "store_enabled StSwitchRollback s \<longleftrightarrow> st_switchPending s > 0"
| "store_enabled StSwitchCommit s \<longleftrightarrow> st_switchPending s > 0"
| "store_enabled (StReconnect m before) s \<longleftrightarrow> harmless_before before"
| "store_enabled _ s \<longleftrightarrow> True"

inductive store_run :: "uuid_state \<Rightarrow> (store_event \<times> store) list \<Rightarrow> store \<Rightarrow> store_effect list \<Rightarrow> bool" for g where
  \<comment> \<open>the events with the states they found\<close>
  start: "store_run g [] (new_store g) []"
| step: "store_run g evs s es \<Longrightarrow> store_enabled ev s \<Longrightarrow> store_step ev s = (s', es') \<Longrightarrow>
    store_run g (evs @ [(ev, s)]) s' (es @ es')"

inductive_cases store_run_snocE: "store_run g (evs @ [ev]) s es"
inductive_simps store_run_Nil: "store_run g [] s es"

section \<open>Frames\<close>

lemma get_reg_put [simp]: "get_reg (put_reg sid r s) sid' = (if sid' = sid then Some r else get_reg s sid')"
  by (simp add: get_reg_def put_reg_def)

lemma put_reg_frame [simp]:
  "st_inFlightWrites (put_reg sid r s) = st_inFlightWrites s" "st_writes (put_reg sid r s) = st_writes s"
  "st_keys (put_reg sid r s) = st_keys s" "st_unsettled (put_reg sid r s) = st_unsettled s"
  "st_handles (put_reg sid r s) = st_handles s" "st_readyWaiters (put_reg sid r s) = st_readyWaiters s"
  "st_woken (put_reg sid r s) = st_woken s" "st_pageWaiters (put_reg sid r s) = st_pageWaiters s"
  "st_snapshots (put_reg sid r s) = st_snapshots s" "st_sessionReady (put_reg sid r s) = st_sessionReady s"
  "st_scopeGen (put_reg sid r s) = st_scopeGen s" "st_switchPending (put_reg sid r s) = st_switchPending s"
  "st_tracker (put_reg sid r s) = st_tracker s" "st_requests (put_reg sid r s) = st_requests s"
  "st_uuid (put_reg sid r s) = st_uuid s" "st_next (put_reg sid r s) = st_next s"
  by (simp_all add: put_reg_def)

lemma get_reg_frame [simp]:
  "get_reg (s\<lparr>st_inFlightWrites := a\<rparr>) = get_reg s" "get_reg (s\<lparr>st_writes := b\<rparr>) = get_reg s"
  "get_reg (s\<lparr>st_keys := c\<rparr>) = get_reg s" "get_reg (s\<lparr>st_unsettled := d\<rparr>) = get_reg s"
  "get_reg (s\<lparr>st_handles := e\<rparr>) = get_reg s" "get_reg (s\<lparr>st_readyWaiters := f\<rparr>) = get_reg s"
  "get_reg (s\<lparr>st_woken := g\<rparr>) = get_reg s" "get_reg (s\<lparr>st_pageWaiters := h\<rparr>) = get_reg s"
  "get_reg (s\<lparr>st_snapshots := i\<rparr>) = get_reg s" "get_reg (s\<lparr>st_sessionReady := j\<rparr>) = get_reg s"
  "get_reg (s\<lparr>st_scopeGen := k\<rparr>) = get_reg s" "get_reg (s\<lparr>st_switchPending := l\<rparr>) = get_reg s"
  "get_reg (s\<lparr>st_tracker := m\<rparr>) = get_reg s" "get_reg (s\<lparr>st_requests := n\<rparr>) = get_reg s"
  "get_reg (s\<lparr>st_uuid := p\<rparr>) = get_reg s" "get_reg (s\<lparr>st_next := q\<rparr>) = get_reg s"
  by (simp_all add: get_reg_def fun_eq_iff)

lemma get_reg_set_callbacks [simp]:
  "get_reg (set_callbacks sid cbs s) sid' =
     (if sid' = sid then map_option (\<lambda>r. r\<lparr>rk_callbacks := cbs\<rparr>) (get_reg s sid) else get_reg s sid')"
  by (simp add: set_callbacks_def split: option.split)

lemma set_callbacks_frame [simp]:
  "st_inFlightWrites (set_callbacks sid r s) = st_inFlightWrites s" "st_writes (set_callbacks sid r s) = st_writes s"
  "st_keys (set_callbacks sid r s) = st_keys s" "st_unsettled (set_callbacks sid r s) = st_unsettled s"
  "st_handles (set_callbacks sid r s) = st_handles s" "st_readyWaiters (set_callbacks sid r s) = st_readyWaiters s"
  "st_woken (set_callbacks sid r s) = st_woken s" "st_pageWaiters (set_callbacks sid r s) = st_pageWaiters s"
  "st_snapshots (set_callbacks sid r s) = st_snapshots s" "st_sessionReady (set_callbacks sid r s) = st_sessionReady s"
  "st_scopeGen (set_callbacks sid r s) = st_scopeGen s" "st_switchPending (set_callbacks sid r s) = st_switchPending s"
  "st_requests (set_callbacks sid r s) = st_requests s"
  "st_uuid (set_callbacks sid r s) = st_uuid s" "st_next (set_callbacks sid r s) = st_next s"
  by (simp_all add: set_callbacks_def split: option.split)

lemma and_do_simps:
  "fst (and_do r f) = fst (f (fst r))" "snd (and_do r f) = snd r @ snd (f (fst r))"
  by (simp_all add: and_do_def split_def)

section \<open>Establishments\<close>

definition est_reqs :: "(nat, request_purpose) omap \<Rightarrow> (nat \<times> nat) list" where
  "est_reqs m = List.map_filter (\<lambda>(_, why). case why of ForEstablish sid eid _ \<Rightarrow> Some (sid, eid) | _ \<Rightarrow> None) m"

definition live :: "store \<Rightarrow> (nat \<times> nat) list" where
  \<comment> \<open>the establishments under way: queued, woken, or with an unanswered request\<close>
  "live s = st_readyWaiters s @ st_woken s @ est_reqs (st_requests s)"

definition est_of :: "store \<Rightarrow> nat \<Rightarrow> nat option" where
  "est_of s sid = (case get_reg s sid of Some r \<Rightarrow> rk_establishing r | None \<Rightarrow> None)"

definition ids_ok :: "store \<Rightarrow> bool" where
  "ids_ok s \<longleftrightarrow> om_wf (st_requests s) \<and> (\<forall>t \<in> fst ` set (st_requests s). t < st_next s)
     \<and> (\<forall>sid eid. est_of s sid = Some eid \<longrightarrow> eid < st_next s)
     \<and> (\<forall>sid. get_reg s sid \<noteq> None \<longrightarrow> sid < st_next s)"

definition park_ok :: "store \<Rightarrow> bool" where
  \<comment> \<open>an establishment is queued only while nothing can be established\<close>
  "park_ok s \<longleftrightarrow> st_readyWaiters s = [] \<or> \<not> st_sessionReady s \<or> st_switchPending s > 0"

definition est_inv :: "(nat \<times> nat) multiset \<Rightarrow> store \<Rightarrow> bool" where
  \<comment> \<open>\<open>X\<close> is the establishment that the step has in hand\<close>
  "est_inv X s \<longleftrightarrow>
     (\<forall>sid eid. count (X + mset (live s)) (sid, eid) = (if est_of s sid = Some eid then 1 else 0))
     \<and> (\<forall>(cid, c) \<in> set (st_unsettled s). est_of s (cn_state c) = Some (cn_waits c))
     \<and> ids_ok s \<and> park_ok s"

definition est_same :: "store \<Rightarrow> store \<Rightarrow> bool" where
  "est_same s s' \<longleftrightarrow> est_of s' = est_of s \<and> (\<forall>sid. get_reg s' sid = None \<longleftrightarrow> get_reg s sid = None)
     \<and> set (st_unsettled s') \<subseteq> set (st_unsettled s) \<and> mset (live s') = mset (live s)
     \<and> st_requests s' = st_requests s \<and> st_next s \<le> st_next s' \<and> (park_ok s \<longrightarrow> park_ok s')"

lemma est_inv_same:
  assumes "est_inv X s" "est_same s s'"
  shows "est_inv X s'"
proof -
  have 1: "est_of s' = est_of s" "\<And>sid. get_reg s' sid = None \<longleftrightarrow> get_reg s sid = None" "mset (live s') = mset (live s)"
    "st_requests s' = st_requests s" "st_next s \<le> st_next s'" "set (st_unsettled s') \<subseteq> set (st_unsettled s)"
    "park_ok s \<longrightarrow> park_ok s'"
    using assms(2) by (simp_all add: est_same_def)
  have ids: "ids_ok s'" using assms(1) unfolding est_inv_def ids_ok_def 1(1,2,4) by (auto intro: less_le_trans [OF _ 1(5)])
  show ?thesis using assms(1) ids 1(6,7) unfolding est_inv_def 1(1,3) by blast
qed

lemma est_same_refl [simp]: "est_same s s"
  by (simp add: est_same_def)

lemma est_same_trans: "est_same s s1 \<Longrightarrow> est_same s1 s2 \<Longrightarrow> est_same s s2"
  by (auto simp: est_same_def)

lemma est_of_put [simp]: "est_of (put_reg sid r s) = (est_of s)(sid := rk_establishing r)"
  by (auto simp: est_of_def fun_eq_iff)

lemma est_same_put:
  "get_reg s sid = Some r0 \<Longrightarrow> rk_establishing r = rk_establishing r0 \<Longrightarrow> est_same s (put_reg sid r s)"
  by (auto simp: est_same_def live_def est_of_def park_ok_def)

lemma est_of_frame [simp]: "est_of (set_callbacks sid cbs s) = est_of s"
  by (auto simp: est_of_def fun_eq_iff split: option.split)

lemma est_same_callbacks: "est_same s (set_callbacks sid cbs s)"
  by (auto simp: est_same_def live_def park_ok_def)

lemma est_same_update:
  \<comment> \<open>assignments to fields that have nothing to do with establishments\<close>
  "get_reg s' = get_reg s \<Longrightarrow> st_unsettled s' = st_unsettled s \<Longrightarrow> st_readyWaiters s' = st_readyWaiters s
    \<Longrightarrow> st_woken s' = st_woken s \<Longrightarrow> st_requests s' = st_requests s \<Longrightarrow> st_next s \<le> st_next s'
    \<Longrightarrow> st_sessionReady s' = st_sessionReady s \<Longrightarrow> st_switchPending s' = st_switchPending s \<Longrightarrow> est_same s s'"
  by (simp add: est_same_def live_def est_of_def fun_eq_iff park_ok_def)

lemma est_of_cong: "get_reg s' = get_reg s \<Longrightarrow> est_of s' = est_of s"
  by (simp add: est_of_def fun_eq_iff)

lemma est_reqs_simps [simp]:
  "est_reqs [] = []" "est_reqs (m @ m') = est_reqs m @ est_reqs m'"
  "est_reqs [(t, why)] = (case why of ForEstablish sid eid _ \<Rightarrow> [(sid, eid)] | _ \<Rightarrow> [])"
  by (simp_all add: est_reqs_def List.map_filter_def split: request_purpose.split)

fun est_purpose :: "request_purpose \<Rightarrow> (nat \<times> nat) list" where
  "est_purpose (ForEstablish sid eid _) = [(sid, eid)]"
| "est_purpose _ = []"

lemma est_inv_send:
  assumes "est_inv X s" "X = mset (est_purpose why) + Y"
  shows "est_inv Y (fst (send_store msg ti why s))"
proof -
  have fresh: "st_next s \<notin> fst ` set (st_requests s)" "om_wf (st_requests s)"
    using assms(1) by (force simp: est_inv_def ids_ok_def)+
  let ?s = "s\<lparr>st_requests := st_requests s @ [(st_next s, why)], st_next := Suc (st_next s)\<rparr>"
  have 1: "fst (send_store msg ti why s) = ?s" using fresh by (simp add: send_store_def om_set_fresh)
  have e: "est_of ?s = est_of s" by (rule est_of_cong) simp
  have g: "get_reg ?s = get_reg s" by simp
  have l: "mset (live ?s) = mset (live s) + mset (est_purpose why)"
    by (simp add: live_def split: request_purpose.split)
  have "ids_ok ?s" using assms(1) fresh unfolding est_inv_def ids_ok_def e g
    by (force simp: om_wf_def less_Suc_eq)
  moreover have "Y + mset (live ?s) = X + mset (live s)" using assms(2) l by simp
  moreover have "park_ok ?s = park_ok s" by (simp add: park_ok_def)
  moreover have "st_unsettled ?s = st_unsettled s" by simp
  ultimately show ?thesis using assms(1) unfolding 1 est_inv_def e by presburger
qed

lemma est_inv_answer:
  assumes inv: "est_inv {#} s" and t: "om_get (st_requests s) t = Some why"
  shows "est_inv (mset (est_purpose why)) (s\<lparr>st_requests := om_delete (st_requests s) t\<rparr>)"
proof -
  let ?s = "s\<lparr>st_requests := om_delete (st_requests s) t\<rparr>"
  have wf: "om_wf (st_requests s)" using inv by (simp add: est_inv_def ids_ok_def)
  have m: "om_wf m \<Longrightarrow> om_get m t = Some why \<Longrightarrow> mset (est_reqs m) = mset (est_purpose why) + mset (est_reqs (om_delete m t))" for m
  proof (induction m)
    case (Cons x m)
    obtain k w where x: "x = (k, w)" by (cases x)
    have cons: "est_reqs (x # m') = est_reqs [x] @ est_reqs m'" for m' by (metis append_Cons append_Nil est_reqs_simps(2))
    show ?case
    proof (cases "k = t")
      case True
      then have "om_get m t = None" using Cons.prems(1) by (simp add: x om_get_None_iff)
      moreover have "om_delete (x # m) t = om_delete m t" using True by (simp add: x om_delete_def)
      moreover have "w = why" using True Cons.prems(2) by (simp add: x)
      ultimately show ?thesis using cons [of m] by (simp add: x om_delete_absent split: request_purpose.split)
    next
      case False
      have "om_delete (x # m) t = x # om_delete m t" using False by (simp add: x om_delete_def)
      moreover have "mset (est_reqs m) = mset (est_purpose why) + mset (est_reqs (om_delete m t))"
        using False Cons by (simp add: x)
      ultimately show ?thesis using cons [of m] cons [of "om_delete m t"] by simp
    qed
  qed simp
  have e: "est_of ?s = est_of s" by (rule est_of_cong) simp
  have g: "get_reg ?s = get_reg s" by simp
  have l: "mset (live s) = mset (est_purpose why) + mset (live ?s)"
    using m [OF wf t] by (simp add: live_def)
  have "ids_ok ?s" using inv wf unfolding est_inv_def ids_ok_def e g by (auto simp: keys_om_delete)
  moreover have "mset (est_purpose why) + mset (live ?s) = {#} + mset (live s)" using l by simp
  moreover have "park_ok ?s = park_ok s" by (simp add: park_ok_def)
  moreover have "st_unsettled ?s = st_unsettled s" by simp
  ultimately show ?thesis using inv unfolding est_inv_def e by presburger
qed

lemma est_same_dropKey: "est_same s (dropKey sid s)"
proof (cases "get_reg s sid")
  case (Some r)
  have "est_same s (put_reg sid (r\<lparr>rk_closed := True, rk_graceTimer := False\<rparr>) s)"
    by (rule est_same_put [OF Some]) simp
  moreover have "est_same (put_reg sid r' s) (put_reg sid r' s\<lparr>st_keys := k\<rparr>)" for r' k
    by (rule est_same_update) simp_all
  ultimately show ?thesis using Some by (simp add: dropKey_def est_same_trans)
qed (simp add: dropKey_def)

lemma get_reg_dropKey [simp]:
  "get_reg (dropKey sid s) sid' =
     (if sid' = sid then map_option (\<lambda>r. r\<lparr>rk_closed := True, rk_graceTimer := False\<rparr>) (get_reg s sid) else get_reg s sid')"
  by (simp add: dropKey_def split: option.split)

lemma dropKey_frame [simp]:
  "st_unsettled (dropKey sid s) = st_unsettled s" "st_requests (dropKey sid s) = st_requests s"
  "st_readyWaiters (dropKey sid s) = st_readyWaiters s" "st_woken (dropKey sid s) = st_woken s"
  "st_next (dropKey sid s) = st_next s" "st_tracker (dropKey sid s) = st_tracker s"
  "st_sessionReady (dropKey sid s) = st_sessionReady s" "st_scopeGen (dropKey sid s) = st_scopeGen s"
  "st_switchPending (dropKey sid s) = st_switchPending s" "st_writes (dropKey sid s) = st_writes s"
  "st_pageWaiters (dropKey sid s) = st_pageWaiters s" "st_handles (dropKey sid s) = st_handles s"
  "st_inFlightWrites (dropKey sid s) = st_inFlightWrites s" "st_snapshots (dropKey sid s) = st_snapshots s"
  by (simp_all add: dropKey_def split: option.split)

lemma est_inv_quiet_send: "est_inv X s \<Longrightarrow> est_purpose why = [] \<Longrightarrow> est_inv X (fst (send_store msg ti why s))"
  by (rule est_inv_send) simp_all

lemma est_inv_unsubscribe: "est_inv X s \<Longrightarrow> est_inv X (fst (dispatchUnsubscribe subId s))"
  unfolding dispatchUnsubscribe_def by (rule est_inv_quiet_send) simp_all

lemma est_inv_teardown: assumes "est_inv X s" shows "est_inv X (fst (teardown sid s))"
proof (cases "get_reg (dropKey sid s) sid")
  case None
  then show ?thesis using est_inv_same [OF assms est_same_dropKey] by (simp add: teardown_def)
next
  case (Some r)
  let ?s = "put_reg sid (r\<lparr>rk_subId := None\<rparr>) (dropKey sid s)"
  have "est_inv X (dropKey sid s)" using est_inv_same [OF assms est_same_dropKey] .
  then have 1: "est_inv X ?s" by (rule est_inv_same) (rule est_same_put [OF Some], simp)
  then have "est_inv X (?s\<lparr>st_tracker := t\<rparr>)" for t by (rule est_inv_same) (rule est_same_update; simp)
  then show ?thesis using Some 1
    by (cases "rk_subId r") (simp_all add: teardown_def Let_def est_inv_unsubscribe del: get_reg_dropKey)
qed

lemma est_inv_hand:
  assumes "est_inv {#(sid, eid)#} s"
  obtains r where "get_reg s sid = Some r" "rk_establishing r = Some eid"
proof -
  have "count ({#(sid, eid)#} + mset (live s)) (sid, eid) \<noteq> 0" by simp
  then have "est_of s sid = Some eid" using assms unfolding est_inv_def by (meson zero_neq_one)
  then show thesis using that by (auto simp: est_of_def split: option.splits)
qed

lemma est_inv_end:
  assumes inv: "est_inv {#(sid, eid)#} s"
  shows "est_inv {#} (end_establishing sid eid s)"
proof -
  obtain r where r: "get_reg s sid = Some r" "rk_establishing r = Some eid" using est_inv_hand [OF inv] .
  let ?s = "s\<lparr>st_unsettled := filter (\<lambda>(_, c). cn_waits c \<noteq> eid) (st_unsettled s)\<rparr>"
  have s': "end_establishing sid eid s = put_reg sid (r\<lparr>rk_establishing := None\<rparr>) ?s"
    using r by (simp add: end_establishing_def Let_def)
  have e: "est_of (put_reg sid (r\<lparr>rk_establishing := None\<rparr>) ?s) = (est_of s)(sid := None)"
    by (simp add: fun_eq_iff est_of_def)
  have sid: "est_of s sid = Some eid" using r by (simp add: est_of_def)
  have l: "live (put_reg sid (r\<lparr>rk_establishing := None\<rparr>) ?s) = live s" by (simp add: live_def)
  have "count (mset (live s)) (i, e') = (if ((est_of s)(sid := None)) i = Some e' then 1 else 0)" for i e'
  proof -
    have c: "count ({#(sid, eid)#} + mset (live s)) (i, e') = (if est_of s i = Some e' then 1 else 0)"
      using inv by (simp add: est_inv_def)
    show ?thesis
    proof (cases "(i, e') = (sid, eid)")
      case True
      then show ?thesis using c sid by simp
    next
      case False
      then have "count {#(sid, eid)#} (i, e') = 0" by auto
      then have "count (mset (live s)) (i, e') = (if est_of s i = Some e' then 1 else 0)"
        using c by (simp only: count_union add_0)
      then show ?thesis using False sid by auto
    qed
  qed
  moreover have "\<forall>(cid, c) \<in> set (st_unsettled s). est_of s (cn_state c) = Some (cn_waits c)"
    using inv by (simp add: est_inv_def)
  moreover have "ids_ok (put_reg sid (r\<lparr>rk_establishing := None\<rparr>) ?s)"
    using inv r unfolding est_inv_def ids_ok_def e by auto
  moreover have "park_ok (put_reg sid (r\<lparr>rk_establishing := None\<rparr>) ?s)"
    using inv by (simp add: est_inv_def park_ok_def)
  ultimately show ?thesis unfolding s' est_inv_def e l using sid by auto
qed

lemma add_handles_frame [simp]:
  "get_reg (add_handles cs s) = get_reg s" "st_unsettled (add_handles cs s) = st_unsettled s"
  "st_requests (add_handles cs s) = st_requests s" "st_readyWaiters (add_handles cs s) = st_readyWaiters s"
  "st_woken (add_handles cs s) = st_woken s" "st_next (add_handles cs s) = st_next s"
  "st_tracker (add_handles cs s) = st_tracker s" "st_keys (add_handles cs s) = st_keys s"
  "st_writes (add_handles cs s) = st_writes s" "st_pageWaiters (add_handles cs s) = st_pageWaiters s"
  "st_sessionReady (add_handles cs s) = st_sessionReady s" "st_switchPending (add_handles cs s) = st_switchPending s"
  by (simp_all add: add_handles_def)

lemma est_inv_resolve: "est_inv {#(sid, eid)#} s \<Longrightarrow> est_inv {#} (fst (establish_resolve sid eid s))"
  by (simp add: establish_resolve_def Let_def) (erule est_inv_same [OF est_inv_end], rule est_same_update; simp)

lemma est_inv_reject: "est_inv {#(sid, eid)#} s \<Longrightarrow> est_inv {#} (fst (establish_reject sid eid err s))"
  by (simp add: establish_reject_def Let_def est_inv_end)

lemma est_inv_park:
  assumes "est_inv {#(sid, eid)#} s" "\<not> st_sessionReady s \<or> st_switchPending s > 0"
  shows "est_inv {#} (s\<lparr>st_readyWaiters := st_readyWaiters s @ [(sid, eid)]\<rparr>)"
proof -
  let ?s = "s\<lparr>st_readyWaiters := st_readyWaiters s @ [(sid, eid)]\<rparr>"
  have "{#} + mset (live ?s) = {#(sid, eid)#} + mset (live s)" by (simp add: live_def)
  moreover have "est_of ?s = est_of s" by (rule est_of_cong) simp
  moreover from this have "ids_ok ?s" using assms by (simp add: est_inv_def ids_ok_def)
  moreover have "park_ok ?s" using assms(2) by (simp add: park_ok_def)
  moreover have "st_unsettled ?s = st_unsettled s" by simp
  ultimately show ?thesis using assms(1) unfolding est_inv_def by presburger
qed

lemma est_inv_loop:
  assumes "est_inv {#(sid, eid)#} s"
  shows "est_inv {#} (fst (establish_loop_step sid eid s))"
proof -
  obtain r where r: "get_reg s sid = Some r" using est_inv_hand [OF assms] .
  have "est_inv {#} (fst (send_store msg ti (ForEstablish sid eid g) s))" for msg ti g
    using assms by (rule est_inv_send) simp
  then show ?thesis using r assms by (simp add: establish_loop_step_def est_inv_resolve est_inv_park)
qed

lemma est_inv_failure:
  assumes "est_inv {#(sid, eid)#} s"
  shows "est_inv {#} (fst (afterEstablishFailure err sid eid gen s))"
proof -
  obtain r where r: "get_reg s sid = Some r" using est_inv_hand [OF assms] .
  have "est_inv {#(sid, eid)#} (dropKey sid s)" using est_inv_same [OF assms est_same_dropKey] .
  then show ?thesis using r assms
    by (simp add: afterEstablishFailure_def est_inv_resolve est_inv_reject est_inv_loop)
qed

lemma est_inv_set_tracker: "est_inv X s \<Longrightarrow> est_inv X (s\<lparr>st_tracker := t\<rparr>)"
  by (erule est_inv_same) (rule est_same_update; simp)

lemma est_inv_tracker: "est_inv X s \<Longrightarrow> est_inv X (fst (run_tracker f s))"
  by (simp add: run_tracker_def est_inv_set_tracker split: prod.split)

lemma est_inv_put: "est_inv X s \<Longrightarrow> get_reg s sid = Some r0 \<Longrightarrow> rk_establishing r = rk_establishing r0
    \<Longrightarrow> est_inv X (put_reg sid r s)"
  by (rule est_inv_same [OF _ est_same_put])

lemma accepted_frame [simp]:
  "rk_establishing (accepted subId ok r) = rk_establishing r" "rk_callbacks (accepted subId ok r) = rk_callbacks r"
  "rk_closed (accepted subId ok r) = rk_closed r" "rk_key (accepted subId ok r) = rk_key r"
  "rk_subId (accepted subId ok r) = Some subId" "rk_kind (accepted subId ok r) = rk_kind r"
  by (simp_all add: accepted_def page_fields_def rk_key_def Let_def)

lemma page_fields_frame [simp]:
  "rk_establishing (page_fields ok r) = rk_establishing r" "rk_callbacks (page_fields ok r) = rk_callbacks r"
  "rk_closed (page_fields ok r) = rk_closed r" "rk_key (page_fields ok r) = rk_key r"
  "rk_subId (page_fields ok r) = rk_subId r" "rk_kind (page_fields ok r) = rk_kind r"
  by (simp_all add: page_fields_def rk_key_def)

lemma est_inv_accept:
  assumes "est_inv X s" "get_reg s sid = Some r"
  shows "est_inv X (fst (fst (acceptAck d sid r ok subId s)))"
proof -
  have "est_inv X (put_reg sid (accepted subId ok r) s)"
    by (rule est_inv_put [OF assms]) simp
  then show ?thesis unfolding acceptAck_def Let_def
    by (simp add: est_inv_set_tracker est_inv_tracker split: sum.split option.split)
qed

lemma get_reg_accept: "get_reg (fst (fst (acceptAck d sid r ok subId s))) sid = Some (accepted subId ok r)"
  by (simp add: acceptAck_def Let_def run_tracker_def split: sum.split option.split prod.split)

lemma est_inv_attempt:
  assumes inv: "est_inv {#(sid, eid)#} s"
  shows "est_inv {#} (fst (attemptEstablish d sid eid gen answer s))"
proof -
  obtain r where r: "get_reg s sid = Some r" using est_inv_hand [OF inv] .
  have drop: "est_inv {#(sid, eid)#} (dropKey sid s)" using est_inv_same [OF inv est_same_dropKey] .
  have acc: "est_inv {#(sid, eid)#} (fst (fst (acceptAck d sid r ok subId s)))" for ok subId
    by (rule est_inv_accept [OF inv r])
  have "est_inv {#} (fst (case acceptAck d sid r ok subId s of
      (st, None) \<Rightarrow> and_do st (establish_resolve sid eid)
    | (st, Some err) \<Rightarrow> and_do st (afterEstablishFailure err sid eid g)))" for ok subId g
    using acc [of ok subId] by (cases "acceptAck d sid r ok subId s"; cases "snd (acceptAck d sid r ok subId s)")
      (simp_all add: and_do_simps est_inv_resolve est_inv_failure)
  then show ?thesis using r inv drop
    by (simp add: attemptEstablish_def est_inv_failure est_inv_loop and_do_simps est_inv_resolve
        est_inv_unsubscribe Let_def split: sum.split option.split)
qed

lemma est_inv_ensure:
  \<comment> \<open>the consumer of \<open>attach\<close> is already in \<open>unsettled\<close>\<close>
  assumes inv: "est_inv {#} s" and r: "get_reg s sid = Some r"
    and s': "s' = s\<lparr>st_unsettled := om_set (st_unsettled s) cid
      \<lparr>cn_state = sid, cn_callback = cb, cn_waits = (case rk_establishing r of Some eid \<Rightarrow> eid | None \<Rightarrow> st_next s)\<rparr>\<rparr>"
  shows "est_inv {#} (fst (ensureEstablishing sid s'))"
proof -
  have sub: "c \<in> insert (cid, x) (set m)" if "c \<in> set (om_set m cid x)" for c x and m :: "(nat, consumer) omap"
    using that by (induction m) (auto split: if_splits)
  have g: "get_reg s' = get_reg s" unfolding s' by simp
  have e: "est_of s' = est_of s" by (rule est_of_cong) (rule g)
  have l: "live s' = live s" by (simp add: s' live_def)
  show ?thesis
  proof (cases "rk_establishing r")
    case (Some eid)
    then have "est_of s sid = Some eid" using r by (simp add: est_of_def)
    then have "\<forall>(cid, c) \<in> set (st_unsettled s'). est_of s (cn_state c) = Some (cn_waits c)"
      using inv Some sub unfolding s' est_inv_def by fastforce
    moreover have "ids_ok s'" using inv unfolding est_inv_def ids_ok_def e g by (simp add: s')
    moreover have "park_ok s'" using inv by (simp add: s' est_inv_def park_ok_def)
    ultimately have "est_inv {#} s'" using inv unfolding est_inv_def e l by blast
    then show ?thesis using Some r g by (simp add: ensureEstablishing_def)
  next
    case None
    let ?r = "r\<lparr>rk_establishing := Some (st_next s)\<rparr>"
    let ?s = "put_reg sid ?r (s'\<lparr>st_next := Suc (st_next s)\<rparr>)"
    have e': "est_of ?s = (est_of s)(sid := Some (st_next s))"
      using e by (simp add: est_of_def fun_eq_iff g)
    have no: "est_of s sid = None" using r None by (simp add: est_of_def)
    have fresh: "est_of s i \<noteq> Some (st_next s)" for i
      using inv unfolding est_inv_def ids_ok_def by blast
    have l': "live ?s = live s" using l by (simp add: live_def)
    have c: "count (mset (live s)) (i, e') = (if est_of s i = Some e' then 1 else 0)" for i e'
      using inv by (simp add: est_inv_def)
    have "count ({#(sid, st_next s)#} + mset (live ?s)) (i, e'') = (if est_of ?s i = Some e'' then 1 else 0)" for i e''
    proof (cases "(i, e'') = (sid, st_next s)")
      case True
      then show ?thesis using c [of i e''] fresh [of i] unfolding l' e' by simp
    next
      case False
      then have "count {#(sid, st_next s)#} (i, e'') = 0" by auto
      then have "count ({#(sid, st_next s)#} + mset (live ?s)) (i, e'') = (if est_of s i = Some e'' then 1 else 0)"
        using c [of i e''] unfolding l' by (simp only: count_union add_0)
      then show ?thesis using False no unfolding e' by auto
    qed
    moreover have "\<forall>(cid, c) \<in> set (st_unsettled ?s). est_of ?s (cn_state c) = Some (cn_waits c)"
    proof -
      have "est_of ?s (cn_state c) = Some (cn_waits c)" if c: "(k, c) \<in> set (st_unsettled ?s)" for k c
      proof -
        have "(k, c) = (cid, \<lparr>cn_state = sid, cn_callback = cb, cn_waits = st_next s\<rparr>) \<or> (k, c) \<in> set (st_unsettled s)"
          using sub [of "(k, c)" "st_unsettled s"] c None unfolding s' by auto
        moreover have "est_of s (cn_state c) = Some (cn_waits c)" if "(k, c) \<in> set (st_unsettled s)"
          using inv that unfolding est_inv_def by blast
        ultimately show ?thesis unfolding e' using no by auto
      qed
      then show ?thesis by blast
    qed
    moreover have "ids_ok ?s"
    proof -
      have i: "ids_ok s" using inv by (simp add: est_inv_def)
      have "st_requests ?s = st_requests s" "st_next ?s = Suc (st_next s)" by (simp_all add: s')
      moreover have "get_reg ?s i = None \<longleftrightarrow> get_reg s i = None" for i using g r by simp
      ultimately show ?thesis using i unfolding ids_ok_def e' by (auto simp: less_Suc_eq)
    qed
    moreover have "park_ok ?s" using inv by (simp add: s' est_inv_def park_ok_def)
    ultimately have "est_inv {#(sid, st_next s)#} ?s" unfolding est_inv_def by blast
    then have "est_inv {#} (fst (establish_loop_step sid (st_next s) ?s))" by (rule est_inv_loop)
    then show ?thesis using None r g by (simp add: ensureEstablishing_def Let_def s')
  qed
qed

lemma est_inv_update:
  "est_inv X s \<Longrightarrow> get_reg s' = get_reg s \<Longrightarrow> st_unsettled s' = st_unsettled s
    \<Longrightarrow> st_readyWaiters s' = st_readyWaiters s \<Longrightarrow> st_woken s' = st_woken s \<Longrightarrow> st_requests s' = st_requests s
    \<Longrightarrow> st_next s \<le> st_next s' \<Longrightarrow> st_sessionReady s' = st_sessionReady s
    \<Longrightarrow> st_switchPending s' = st_switchPending s \<Longrightarrow> est_inv X s'"
  by (rule est_inv_same [OF _ est_same_update])

lemma est_inv_attach:
  assumes inv: "est_inv {#} s"
  shows "est_inv {#} (fst (attach sid cb cid s))"
proof (cases "get_reg s sid")
  case (Some r)
  let ?s = "set_callbacks sid (rk_callbacks r @ [cb]) s"
  have 1: "est_inv {#} ?s" using est_inv_same [OF inv est_same_callbacks] .
  have r: "get_reg ?s sid = Some (r\<lparr>rk_callbacks := rk_callbacks r @ [cb]\<rparr>)" using Some by simp
  let ?c = "\<lparr>cn_state = sid, cn_callback = cb, cn_waits = (case rk_establishing r of Some eid \<Rightarrow> eid | None \<Rightarrow> st_next s)\<rparr>"
  have 2: "est_inv {#} (fst (ensureEstablishing sid (?s\<lparr>st_unsettled := om_set (st_unsettled ?s) cid ?c\<rparr>)))"
    by (rule est_inv_ensure [OF 1 r, where cid = cid and cb = cb]) (simp split: option.split)
  have 3: "est_inv {#} (add_handles cs ?s\<lparr>st_snapshots := q\<rparr>)" for cs q
    by (rule est_inv_update [OF 1]) simp_all
  have 4: "tracked_entry r ?s = None \<or> (\<exists>e. tracked_entry r ?s = Some e)" by (cases "tracked_entry r ?s") simp_all
  show ?thesis using Some 2 3 4 by (auto simp: attach_def Let_def)
qed (simp add: attach_def inv)

lemma est_inv_promise: "est_inv {#} s \<Longrightarrow> (\<And>w q. est_inv {#} q \<Longrightarrow> est_inv {#} (fst (f w q))) \<Longrightarrow> est_inv {#} (fst (new_promise f s))"
proof -
  assume "est_inv {#} s" "\<And>w q. est_inv {#} q \<Longrightarrow> est_inv {#} (fst (f w q))"
  moreover from this(1) have "est_inv {#} (s\<lparr>st_next := Suc (st_next s)\<rparr>)" by (rule est_inv_update) simp_all
  ultimately show ?thesis by (simp add: new_promise_def)
qed

lemma est_inv_acquire:
  assumes inv: "est_inv {#} s"
  shows "est_inv {#} (fst (acquireKey kind msg segs coll ob s))"
proof (cases "om_get (st_keys s) (canonical_key kind msg)")
  case None
  let ?sid = "st_next s"
  have new: "get_reg s ?sid = None" using inv unfolding est_inv_def ids_ok_def by (meson less_irrefl)
  have "est_of s ?sid = None" using new by (simp add: est_of_def)
  then have e: "(est_of s)(?sid := None) = est_of s" by (simp add: fun_eq_iff)
  let ?s = "\<lambda>r k. put_reg ?sid r (s\<lparr>st_next := Suc ?sid, st_keys := k\<rparr>)"
  have "est_inv {#} (?s r k)" if "rk_establishing r = None" for r k
  proof -
    have base: "est_of (s\<lparr>st_next := Suc ?sid, st_keys := k\<rparr>) = est_of s" by (rule est_of_cong) simp
    have e': "est_of (?s r k) = est_of s" using e that base by simp
    have "live (?s r k) = live s" by (simp add: live_def)
    moreover have "ids_ok (?s r k)"
      using inv new unfolding est_inv_def ids_ok_def e' by (auto simp: less_Suc_eq)
    moreover have "st_unsettled (?s r k) = st_unsettled s" by simp
    moreover have "park_ok (?s r k) = park_ok s" by (simp add: park_ok_def)
    ultimately show ?thesis using inv unfolding est_inv_def e' by presburger
  qed
  then show ?thesis using None by (simp add: acquireKey_def Let_def)
next
  case (Some sid)
  then show ?thesis using inv
    by (auto simp: acquireKey_def intro: est_inv_put split: option.splits)
qed

lemma est_inv_register: "est_inv {#} s \<Longrightarrow> est_inv {#} (fst (register_consumer kind msg segs coll ob cb s))"
  using est_inv_acquire [of s kind msg segs coll ob]
  by (cases "acquireKey kind msg segs coll ob s") (simp add: register_consumer_def est_inv_promise est_inv_attach)

lemma est_inv_write: "est_inv {#} s \<Longrightarrow> est_inv {#} (fst (dispatchWrite msg wid confirm fb result w s))"
proof -
  assume s: "est_inv {#} s"
  then have "est_inv {#} (s\<lparr>st_inFlightWrites := a, st_writes := b\<rparr>)" for a b by (rule est_inv_update) simp_all
  then show ?thesis using s
    by (simp add: dispatchWrite_def dispatchVoid_def est_inv_quiet_send split: option.split)
qed

lemma est_inv_store_write: "est_inv {#} s \<Longrightarrow> est_inv {#} (fst (store_write build confirm fb msecs rnd s))"
proof -
  have "est_inv {#} (q\<lparr>st_uuid := g\<rparr>)" if "est_inv {#} q" for q g using that by (rule est_inv_update) simp_all
  then show "est_inv {#} s \<Longrightarrow> ?thesis"
    by (auto simp: store_write_def intro!: est_inv_promise est_inv_write split: sum.split)
qed

lemma est_inv_create: "est_inv {#} s \<Longrightarrow> est_inv {#} (fst (store_create d coll v confirm m1 r1 m2 r2 s))"
proof -
  have "est_inv {#} (q\<lparr>st_uuid := g\<rparr>)" if "est_inv {#} q" for q g using that by (rule est_inv_update) simp_all
  then show "est_inv {#} s \<Longrightarrow> ?thesis"
    by (auto simp: store_create_def intro!: est_inv_promise est_inv_write split: sum.split prod.split)
qed

lemma est_inv_release: assumes "est_inv {#} s" shows "est_inv {#} (release sid cb s)"
proof (cases "get_reg s sid")
  case (Some r)
  have 1: "est_inv {#} (set_callbacks sid cbs s)" for cbs using est_inv_same [OF assms est_same_callbacks] .
  then have "est_inv {#} (put_reg sid (r\<lparr>rk_callbacks := c, rk_graceTimer := g\<rparr>) (set_callbacks sid cbs s))" for c g cbs
    by (rule est_inv_put [where ?r0.0 = "r\<lparr>rk_callbacks := cbs\<rparr>"]) (use Some in simp_all)
  then show ?thesis using Some 1 by (simp add: release_def Let_def)
qed (simp add: release_def assms)

lemma est_inv_writes: "est_inv X s \<Longrightarrow> est_inv X (s\<lparr>st_inFlightWrites := a\<rparr>)"
  by (erule est_inv_update) simp_all

lemma est_inv_settle: "est_inv {#} s \<Longrightarrow> est_inv {#} (fst (settle_commit w outcome s))"
  by (auto simp: settle_commit_def finish_write_def intro: est_inv_update split: option.split)

lemma est_inv_settle_all: "est_inv {#} s \<Longrightarrow> est_inv {#} (fst (settle_all ws e s))"
  by (induction ws arbitrary: s) (simp_all add: and_do_simps est_inv_settle)

lemma est_inv_rejectAll: "est_inv {#} s \<Longrightarrow> est_inv {#} (fst (rejectAllInFlight s))"
  by (simp add: rejectAllInFlight_def Let_def and_do_simps est_inv_writes est_inv_settle_all)

lemma est_inv_loadMore: assumes "est_inv {#} s" shows "est_inv {#} (fst (loadMore d sid w s))"
proof (cases "get_reg s sid")
  case (Some r)
  have 1: "est_inv {#} (s\<lparr>st_pageWaiters := q\<rparr>)" for q using assms by (rule est_inv_update) simp_all
  have "est_inv {#} (put_reg sid (r\<lparr>rk_inFlight := x\<rparr>) s)" for x by (rule est_inv_put [OF assms Some]) simp
  then show ?thesis using Some 1 assms
    by (simp add: loadMore_def est_inv_quiet_send split: option.split sum.split)
qed (simp add: loadMore_def assms)

lemma est_inv_waiters: "est_inv {#} s \<Longrightarrow> est_inv {#} (fst (run_waiters d ws s))"
proof (induction ws arbitrary: s)
  case (Cons x ws)
  then show ?case by (cases x) (simp add: and_do_simps est_inv_loadMore)
qed simp

lemma est_inv_page_done: "est_inv {#} s \<Longrightarrow> est_inv {#} (page_done sid s)"
  by (auto simp: page_done_def intro: est_inv_put split: option.split)

lemma est_inv_page:
  assumes "est_inv {#} s"
  shows "est_inv {#} (fst (page_answered d sid w subId answer s))"
proof (cases "get_reg s sid")
  case (Some r)
  let ?s = "s\<lparr>st_pageWaiters := filter (\<lambda>(i, _). i \<noteq> sid) (st_pageWaiters s)\<rparr>"
  have 1: "est_inv {#} ?s" using assms by (rule est_inv_update) simp_all
  have 2: "est_inv {#} (put_reg sid (page_fields ok r) ?s)" for ok
    by (rule est_inv_put [OF 1, of sid r]) (use Some in simp_all)
  show ?thesis using Some 1 2
    by (simp add: page_answered_def Let_def and_do_simps est_inv_page_done est_inv_waiters est_inv_tracker
        split: sum.split option.split)
qed (simp add: page_answered_def assms)

lemma est_inv_wake: "est_inv X s \<Longrightarrow> est_inv X (wakeReady s)"
  by (erule est_inv_same) (simp add: est_same_def wakeReady_def live_def est_of_def fun_eq_iff park_ok_def)

lemma est_inv_drop_callback: "est_inv X s \<Longrightarrow> est_inv X (drop_callback sid cb s)"
  by (auto simp: drop_callback_def intro: est_inv_same est_same_callbacks split: option.split)

lemma est_inv_teardown_all: "est_inv X s \<Longrightarrow> est_inv X (fst (teardown_all sids s))"
  by (induction sids arbitrary: s) (simp_all add: and_do_simps est_inv_teardown)

lemma est_inv_rejectPending: assumes "est_inv X s" shows "est_inv X (fst (rejectPending s))"
proof -
  have "est_inv X (foldl (\<lambda>s (_, c). drop_callback (cn_state c) (cn_callback c) s) s cs)" for cs
    by (rule foldl_invariant [where P = "est_inv X"]) (simp_all add: assms split_def est_inv_drop_callback)
  moreover have "est_inv X (q\<lparr>st_unsettled := []\<rparr>)" if "est_inv X q" for q
    by (rule est_inv_same [OF that]) (simp add: est_same_def live_def est_of_def fun_eq_iff park_ok_def)
  ultimately show ?thesis
    unfolding rejectPending_def Let_def and_do_simps fst_conv
    by (intro est_inv_wake est_inv_teardown_all) blast
qed

lemma est_inv_response: assumes "est_inv {#} s" shows "est_inv {#} (fst (store_response d t answer s))"
proof (cases "om_get (st_requests s) t")
  case (Some why)
  let ?q = "s\<lparr>st_requests := om_delete (st_requests s) t\<rparr>"
  have 1: "est_inv (mset (est_purpose why)) ?q" by (rule est_inv_answer [OF assms Some])
  have "est_inv {#} (q\<lparr>st_inFlightWrites := a, st_writes := b\<rparr>)" "est_inv {#} (q\<lparr>st_writes := b\<rparr>)" if "est_inv {#} q" for q a b
    using that by (rule est_inv_update; simp)+
  then have "est_inv {#} (fst (commit_answered w answer q))" if "est_inv {#} q" for q w
    using that by (auto simp: commit_answered_def finish_write_def split: option.split sum.split)
  then show ?thesis using Some 1
    by (cases why) (simp_all add: store_response_def Let_def est_inv_attempt est_inv_page)
qed (simp add: store_response_def assms)

lemma est_inv_remap: "est_inv X s \<Longrightarrow> est_inv X (remap_regs es s)"
proof (induction es arbitrary: s)
  case (Cons e es)
  have "est_inv X (onRemap sid n s)" for sid n
    using Cons.prems by (auto simp: onRemap_def intro: est_inv_put split: option.split)
  then show ?case using Cons by (cases e) simp_all
qed simp

lemma est_inv_step:
  assumes inv: "est_inv {#} s"
  shows "est_inv {#} (fst (store_step ev s))"
proof -
  have upd: "est_inv {#} s'" if "get_reg s' = get_reg s" "st_unsettled s' = st_unsettled s" "st_readyWaiters s' = st_readyWaiters s"
      "st_woken s' = st_woken s" "st_requests s' = st_requests s" "st_next s' = st_next s"
      "st_sessionReady s' = st_sessionReady s" "st_switchPending s' = st_switchPending s" for s'
    by (rule est_inv_update [OF inv]) (use that in simp_all)
  note gate = est_same_def wakeReady_def live_def est_of_def fun_eq_iff park_ok_def
  show ?thesis
  proof (cases ev)
    case (StListen path cb)
    then show ?thesis using inv
      by (cases "buildListen path") (simp_all add: thrown_or_def store_listen_def est_inv_register split_beta)
  next
    case (StSubscribe coll opts cb)
    then show ?thesis using inv
      by (cases "buildSubscribe coll opts") (simp_all add: thrown_or_def store_subscribe_def est_inv_register split_beta)
  next
    case (StRelease cid)
    have "est_inv {#} (s\<lparr>st_handles := h\<rparr>)" for h by (rule upd) simp_all
    then show ?thesis using StRelease inv by (simp add: release_handle_def est_inv_release split: option.split)
  next
    case (StGrace sid)
    have "est_inv {#} (put_reg sid (r\<lparr>rk_graceTimer := False\<rparr>) s)" if "get_reg s sid = Some r" for r
      by (rule est_inv_put [OF inv that]) simp
    then show ?thesis using inv StGrace by (simp add: grace_fire_def est_inv_teardown split: option.split)
  next
    case StSnapshot
    have "est_inv {#} (s\<lparr>st_snapshots := q\<rparr>)" for q by (rule upd) simp_all
    then show ?thesis using StSnapshot inv by (simp add: snapshot_fire_def split: list.split prod.split)
  next
    case (StLoadMore d cid)
    then show ?thesis using inv
      by (auto simp: handle_loadMore_def intro: est_inv_promise est_inv_loadMore split: option.split)
  next
    case (StInbound m)
    then show ?thesis using inv
      by (cases m) (auto simp: commit_message_def est_inv_settle est_inv_writes split: option.split)
  next
    case StReady
    have "est_same s (wakeReady (s\<lparr>st_sessionReady := True\<rparr>))" by (simp add: gate)
    then show ?thesis using StReady est_inv_same [OF inv] by (simp add: markSessionReady_def Let_def)
  next
    case StResume
    show ?thesis
    proof (cases "st_woken s")
      case (Cons x rest)
      obtain sid eid where x: "x = (sid, eid)" by (cases x)
      let ?s = "s\<lparr>st_woken := rest\<rparr>"
      have "{#(sid, eid)#} + mset (live ?s) = {#} + mset (live s)" using Cons x by (simp add: live_def)
      moreover have "est_of ?s = est_of s" by (rule est_of_cong) simp
      moreover from this have "ids_ok ?s" using inv by (simp add: est_inv_def ids_ok_def)
      moreover have "st_unsettled ?s = st_unsettled s" by simp
      moreover have "park_ok ?s = park_ok s" by (simp add: park_ok_def)
      ultimately have "est_inv {#(sid, eid)#} ?s" using inv unfolding est_inv_def by presburger
      then show ?thesis using StResume Cons x by (simp add: resume_def est_inv_loop)
    qed (simp add: StResume resume_def inv)
  next
    case StSwitchRollback
    have "est_same s (rollbackNamespaceSwitch s)" by (simp add: rollbackNamespaceSwitch_def gate)
    then show ?thesis using StSwitchRollback est_inv_same [OF inv] by simp
  next
    case StDropped
    have "est_same s (markNotReady s)" by (simp add: markNotReady_def gate)
    then have "est_inv {#} (markNotReady s)" by (rule est_inv_same [OF inv])
    then show ?thesis using StDropped by (simp add: est_inv_rejectAll)
  next
    case StSwitchBegin
    have "est_same s (beginNamespaceSwitch s)" by (auto simp: beginNamespaceSwitch_def gate)
    then show ?thesis using StSwitchBegin est_inv_same [OF inv] by simp
  next
    case StSwitchCommit
    have "est_same s (commitNamespaceSwitch s)" by (simp add: commitNamespaceSwitch_def markNotReady_def gate)
    then show ?thesis using StSwitchCommit est_inv_same [OF inv] by simp
  next
    case (StReconnect m before)
    then show ?thesis using inv
      by (auto simp: store_reconnect_def intro: est_inv_remap est_inv_set_tracker split: prod.split)
  next
    case (StGet path)
    then show ?thesis using inv
      by (auto simp: store_get_def intro!: est_inv_promise est_inv_quiet_send split: sum.split prod.split)
  next
    case (StQuery coll opts)
    then show ?thesis using inv
      by (auto simp: store_query_def intro!: est_inv_promise est_inv_quiet_send split: sum.split prod.split)
  qed (use inv in \<open>simp_all add: store_set_def store_remove_def store_batch_def est_inv_store_write est_inv_create
      est_inv_response est_inv_rejectAll est_inv_rejectPending est_inv_tracker est_inv_set_tracker\<close>)
qed

lemma est_inv_run: "store_run g evs s es \<Longrightarrow> est_inv {#} s"
proof (induction rule: store_run.induct)
  case start
  then show ?case by (simp add: est_inv_def new_store_def live_def est_of_def get_reg_def ids_ok_def park_ok_def)
next
  case (step evs s es ev s' es')
  then show ?case using est_inv_step [of s ev] by simp
qed

lemma live_distinct:
  assumes "est_inv {#} s"
  shows "distinct (map fst (live s))"
proof -
  have c: "count (mset (live s)) (sid, eid) = (if est_of s sid = Some eid then 1 else 0)" for sid eid
    using assms by (simp add: est_inv_def)
  then have "distinct (live s)"
    by (metis count_mset_0_iff distinct_count_atmost_1 prod.exhaust_sel set_mset_mset zero_neq_one)
  moreover have "inj_on fst (set (live s))"
  proof (rule inj_onI)
    fix x y assume x: "x \<in> set (live s)" and y: "y \<in> set (live s)" and eq: "fst x = fst y"
    obtain sid e e' where p: "x = (sid, e)" "y = (sid, e')" using eq by (cases x; cases y) simp
    then have "count (mset (live s)) (sid, e) \<noteq> 0" "count (mset (live s)) (sid, e') \<noteq> 0" using x y by simp_all
    then have "est_of s sid = Some e" "est_of s sid = Some e'"
      using c [of sid e] c [of sid e'] by (metis (full_types))+
    then show "x = y" using p by simp
  qed
  ultimately show ?thesis by (simp add: distinct_map)
qed

text \<open>C38: No registration is ever left waiting for nothing: in every reachable state each promise
  of \<open>listen\<close> or \<open>subscribe\<close> that is not settled waits for an establishment that is under way,
  queued until the session is ready, woken, or with its request unanswered; a registration has
  at most one under way, and one is queued only while the session is not ready or a namespace
  switch is pending. So once the session is ready and nothing is in flight, every registration
  promise has been settled.\<close>

theorem registrations_never_stranded:
  assumes "store_run g evs s es"
  shows "(\<forall>(cid, c) \<in> set (st_unsettled s). (cn_state c, cn_waits c) \<in> set (live s))
    \<and> distinct (map fst (live s))
    \<and> (st_sessionReady s \<and> st_switchPending s \<le> 0 \<longrightarrow> st_readyWaiters s = [])
    \<and> (st_sessionReady s \<and> st_switchPending s \<le> 0 \<and> st_woken s = [] \<and> est_reqs (st_requests s) = [] \<longrightarrow> st_unsettled s = [])"
proof -
  have inv: "est_inv {#} s" by (rule est_inv_run [OF assms])
  have in_live: "(cn_state c, cn_waits c) \<in> set (live s)" if "(cid, c) \<in> set (st_unsettled s)" for cid c
  proof -
    have "est_of s (cn_state c) = Some (cn_waits c)" using inv that unfolding est_inv_def by blast
    then have "count (mset (live s)) (cn_state c, cn_waits c) = 1" using inv unfolding est_inv_def by simp
    then show ?thesis by (metis count_mset_0_iff zero_neq_one)
  qed
  have park: "st_readyWaiters s = []" if "st_sessionReady s" "st_switchPending s \<le> 0"
    using inv that by (simp add: est_inv_def park_ok_def)
  have "st_unsettled s = []" if "live s = []"
    using in_live that by (cases "st_unsettled s") auto
  then show ?thesis using in_live park live_distinct [OF inv] by (auto simp: live_def)
qed

theorem registrations_never_stranded_witness:
  "\<exists>s es. store_run \<lparr>lastMsecs = 0, counter = 0\<rparr>
      [(StListen (PSegs [''users'', ''a'']) 7, new_store \<lparr>lastMsecs = 0, counter = 0\<rparr>)] s es
    \<and> distinct (map fst (live s)) \<and> live s \<noteq> []"
proof -
  let ?g = "\<lparr>lastMsecs = 0, counter = 0\<rparr>"
  obtain s es where st: "store_step (StListen (PSegs [''users'', ''a'']) 7) (new_store ?g) = (s, es)" by fastforce
  have "store_run ?g ([] @ [(StListen (PSegs [''users'', ''a'']) 7, new_store ?g)]) s ([] @ es)"
    by (rule store_run.step [OF store_run.start _ st]) simp
  moreover have "live (fst (store_step (StListen (PSegs [''users'', ''a'']) 7) (new_store ?g))) \<noteq> []"
    by code_simp
  ultimately show ?thesis using registrations_never_stranded [of ?g] st by auto
qed

end
