(* ===== verification/Connection.thy ===== *)
theory Connection
  imports ConnWireSpec Requests
begin

text \<open>
  \<open>connection.ts\<close>: the connection manager as a step machine. Its state is the manager's own
  fields, the sockets it made and the tasks that its promises have scheduled; an event is a
  call of its API, something the host reports (a ticket, a socket event, a timer, a token) or
  the next microtask. What it does to the outside is a list of effects. \<open>Math.random()\<close> is an
  argument. An event handler is a number; a handler that calls the manager back while an event
  is emitted is not modelled.
\<close>

section \<open>Errors of a closed connection\<close>

definition SERVER_DISCONNECT_CODES :: "(string \<times> string) list" where
  "SERVER_DISCONNECT_CODES = map (\<lambda>c. (c, c))
     [''AUTH_FAILED'', ''TOKEN_EXPIRED'', ''SERVER_SHUTDOWN'', ''BACKPRESSURE_LIMIT'', ''MAX_CONNECTIONS'']"

definition SOCKET_CLOSE_CODES :: "(nat \<times> string) list" where
  "SOCKET_CLOSE_CODES =
     [(4001, ''AUTH_FAILED''), (4002, ''SERVER_SHUTDOWN''), (4004, ''BACKPRESSURE_LIMIT''),
      (4005, ''MAX_CONNECTIONS''), (4006, ''TOKEN_EXPIRED'')]"

definition plain_server_error :: "string \<Rightarrow> string \<Rightarrow> zync_error" where
  \<comment> \<open>\<open>ZyncBaseError.fromServerResponse({ code, message })\<close>\<close>
  "plain_server_error code msg = fromServerResponse
     \<lparr>se_code = code, se_message = msg, se_retryAfter = None, se_requestId = None, se_path = None, se_details = None\<rparr>"

definition serverDisconnectError :: "string \<Rightarrow> string \<Rightarrow> zync_error" where
  "serverDisconnectError code msg =
     plain_server_error (opt_or (map_of SERVER_DISCONNECT_CODES code) ''INTERNAL_ERROR'')
       (if msg \<noteq> [] then msg else code)"

definition socketCloseError :: "nat \<Rightarrow> string \<Rightarrow> zync_error" where
  "socketCloseError code reason =
     (let errorCode = opt_or (map_of SOCKET_CLOSE_CODES code) ''CONNECTION_FAILED'' in
      plain_server_error errorCode
        (if reason \<noteq> [] then reason
         else if errorCode = ''CONNECTION_FAILED'' then ''Connection closed'' else errorCode))"

section \<open>Options\<close>

definition MAX_TIMER_DELAY_MS :: rat where
  "MAX_TIMER_DELAY_MS = 2147483647"

record liveness_options =
  lo_enabled :: "jv option"
  lo_intervalMs :: "jv option"
  lo_timeoutMs :: "jv option"

record liveness =
  lv_enabled :: bool
  lv_intervalMs :: rat
  lv_timeoutMs :: rat

definition default_to :: "jv option \<Rightarrow> jv \<Rightarrow> jv" where
  \<comment> \<open>\<open>v ?? d\<close>\<close>
  "default_to v d = (if nullish v then d else the v)"

definition safe_integer :: "jv \<Rightarrow> rat option" where
  \<comment> \<open>\<open>Number.isSafeInteger(v)\<close>, with the number\<close>
  "safe_integer v = (case v of JNum (Fin r) \<Rightarrow> if is_safe_integer (Fin r) then Some r else None | _ \<Rightarrow> None)"

definition resolveLivenessOptions :: "liveness_options option \<Rightarrow> thrown + liveness" where
  "resolveLivenessOptions options =
     (let opt = (\<lambda>f. Option.bind options f);
          enabled = default_to (opt lo_enabled) (JBool True);
          intervalMs = safe_integer (default_to (opt lo_intervalMs) (JNum (Fin 15000)));
          timeoutMs = safe_integer (default_to (opt lo_timeoutMs) (JNum (Fin 10000)))
      in case (case opt lo_enabled of None \<Rightarrow> Some True | Some (JBool b) \<Rightarrow> Some b | Some _ \<Rightarrow> None) of
           None \<Rightarrow> Inl (TError ''liveness.enabled must be a boolean'')
         | Some _ \<Rightarrow>
             (case intervalMs of
                None \<Rightarrow> Inl (TError ''liveness.intervalMs must be an integer of at least 1000'')
              | Some i \<Rightarrow>
                  if i < 1000 then Inl (TError ''liveness.intervalMs must be an integer of at least 1000'')
                  else case timeoutMs of
                      None \<Rightarrow> Inl (TError ''liveness.timeoutMs must be an integer from 1 to 2147483647'')
                    | Some t \<Rightarrow>
                        if t < 1 \<or> t > MAX_TIMER_DELAY_MS
                        then Inl (TError ''liveness.timeoutMs must be an integer from 1 to 2147483647'')
                        else Inr \<lparr>lv_enabled = (enabled = JBool True), lv_intervalMs = i, lv_timeoutMs = t\<rparr>))"

record client_options =
  op_retry :: retry_options
  op_reconnect :: "bool option"
  op_maxReconnectAttempts :: "jnum option"
  op_storeNamespace :: "string option"
  op_presenceNamespace :: "string option"
  op_liveness :: "liveness_options option"
  op_tokenProvider :: bool                       \<comment> \<open>\<open>auth && "tokenProvider" in auth\<close>\<close>

section \<open>State\<close>

datatype ready_state = SockConnecting | SockOpen | SockClosing | SockClosed

record socket =
  so_state :: ready_state
  so_onclose :: bool             \<comment> \<open>whether the handlers are still set\<close>
  so_onerror :: bool
  so_onmessage :: bool
  so_call :: nat                 \<comment> \<open>the call of \<open>connect\<close> that made it\<close>

datatype conn_status = Connecting | Connected | Reconnecting | Disconnected

datatype liveness_timer =
    Probe rat                    \<comment> \<open>what remains until the next ping\<close>
  | PingTimeout nat nat          \<comment> \<open>the ping's id and the socket it was sent on\<close>

text \<open>What follows when a request's promise is settled.\<close>

datatype requester = ByCaller nat | ByHandshake nat | ByRefresh

datatype call_purpose =
    ForCaller nat
  | ForStoreNamespace string requester
  | ForPresenceNamespace string requester
  | ForAuthRefresh requester

record call =
  ca_message :: outbound
  ca_table :: "nat option"
  ca_attempt :: nat
  ca_retry :: bool               \<comment> \<open>false for \<open>dispatchNoRetry\<close>\<close>
  ca_purpose :: call_purpose

record conn =
  cm_options :: client_options
  cm_liveness :: liveness
  cm_dict :: dict
  cm_ws :: "nat option"
  cm_sockets :: "socket list"
  cm_connects :: nat                                   \<comment> \<open>calls of \<open>connect\<close> so far\<close>
  cm_pending :: "(props, thrown, pending_context) pending"
  cm_listeners :: "(string, nat list) omap"
  cm_messageHandler :: "nat option"
  cm_deltaHandler :: "nat option"
  cm_presenceBroadcastHandler :: "nat option"
  cm_presenceUserIdHandler :: "nat option"
  cm_actionForwardHandler :: "nat option"
  cm_reconnectAttempt :: nat
  cm_reconnectTimer :: "rat option"
  cm_intentionalDisconnect :: bool
  cm_status :: conn_status
  cm_storeNamespace :: string
  cm_presenceNamespace :: string
  cm_chains :: "jv list list list"                     \<comment> \<open>the frames each processing promise has queued\<close>
  cm_schemaSyncs :: nat                                \<comment> \<open>how many schema promises were made; the last is the current\<close>
  cm_schemaSyncOpen :: bool                            \<comment> \<open>\<open>schemaSyncResolve\<close> and \<open>schemaSyncReject\<close> are set\<close>
  cm_refreshInFlight :: bool
  cm_tokenAwaited :: bool                              \<comment> \<open>the token provider has not answered yet\<close>
  cm_livenessTimer :: "liveness_timer option"
  cm_livenessPingId :: "nat option"
  cm_pendingDisconnectError :: "zync_error option"
  cm_waiting :: "(nat, call) omap"                     \<comment> \<open>the calls that await a request, by its promise\<close>
  cm_seen :: nat                                       \<comment> \<open>settlings of requests whose continuation has run\<close>
  cm_sleeping :: "(call \<times> thrown \<times> jnum) list"          \<comment> \<open>calls that wait to be retried, why and how long\<close>
  cm_done :: "(call \<times> (thrown + props)) list"          \<comment> \<open>calls whose own promise is settled\<close>
  cm_acquiring :: "nat list"                           \<comment> \<open>the calls of \<open>connect\<close> that await a ticket\<close>

record disconnect_detail =
  dd_code :: string
  dd_reason :: string
  dd_category :: string
  dd_retryable :: bool
  dd_attempt :: nat

datatype lifecycle =
    EvStatusChange conn_status conn_status nat "rat option" "thrown option"
      \<comment> \<open>the status, the one before, \<open>retryCount\<close>, \<open>retryIn\<close> and the error\<close>
  | EvConnected
  | EvDisconnected disconnect_detail
  | EvReconnecting nat rat
  | EvError thrown
  | EvSchemaChange
  | EvTokenExpired

fun event_name :: "lifecycle \<Rightarrow> string" where
  "event_name (EvStatusChange _ _ _ _ _) = ''statusChange''"
| "event_name EvConnected = ''connected''"
| "event_name (EvDisconnected _) = ''disconnected''"
| "event_name (EvReconnecting _ _) = ''reconnecting''"
| "event_name (EvError _) = ''error''"
| "event_name EvSchemaChange = ''schemaChange''"
| "event_name EvTokenExpired = ''tokenExpired''"

datatype conn_effect =
    CEmit "nat list" lifecycle                         \<comment> \<open>the handlers called, and with what\<close>
  | CTransmit nat encoded                              \<comment> \<open>bytes sent on a socket\<close>
  | COpenSocket nat string                             \<comment> \<open>a new socket, with the ticket\<close>
  | CCloseSocket nat
  | CAcquireTicket nat
  | CConnectResult nat "thrown + unit"
  | CSettle nat "thrown + props"                       \<comment> \<open>the promise of an API call\<close>
  | CThrow nat thrown                                  \<comment> \<open>an API call throws\<close>
  | CSchemaSync nat "thrown + unit"                    \<comment> \<open>a schema promise is settled\<close>
  | CHandle nat inbound                                \<comment> \<open>a message handler is called\<close>
  | CUserId nat string
  | CTokenProvider

type_synonym cstep = "conn \<times> conn_effect list"

definition c_then :: "cstep \<Rightarrow> (conn \<Rightarrow> cstep) \<Rightarrow> cstep" where
  "c_then r f = (case r of (c, es) \<Rightarrow> case f c of (c', es') \<Rightarrow> (c', es @ es'))"

definition new_conn :: "client_options \<Rightarrow> thrown + conn" where
  "new_conn options =
     and_then (resolveLivenessOptions (op_liveness options)) (\<lambda>lv.
       let ns = opt_or (op_storeNamespace options) ''public'' in
       Inr \<lparr>cm_options = options, cm_liveness = lv, cm_dict = new_dict, cm_ws = None, cm_sockets = [],
         cm_connects = 0, cm_pending = pending_init, cm_listeners = [], cm_messageHandler = None,
         cm_deltaHandler = None, cm_presenceBroadcastHandler = None, cm_presenceUserIdHandler = None,
         cm_actionForwardHandler = None, cm_reconnectAttempt = 0, cm_reconnectTimer = None,
         cm_intentionalDisconnect = False, cm_status = Disconnected, cm_storeNamespace = ns,
         cm_presenceNamespace = opt_or (op_presenceNamespace options) ns, cm_chains = [[]],
         cm_schemaSyncs = 0, cm_schemaSyncOpen = False, cm_refreshInFlight = False, cm_tokenAwaited = False,
         cm_livenessTimer = None, cm_livenessPingId = None, cm_pendingDisconnectError = None,
         cm_waiting = [], cm_seen = 0, cm_sleeping = [], cm_done = [], cm_acquiring = []\<rparr>)"

section \<open>Events and status\<close>

definition listeners_of :: "string \<Rightarrow> conn \<Rightarrow> nat list" where
  "listeners_of ev c = opt_or (om_get (cm_listeners c) ev) []"

definition listen_on :: "string \<Rightarrow> nat \<Rightarrow> conn \<Rightarrow> conn" where
  "listen_on ev h c = c\<lparr>cm_listeners := om_set (cm_listeners c) ev (listeners_of ev c @ [h])\<rparr>"

definition listen_off :: "string \<Rightarrow> nat \<Rightarrow> conn \<Rightarrow> conn" where
  \<comment> \<open>removes the first occurrence\<close>
  "listen_off ev h c =
     (case om_get (cm_listeners c) ev of
        None \<Rightarrow> c
      | Some hs \<Rightarrow> c\<lparr>cm_listeners := om_set (cm_listeners c) ev (remove1 h hs)\<rparr>)"

datatype handler_kind = OnMessage | OnDelta | OnPresenceBroadcast | OnPresenceUserId | OnActionForward

fun set_handler :: "handler_kind \<Rightarrow> nat \<Rightarrow> conn \<Rightarrow> conn" where
  "set_handler OnMessage h c = c\<lparr>cm_messageHandler := Some h\<rparr>"
| "set_handler OnDelta h c = c\<lparr>cm_deltaHandler := Some h\<rparr>"
| "set_handler OnPresenceBroadcast h c = c\<lparr>cm_presenceBroadcastHandler := Some h\<rparr>"
| "set_handler OnPresenceUserId h c = c\<lparr>cm_presenceUserIdHandler := Some h\<rparr>"
| "set_handler OnActionForward h c = c\<lparr>cm_actionForwardHandler := Some h\<rparr>"

definition emit :: "lifecycle \<Rightarrow> conn \<Rightarrow> cstep" where
  "emit ev c = (c, [CEmit (listeners_of (event_name ev) c) ev])"

definition setStatus :: "conn_status \<Rightarrow> nat option \<Rightarrow> rat option \<Rightarrow> thrown option \<Rightarrow> conn \<Rightarrow> cstep" where
  "setStatus status retryCount retryIn error c =
     emit (EvStatusChange status (cm_status c) (opt_or retryCount (cm_reconnectAttempt c)) retryIn error)
       (c\<lparr>cm_status := status\<rparr>)"

definition resetSchemaSyncPromise :: "conn \<Rightarrow> conn" where
  "resetSchemaSyncPromise c = c\<lparr>cm_schemaSyncs := Suc (cm_schemaSyncs c), cm_schemaSyncOpen := True\<rparr>"

definition settle_schema_sync :: "thrown + unit \<Rightarrow> conn \<Rightarrow> cstep" where
  \<comment> \<open>\<open>resolveSchemaSync\<close> and \<open>rejectSchemaSync\<close>\<close>
  "settle_schema_sync r c =
     (if cm_schemaSyncOpen c then (c\<lparr>cm_schemaSyncOpen := False\<rparr>, [CSchemaSync (cm_schemaSyncs c) r]) else (c, []))"

abbreviation resolveSchemaSync :: "conn \<Rightarrow> cstep" where
  "resolveSchemaSync \<equiv> settle_schema_sync (Inr ())"

abbreviation rejectSchemaSync :: "thrown \<Rightarrow> conn \<Rightarrow> cstep" where
  "rejectSchemaSync reason \<equiv> settle_schema_sync (Inl reason)"

definition isSchemaReady :: "conn \<Rightarrow> bool" where
  "isSchemaReady c \<longleftrightarrow> cm_status c = Connected \<and> \<not> cm_schemaSyncOpen c \<and> ready (cm_dict c)"

section \<open>Sockets\<close>

definition sock :: "nat \<Rightarrow> conn \<Rightarrow> socket" where
  "sock i c = cm_sockets c ! i"

definition put_sock :: "nat \<Rightarrow> socket \<Rightarrow> conn \<Rightarrow> conn" where
  "put_sock i so c = c\<lparr>cm_sockets := (cm_sockets c)[i := so]\<rparr>"

definition sock_open :: "nat \<Rightarrow> conn \<Rightarrow> bool" where
  "sock_open i c \<longleftrightarrow> so_state (sock i c) = SockOpen"

definition ws_close :: "nat \<Rightarrow> conn \<Rightarrow> cstep" where
  \<comment> \<open>\<open>ws.close()\<close>: nothing happens to a socket that is closing or closed\<close>
  "ws_close i c =
     (if so_state (sock i c) = SockConnecting \<or> sock_open i c
      then (put_sock i ((sock i c)\<lparr>so_state := SockClosing\<rparr>) c, [CCloseSocket i]) else (c, []))"

definition not_connected_error :: zync_error where
  "not_connected_error = new_ZyncBaseError ''WebSocket is not connected'' ''CONNECTION_FAILED'' ''network'' True"

definition conn_send :: "encoded \<Rightarrow> conn \<Rightarrow> thrown + conn_effect" where
  "conn_send bytes c =
     (case cm_ws c of
        Some i \<Rightarrow> if sock_open i c then Inr (CTransmit i bytes) else Inl (TZync not_connected_error)
      | None \<Rightarrow> Inl (TZync not_connected_error))"

definition teardownSocket :: "conn \<Rightarrow> cstep" where
  "teardownSocket c =
     (case cm_ws c of
        None \<Rightarrow> (c, [])
      | Some i \<Rightarrow> ws_close i (put_sock i ((sock i c)\<lparr>so_onclose := False, so_onerror := False, so_onmessage := False\<rparr>)
                    (c\<lparr>cm_ws := None\<rparr>)))"

section \<open>Liveness\<close>

definition stopLiveness :: "conn \<Rightarrow> conn" where
  "stopLiveness c = c\<lparr>cm_livenessTimer := None, cm_livenessPingId := None\<rparr>"

definition scheduleLivenessProbe :: "rat \<Rightarrow> conn \<Rightarrow> conn" where
  "scheduleLivenessProbe delayMs c =
     (if \<not> lv_enabled (cm_liveness c) \<or> cm_ws c = None \<or> cm_intentionalDisconnect c then c
      else c\<lparr>cm_livenessTimer := Some (Probe delayMs)\<rparr>)"

definition startLiveness :: "rat \<Rightarrow> conn \<Rightarrow> conn" where
  "startLiveness rnd c =
     (let c = stopLiveness c in
      if lv_enabled (cm_liveness c) then scheduleLivenessProbe (rnd * lv_intervalMs (cm_liveness c)) c else c)"

definition take_id :: "conn \<Rightarrow> nat \<times> conn" where
  "take_id c = (case nextId (cm_pending c) of (rid, pend) \<Rightarrow> (rid, c\<lparr>cm_pending := pend\<rparr>))"

definition sendLivenessPing :: "conn \<Rightarrow> cstep" where
  "sendLivenessPing c =
     (case cm_ws c of
        None \<Rightarrow> (c, [])
      | Some i \<Rightarrow>
          if \<not> sock_open i c \<or> cm_intentionalDisconnect c then (c, [])
          else
            (case take_id c of (rid, c) \<Rightarrow>
             case encode_outbound (cm_dict c) OutPing rid None of
               Inl err \<Rightarrow> c_then (emit (EvError err) c) (ws_close i)
             | Inr bytes \<Rightarrow>
                 let c = c\<lparr>cm_livenessPingId := Some rid\<rparr> in
                 (case conn_send bytes c of
                    Inl _ \<Rightarrow> ws_close i c
                  | Inr e \<Rightarrow> (c\<lparr>cm_livenessTimer := Some (PingTimeout rid i)\<rparr>, [e]))))"

definition liveness_fire :: "conn \<Rightarrow> cstep" where
  \<comment> \<open>the callbacks of \<open>livenessTimer\<close>\<close>
  "liveness_fire c =
     (let c' = c\<lparr>cm_livenessTimer := None\<rparr> in
      case cm_livenessTimer c of
        None \<Rightarrow> (c, [])
      | Some (Probe remaining) \<Rightarrow>
          let waitMs = min remaining MAX_TIMER_DELAY_MS in
          if remaining > waitMs then (c\<lparr>cm_livenessTimer := Some (Probe (remaining - waitMs))\<rparr>, [])
          else sendLivenessPing c'
      | Some (PingTimeout rid i) \<Rightarrow>
          if cm_livenessPingId c \<noteq> Some rid then (c', [])
          else ws_close i (c'\<lparr>cm_livenessPingId := None\<rparr>))"

definition noteCorrelatedResponse :: "nat \<Rightarrow> conn \<Rightarrow> bool \<times> conn" where
  "noteCorrelatedResponse rid c =
     (let isPingResponse = (cm_livenessPingId c = Some rid) in
      if \<not> isPingResponse \<and> request_context rid (cm_pending c) = None then (False, c)
      else if \<not> lv_enabled (cm_liveness c) then (isPingResponse, c)
      else (isPingResponse,
            scheduleLivenessProbe (lv_intervalMs (cm_liveness c))
              (c\<lparr>cm_livenessTimer := None, cm_livenessPingId := None\<rparr>)))"

section \<open>Requests\<close>

definition not_ready_error :: zync_error where
  "not_ready_error = new_ZyncBaseError ''Connection is not ready'' ''CONNECTION_FAILED'' ''network'' True"

definition is_namespace_setup :: "outbound \<Rightarrow> bool" where
  "is_namespace_setup msg \<longleftrightarrow>
     (case msg of OutStoreSetNamespace _ \<Rightarrow> True | OutPresenceSetNamespace _ \<Rightarrow> True | _ \<Rightarrow> False)"

definition reject_pending :: "nat \<Rightarrow> thrown \<Rightarrow> conn \<Rightarrow> bool \<times> conn" where
  "reject_pending rid err c =
     (case reject_request rid err (cm_pending c) of (b, pend) \<Rightarrow> (b, c\<lparr>cm_pending := pend\<rparr>))"

definition reject_all :: "thrown \<Rightarrow> conn \<Rightarrow> conn" where
  "reject_all err c = c\<lparr>cm_pending := rejectAll err (cm_pending c)\<rparr>"

definition sendRequest :: "outbound \<Rightarrow> nat option \<Rightarrow> conn \<Rightarrow> (thrown + nat) \<times> cstep" where
  \<comment> \<open>what it throws, or the promise of the answer\<close>
  "sendRequest msg table c =
     (case take_id c of (rid, c) \<Rightarrow>
      case encode_outbound (cm_dict c) msg rid table of
        Inl err \<Rightarrow> (Inl err, c, [])
      | Inr enc \<Rightarrow>
          (case register rid (eo_context enc) (cm_pending c) of (promise, pend) \<Rightarrow>
           let c = c\<lparr>cm_pending := pend\<rparr> in
           if \<not> is_namespace_setup msg \<and> cm_status c \<noteq> Connected
           then (Inr promise, snd (reject_pending rid (TZync not_ready_error) c), [])
           else (case conn_send enc c of
                   Inr e \<Rightarrow> (Inr promise, c, [e])
                 | Inl err \<Rightarrow> (Inr promise, snd (reject_pending rid err c), []))))"

definition run_call :: "call \<Rightarrow> conn \<Rightarrow> cstep" where
  \<comment> \<open>\<open>dispatchWithRetry\<close> up to its \<open>await\<close>: what \<open>sendRequest\<close> throws rejects the call's promise\<close>
  "run_call ca c =
     (case sendRequest (ca_message ca) (ca_table ca) c of
        (Inl err, c, es) \<Rightarrow> (c\<lparr>cm_done := cm_done c @ [(ca, Inl err)]\<rparr>, es)
      | (Inr promise, c, es) \<Rightarrow> (c\<lparr>cm_waiting := om_set (cm_waiting c) promise ca\<rparr>, es))"

definition new_call :: "outbound \<Rightarrow> nat option \<Rightarrow> call_purpose \<Rightarrow> call" where
  "new_call msg table purpose =
     \<lparr>ca_message = msg, ca_table = table, ca_attempt = 0, ca_retry = True, ca_purpose = purpose\<rparr>"

definition conn_dispatch :: "outbound \<Rightarrow> nat option \<Rightarrow> call_purpose \<Rightarrow> conn \<Rightarrow> cstep" where
  "conn_dispatch msg table purpose c = run_call (new_call msg table purpose) c"

definition dispatchNoRetry :: "outbound \<Rightarrow> nat \<Rightarrow> conn \<Rightarrow> cstep" where
  \<comment> \<open>not asynchronous: it throws what \<open>sendRequest\<close> throws\<close>
  "dispatchNoRetry msg token c =
     (case sendRequest msg None c of
        (Inl err, c, es) \<Rightarrow> (c, es @ [CThrow token err])
      | (Inr promise, c, es) \<Rightarrow>
          (c\<lparr>cm_waiting := om_set (cm_waiting c) promise
               \<lparr>ca_message = msg, ca_table = None, ca_attempt = 0, ca_retry = False, ca_purpose = ForCaller token\<rparr>\<rparr>, es))"

definition request_settled :: "rat \<Rightarrow> conn \<Rightarrow> cstep" where
  \<comment> \<open>the continuation of the next settled request: the rest of \<open>dispatchWithRetry\<close> and
      \<open>handleRetryOrThrow\<close> up to its sleep\<close>
  "request_settled rnd c =
     (case settlings (cm_pending c) ! cm_seen c of (promise, outcome) \<Rightarrow>
      let c' = c\<lparr>cm_seen := Suc (cm_seen c), cm_waiting := om_delete (cm_waiting c) promise\<rparr> in
      case om_get (cm_waiting c) promise of
        None \<Rightarrow> (c', [])
      | Some ca \<Rightarrow>
          (case outcome of
             Resolved ok \<Rightarrow> (c'\<lparr>cm_done := cm_done c' @ [(ca, Inr ok)]\<rparr>, [])
           | Rejected err \<Rightarrow>
               if \<not> ca_retry ca \<or> cm_intentionalDisconnect c
                  \<or> \<not> shouldRetry (op_retry (cm_options c)) err (ca_attempt ca)
               then (c'\<lparr>cm_done := cm_done c' @ [(ca, Inl err)]\<rparr>, [])
               else (c'\<lparr>cm_sleeping := cm_sleeping c' @
                       [(ca, err, getDelay (op_retry (cm_options c)) err (ca_attempt ca) rnd)]\<rparr>, [])))"

definition call_wakes :: "nat \<Rightarrow> conn \<Rightarrow> cstep" where
  \<comment> \<open>the sleep of the call at place \<open>k\<close> is over\<close>
  "call_wakes k c =
     (case cm_sleeping c ! k of (ca, err, _) \<Rightarrow>
      let c = c\<lparr>cm_sleeping := take k (cm_sleeping c) @ drop (Suc k) (cm_sleeping c)\<rparr> in
      if cm_intentionalDisconnect c then (c\<lparr>cm_done := cm_done c @ [(ca, Inl err)]\<rparr>, [])
      else run_call (ca\<lparr>ca_attempt := Suc (ca_attempt ca)\<rparr>) c)"

definition conn_setStoreNamespace :: "string \<Rightarrow> requester \<Rightarrow> conn \<Rightarrow> cstep" where
  "conn_setStoreNamespace ns who c = conn_dispatch (OutStoreSetNamespace ns) None (ForStoreNamespace ns who) c"

definition conn_setPresenceNamespace :: "string \<Rightarrow> requester \<Rightarrow> conn \<Rightarrow> cstep" where
  "conn_setPresenceNamespace ns who c = conn_dispatch (OutPresenceSetNamespace ns) None (ForPresenceNamespace ns who) c"

definition conn_authRefresh :: "string \<Rightarrow> requester \<Rightarrow> conn \<Rightarrow> cstep" where
  "conn_authRefresh token who c = conn_dispatch (OutAuthRefresh token) None (ForAuthRefresh who) c"

section \<open>Reconnecting\<close>

definition computeBackoffDelay :: "nat \<Rightarrow> rat \<Rightarrow> conn \<Rightarrow> rat" where
  "computeBackoffDelay attempt rnd c =
     (let o1 = op_retry (cm_options c) in
      backoffDelay attempt \<lparr>bo_base = reconnectDelay o1, bo_max = maxReconnectDelay o1, bo_jitter = reconnectJitter o1\<rparr> rnd)"

definition max_attempts :: "conn \<Rightarrow> jnum" where
  "max_attempts c = opt_or (op_maxReconnectAttempts (cm_options c)) PosInf"

definition num_ge :: "jnum \<Rightarrow> jnum \<Rightarrow> bool" where
  "num_ge a b \<longleftrightarrow> num_lt b a \<or> num_eq a b"

definition reconnect_allowed :: "conn \<Rightarrow> bool" where
  \<comment> \<open>\<open>this.options.reconnect ?? true\<close>\<close>
  "reconnect_allowed c = opt_or (op_reconnect (cm_options c)) True"

definition thrown_message :: "thrown option \<Rightarrow> string" where
  \<comment> \<open>\<open>error?.message ?? "Retries exhausted"\<close>\<close>
  "thrown_message e = (case e of None \<Rightarrow> ''Retries exhausted'' | Some err \<Rightarrow> error_message err ''Retries exhausted'')"

definition thrown_category :: "thrown option \<Rightarrow> string" where
  "thrown_category e = (case e of Some (TZync z) \<Rightarrow> ze_category z | _ \<Rightarrow> ''network'')"

definition scheduleReconnect :: "rat \<Rightarrow> thrown option \<Rightarrow> conn \<Rightarrow> cstep" where
  "scheduleReconnect rnd error c =
     (if num_ge (nat_num (cm_reconnectAttempt c)) (max_attempts c)
      then c_then (setStatus Disconnected None None error c)
             (emit (EvDisconnected \<lparr>dd_code = ''RETRIES_EXHAUSTED'', dd_reason = thrown_message error,
                dd_category = thrown_category error, dd_retryable = False, dd_attempt = cm_reconnectAttempt c\<rparr>))
      else
        let delay = computeBackoffDelay (cm_reconnectAttempt c) rnd c;
            c = c\<lparr>cm_reconnectAttempt := Suc (cm_reconnectAttempt c), cm_reconnectTimer := None\<rparr> in
        c_then (setStatus Reconnecting (Some (cm_reconnectAttempt c)) (Some delay) error c) (\<lambda>c.
        c_then (emit (EvReconnecting (cm_reconnectAttempt c) delay) c) (\<lambda>c.
          (c\<lparr>cm_reconnectTimer := Some delay\<rparr>, []))))"

definition willRetryAfter :: "zync_error \<Rightarrow> conn \<Rightarrow> bool" where
  "willRetryAfter err c \<longleftrightarrow>
     \<not> cm_intentionalDisconnect c \<and> ze_retryable err \<and> reconnect_allowed c
     \<and> num_lt (nat_num (cm_reconnectAttempt c)) (max_attempts c)"

definition disconnectDetail :: "zync_error \<Rightarrow> bool \<Rightarrow> conn \<Rightarrow> disconnect_detail" where
  "disconnectDetail err willRetry c =
     (let attemptsExhausted = ze_retryable err \<and> reconnect_allowed c
            \<and> num_ge (nat_num (cm_reconnectAttempt c)) (max_attempts c)
      in \<lparr>dd_code = (if attemptsExhausted then ''RETRIES_EXHAUSTED'' else ze_code err), dd_reason = ze_message err,
          dd_category = ze_category err, dd_retryable = willRetry, dd_attempt = cm_reconnectAttempt c\<rparr>)"

definition close_error :: "nat \<Rightarrow> string \<Rightarrow> conn \<Rightarrow> zync_error" where
  \<comment> \<open>the error \<open>handleSocketClose\<close> goes on with\<close>
  "close_error code reason c =
     (let closeError = socketCloseError code reason; messageError = cm_pendingDisconnectError c in
      if ze_code closeError = ''CONNECTION_FAILED'' then opt_or messageError closeError
      else case messageError of
          Some e \<Rightarrow> if ze_code e = ze_code closeError then e else closeError
        | None \<Rightarrow> closeError)"

definition handleSocketClose :: "nat \<Rightarrow> string \<Rightarrow> rat \<Rightarrow> conn \<Rightarrow> cstep" where
  "handleSocketClose code reason rnd c =
     (let c = stopLiveness c; err = close_error code reason c; c = c\<lparr>cm_pendingDisconnectError := None\<rparr> in
      c_then (rejectSchemaSync (TZync err) c) (\<lambda>c.
        let c = reject_all (TZync err) c; willRetry = willRetryAfter err c in
        c_then (if cm_status c = Connected \<or> \<not> willRetry
                then c_then (setStatus Disconnected None None (Some (TZync err)) c)
                       (\<lambda>c. emit (EvDisconnected (disconnectDetail err willRetry c)) c)
                else (c, [])) (\<lambda>c.
          if willRetry then scheduleReconnect rnd (Some (TZync err)) c else emit (EvError (TZync err)) c)))"

definition socket_error :: zync_error where
  "socket_error = new_ZyncBaseError ''WebSocket error'' ''CONNECTION_FAILED'' ''network'' True"

definition handleSocketError :: "nat \<Rightarrow> conn \<Rightarrow> cstep" where
  \<comment> \<open>\<open>reject\<close> is that of the call of \<open>connect\<close> that made the socket\<close>
  "handleSocketError k c =
     c_then (rejectSchemaSync (TZync socket_error) c) (\<lambda>c.
     c_then (emit (EvError (TZync socket_error)) c) (\<lambda>c.
       (c, [CConnectResult k (Inl (TZync socket_error))])))"

definition shouldReconnectAfterHandshake :: "thrown \<Rightarrow> conn \<Rightarrow> bool" where
  "shouldReconnectAfterHandshake err c \<longleftrightarrow>
     \<not> cm_intentionalDisconnect c \<and> reconnect_allowed c
     \<and> (case err of TZync e \<Rightarrow> ze_retryable e | _ \<Rightarrow> True)"

definition handleHandshakeFailure :: "thrown \<Rightarrow> nat \<Rightarrow> rat \<Rightarrow> conn \<Rightarrow> cstep" where
  "handleHandshakeFailure err k rnd c =
     c_then (teardownSocket (stopLiveness c)) (\<lambda>c.
     c_then (rejectSchemaSync err (reject_all err c)) (\<lambda>c.
     c_then (setStatus Disconnected None None (Some err) c) (\<lambda>c.
     c_then (emit (EvError err) c) (\<lambda>c.
     c_then (if cm_reconnectTimer c = None \<and> shouldReconnectAfterHandshake err c
             then scheduleReconnect rnd (Some err) c else (c, [])) (\<lambda>c.
       (c, [CConnectResult k (Inl err)]))))))"

section \<open>Connecting and disconnecting\<close>

definition conn_connect :: "conn \<Rightarrow> cstep" where
  \<comment> \<open>up to \<open>await this.acquireTicket()\<close>\<close>
  "conn_connect c =
     (let k = cm_connects c;
          c = stopLiveness (c\<lparr>cm_connects := Suc k, cm_intentionalDisconnect := False, cm_pendingDisconnectError := None\<rparr>) in
      c_then (setStatus Connecting None None None c) (\<lambda>c.
        let c = resetSchemaSyncPromise (c\<lparr>cm_chains := cm_chains c @ [[]]\<rparr>) in
        (c\<lparr>cm_acquiring := cm_acquiring c @ [k]\<rparr>, [CAcquireTicket k])))"

definition handleTicketError :: "thrown \<Rightarrow> nat \<Rightarrow> rat \<Rightarrow> conn \<Rightarrow> cstep" where
  "handleTicketError err k rnd c =
     (let error = toConnectionError err ''Ticket acquisition failed'' in
      c_then (rejectSchemaSync (TZync error) c) (\<lambda>c.
      c_then (setStatus Disconnected None None (Some (TZync error)) c) (\<lambda>c.
      c_then (emit (EvError (TZync error)) c) (\<lambda>c.
      c_then (if \<not> cm_intentionalDisconnect c \<and> reconnect_allowed c \<and> ze_retryable error
              then scheduleReconnect rnd None c else (c, [])) (\<lambda>c.
        (c, [CConnectResult k (Inl (TZync error))]))))))"

definition ticket_answered :: "nat \<Rightarrow> thrown + string \<Rightarrow> rat \<Rightarrow> conn \<Rightarrow> cstep" where
  "ticket_answered k r rnd c =
     (let c = c\<lparr>cm_acquiring := remove1 k (cm_acquiring c)\<rparr> in
      case r of
        Inl err \<Rightarrow> handleTicketError err k rnd c
      | Inr ticket \<Rightarrow>
          let i = length (cm_sockets c);
              so = \<lparr>so_state = SockConnecting, so_onclose = True, so_onerror = True, so_onmessage = True, so_call = k\<rparr>
          in (c\<lparr>cm_sockets := cm_sockets c @ [so], cm_ws := Some i\<rparr>, [COpenSocket i ticket]))"

definition socket_opened :: "nat \<Rightarrow> rat \<Rightarrow> conn \<Rightarrow> cstep" where
  \<comment> \<open>\<open>onopen\<close>\<close>
  "socket_opened i rnd c =
     (let c = startLiveness rnd (put_sock i ((sock i c)\<lparr>so_state := SockOpen\<rparr>) c) in
      conn_setStoreNamespace (cm_storeNamespace c) (ByHandshake i) c)"

definition disconnected_error :: zync_error where
  "disconnected_error = new_ZyncBaseError ''Disconnected'' ''CONNECTION_FAILED'' ''network'' False"

definition conn_disconnect :: "conn \<Rightarrow> cstep" where
  "conn_disconnect c =
     (let c = stopLiveness (c\<lparr>cm_intentionalDisconnect := True\<rparr>); c = c\<lparr>cm_reconnectTimer := None\<rparr> in
      c_then (case cm_ws c of
                None \<Rightarrow> (c, [])
              | Some i \<Rightarrow> c_then (ws_close i (put_sock i ((sock i c)\<lparr>so_onclose := False\<rparr>) c)) (\<lambda>c. (c\<lparr>cm_ws := None\<rparr>, []))) (\<lambda>c.
      c_then (rejectSchemaSync (TZync disconnected_error) c) (\<lambda>c.
      c_then (setStatus Disconnected None None None (reject_all (TZync disconnected_error) c)) (\<lambda>c.
        emit (EvDisconnected \<lparr>dd_code = ''CLIENT_DISCONNECT'', dd_reason = ze_message disconnected_error,
          dd_category = ze_category disconnected_error, dd_retryable = False, dd_attempt = cm_reconnectAttempt c\<rparr>) c))))"

section \<open>The settled calls\<close>

definition presence_user_of :: "props \<Rightarrow> thrown + string" where
  "presence_user_of ok =
     (case om_get ok ''userId'' of
        Some (JBytes b) \<Rightarrow> decodePresenceUserId b
      | _ \<Rightarrow> Inl (TError ''PresenceSetNamespace response missing binary userId''))"

definition api_answer :: "requester \<Rightarrow> thrown + unit \<Rightarrow> rat \<Rightarrow> conn \<Rightarrow> cstep" where
  \<comment> \<open>the end of a call whose result is \<open>undefined\<close>\<close>
  "api_answer who r rnd c =
     (case who of
        ByCaller token \<Rightarrow> (c, [CSettle token (case r of Inl err \<Rightarrow> Inl err | Inr _ \<Rightarrow> Inr [])])
      | ByHandshake i \<Rightarrow>
          (case r of
             Inl err \<Rightarrow> handleHandshakeFailure err (so_call (sock i c)) rnd c
           | Inr _ \<Rightarrow> (c, []))
      | ByRefresh \<Rightarrow>
          c_then (case r of Inl _ \<Rightarrow> emit EvTokenExpired c | Inr _ \<Rightarrow> (c, []))
            (\<lambda>c. (c\<lparr>cm_refreshInFlight := False\<rparr>, [])))"

definition handshake_complete :: "nat \<Rightarrow> conn \<Rightarrow> cstep" where
  "handshake_complete i c =
     c_then (setStatus Connected None None None (c\<lparr>cm_reconnectAttempt := 0\<rparr>)) (\<lambda>c.
     c_then (emit EvConnected c) (\<lambda>c. (c, [CConnectResult (so_call (sock i c)) (Inr ())])))"

definition store_namespace_set :: "string \<Rightarrow> requester \<Rightarrow> thrown + props \<Rightarrow> rat \<Rightarrow> conn \<Rightarrow> cstep" where
  "store_namespace_set ns who r rnd c =
     (case r of
        Inl err \<Rightarrow> api_answer who (Inl err) rnd c
      | Inr _ \<Rightarrow>
          let c = c\<lparr>cm_storeNamespace := ns\<rparr> in
          (case who of
             ByHandshake i \<Rightarrow> conn_setPresenceNamespace (cm_presenceNamespace c) who c
           | _ \<Rightarrow> api_answer who (Inr ()) rnd c))"

definition presence_namespace_set :: "string \<Rightarrow> requester \<Rightarrow> thrown + props \<Rightarrow> rat \<Rightarrow> conn \<Rightarrow> cstep" where
  "presence_namespace_set ns who r rnd c =
     (case and_then r presence_user_of of
        Inl err \<Rightarrow> api_answer who (Inl err) rnd c
      | Inr userId \<Rightarrow>
          c_then (c\<lparr>cm_presenceNamespace := ns\<rparr>,
                  case cm_presenceUserIdHandler c of None \<Rightarrow> [] | Some h \<Rightarrow> [CUserId h userId]) (\<lambda>c.
            case who of ByHandshake i \<Rightarrow> handshake_complete i c | _ \<Rightarrow> api_answer who (Inr ()) rnd c))"

definition call_settled :: "rat \<Rightarrow> conn \<Rightarrow> cstep" where
  \<comment> \<open>the continuation of the next settled call\<close>
  "call_settled rnd c =
     (case cm_done c of
        [] \<Rightarrow> (c, [])
      | (ca, r) # rest \<Rightarrow>
          let c = c\<lparr>cm_done := rest\<rparr> in
          (case ca_purpose ca of
             ForCaller token \<Rightarrow> (c, [CSettle token r])
           | ForStoreNamespace ns who \<Rightarrow> store_namespace_set ns who r rnd c
           | ForPresenceNamespace ns who \<Rightarrow> presence_namespace_set ns who r rnd c
           | ForAuthRefresh who \<Rightarrow> api_answer who (case r of Inl err \<Rightarrow> Inl err | Inr _ \<Rightarrow> Inr ()) rnd c))"

section \<open>Inbound messages\<close>

definition message_id :: "props \<Rightarrow> nat option" where
  \<comment> \<open>an id that can be that of a request\<close>
  "message_id ps = Option.bind (om_get ps ''id'') safe_nat"

definition handleOkResponse :: "props \<Rightarrow> conn \<Rightarrow> bool \<times> conn" where
  "handleOkResponse ok c =
     (case message_id ok of
        None \<Rightarrow> (False, c)
      | Some rid \<Rightarrow>
          if cm_livenessPingId c = Some rid then (True, snd (noteCorrelatedResponse rid c))
          else case request_context rid (cm_pending c) of
              None \<Rightarrow> (False, c)
            | Some context \<Rightarrow>
                let c = snd (noteCorrelatedResponse rid c) in
                (False,
                 case decodeOkResponse (cm_dict c) ok (Some context) of
                   Inr v \<Rightarrow> c\<lparr>cm_pending := snd (resolve_request rid v (cm_pending c))\<rparr>
                 | Inl err \<Rightarrow> snd (reject_pending rid err c)))"

definition handleErrorResponse :: "props \<Rightarrow> conn \<Rightarrow> bool \<times> conn" where
  "handleErrorResponse err c =
     (case message_id err of
        None \<Rightarrow> (False, c)
      | Some rid \<Rightarrow>
          if cm_livenessPingId c = Some rid then (True, snd (noteCorrelatedResponse rid c))
          else case reject_pending rid (TZync (errorResponseToError err)) c of
              (True, c) \<Rightarrow> (False, snd (noteCorrelatedResponse rid c))
            | (False, c) \<Rightarrow> (False, c))"

definition handleTokenExpired :: "conn \<Rightarrow> cstep" where
  "handleTokenExpired c =
     (if op_tokenProvider (cm_options c)
      then (if cm_refreshInFlight c then (c, []) else (c\<lparr>cm_refreshInFlight := True, cm_tokenAwaited := True\<rparr>, [CTokenProvider]))
      else emit EvTokenExpired c)"

definition token_provided :: "thrown + string \<Rightarrow> rat \<Rightarrow> conn \<Rightarrow> cstep" where
  "token_provided r rnd c =
     (let c = c\<lparr>cm_tokenAwaited := False\<rparr> in
      case r of
        Inl err \<Rightarrow> api_answer ByRefresh (Inl err) rnd c
      | Inr newToken \<Rightarrow> conn_authRefresh newToken ByRefresh c)"

definition strings_of :: "jv \<Rightarrow> string list option" where
  "strings_of v = (case v of JArr xs \<Rightarrow> those (map (\<lambda>x. case x of JStr s \<Rightarrow> Some s | _ \<Rightarrow> None) xs) | _ \<Rightarrow> None)"

definition lists_of :: "(jv \<Rightarrow> 'a option) \<Rightarrow> jv \<Rightarrow> 'a list option" where
  "lists_of f v = (case v of JArr xs \<Rightarrow> those (map f xs) | _ \<Rightarrow> None)"

definition opt_field :: "(jv \<Rightarrow> 'a option) \<Rightarrow> jv option \<Rightarrow> 'a option option" where
  \<comment> \<open>an optional field: absent, or of its type\<close>
  "opt_field f v = (if nullish v then Some None else map_option Some (f (the v)))"

definition schema_message :: "props \<Rightarrow> schema_sync option" where
  \<comment> \<open>the payload, when its fields have the types that \<open>types.ts\<close> declares\<close>
  "schema_message ps =
     (let field = (\<lambda>k. om_get ps k); strings = (\<lambda>k. opt_field strings_of (field k));
          lists = (\<lambda>k. opt_field (lists_of strings_of) (field k)) in
      Option.bind (Option.bind (field ''tables'') strings_of) (\<lambda>t.
      Option.bind (Option.bind (field ''fields'') (lists_of strings_of)) (\<lambda>f.
      Option.bind (opt_field (lists_of (lists_of safe_nat)) (field ''fieldFlags'')) (\<lambda>ff.
      Option.bind (strings ''presenceUserFields'') (\<lambda>pu.
      Option.bind (strings ''presenceSharedFields'') (\<lambda>psh.
      Option.bind (strings ''actions'') (\<lambda>a.
      Option.bind (lists ''actionParams'') (\<lambda>ap.
      Option.bind (lists ''actionReturns'') (\<lambda>ar.
      Option.bind (opt_field (lists_of safe_nat) (field ''actionFlags'')) (\<lambda>af.
        Some \<lparr>ss_tables = t, ss_fields = f, ss_fieldFlags = ff, ss_presenceUserFields = pu,
              ss_presenceSharedFields = psh, ss_actions = a, ss_actionParams = ap, ss_actionReturns = ar,
              ss_actionFlags = af\<rparr>))))))))))"

definition schema_error :: "thrown \<Rightarrow> zync_error" where
  "schema_error err =
     (case err of TZync e \<Rightarrow> e
      | _ \<Rightarrow> new_ZyncBaseError (error_message err ''Invalid SchemaSync payload'') ''INVALID_MESSAGE'' ''validation'' False)"

definition handleSchemaSync :: "(schema_canon \<Rightarrow> nat) \<Rightarrow> schema_sync \<Rightarrow> conn \<Rightarrow> bool \<times> cstep" where
  \<comment> \<open>whether it throws; \<open>H\<close> is the hash of the schema's text\<close>
  "handleSchemaSync H p c =
     (case processSchemaSync H p (cm_dict c) of
        (Inl err, d) \<Rightarrow>
          (True, c_then (rejectSchemaSync (TZync (schema_error err)) (c\<lparr>cm_dict := d\<rparr>))
                   (emit (EvError (TZync (schema_error err)))))
      | (Inr schemaChanged, d) \<Rightarrow>
          (False, c_then (if schemaChanged then emit EvSchemaChange (c\<lparr>cm_dict := d\<rparr>) else (c\<lparr>cm_dict := d\<rparr>, []))
                    resolveSchemaSync))"

definition handle_with :: "nat option \<Rightarrow> inbound \<Rightarrow> conn \<Rightarrow> cstep" where
  "handle_with h msg c = (c, case h of None \<Rightarrow> [] | Some n \<Rightarrow> [CHandle n msg])"

definition dispatchInbound :: "(schema_canon \<Rightarrow> nat) \<Rightarrow> inbound \<Rightarrow> conn \<Rightarrow> bool \<times> cstep" where
  \<comment> \<open>whether it throws\<close>
  "dispatchInbound H msg c =
     (let rest = (\<lambda>r. (False, c_then r (\<lambda>c. handle_with (cm_messageHandler c) msg c))) in
      case msg of
        InDelta d \<Rightarrow> rest (handle_with (cm_deltaHandler c) msg c)
      | InPresence _ _ \<Rightarrow> rest (handle_with (cm_presenceBroadcastHandler c) msg c)
      | InShared _ _ \<Rightarrow> rest (handle_with (cm_presenceBroadcastHandler c) msg c)
      | InAction _ \<Rightarrow> rest (handle_with (cm_actionForwardHandler c) msg c)
      | InObject name ps \<Rightarrow>
          if name = ''SchemaSync''
          then (case schema_message ps of Some p \<Rightarrow> handleSchemaSync H p c | None \<Rightarrow> (True, c, []))
          else if name = ''ok''
          then (case handleOkResponse ps c of (True, c) \<Rightarrow> (False, c, []) | (False, c) \<Rightarrow> rest (c, []))
          else if name = ''error''
          then (case handleErrorResponse ps c of
                  (True, c) \<Rightarrow> (False, c, [])
                | (False, c) \<Rightarrow>
                    rest (if om_get ps ''code'' = Some (JStr ''TOKEN_EXPIRED'') then handleTokenExpired c else (c, [])))
          else if name = ''ServerDisconnect''
          then rest (c\<lparr>cm_pendingDisconnectError :=
                 Some (serverDisconnectError (js_string_field ps ''code'') (js_string_field ps ''message''))\<rparr>, [])
          else rest (c, []))"

definition handleRawMessage :: "jv list \<Rightarrow> conn \<Rightarrow> conn" where
  \<comment> \<open>the frame joins the current chain of \<open>processingPromise\<close>\<close>
  "handleRawMessage frame c =
     (let n = length (cm_chains c) - 1 in c\<lparr>cm_chains := (cm_chains c)[n := cm_chains c ! n @ [frame]]\<rparr>)"

definition processInbound :: "(schema_canon \<Rightarrow> nat) \<Rightarrow> nat \<Rightarrow> conn \<Rightarrow> cstep" where
  \<comment> \<open>the next message of the first frame of a chain; an error ends the frame\<close>
  "processInbound H k c =
     (let put = (\<lambda>frames c. c\<lparr>cm_chains := (cm_chains c)[k := frames]\<rparr>) in
      case cm_chains c ! k of
        [] \<Rightarrow> (c, [])
      | [] # frames \<Rightarrow> (put frames c, [])
      | (raw # raws) # frames \<Rightarrow>
          (case decodeMessage (cm_dict c) raw of
             None \<Rightarrow> (put (raws # frames) c, [])
           | Some msg \<Rightarrow>
               (case dispatchInbound H msg c of
                  (True, r) \<Rightarrow> c_then r (\<lambda>c. (put frames c, []))
                | (False, r) \<Rightarrow> c_then r (\<lambda>c. (put (raws # frames) c, [])))))"

section \<open>The machine\<close>

datatype conn_event =
    ConnCall                                           \<comment> \<open>\<open>connect()\<close>\<close>
  | ConnDisconnect
  | ConnDispatch outbound "nat option" nat
  | ConnDispatchNoRetry outbound nat
  | ConnSetStoreNamespace string nat
  | ConnSetPresenceNamespace string nat
  | ConnAuthRefresh string nat
  | ConnOn string nat
  | ConnOff string nat
  | ConnSetHandler handler_kind nat
  | ConnTicket nat "thrown + string" rat
  | ConnOpened nat rat
  | ConnSocketError nat
  | ConnClosed nat nat string rat
  | ConnFrame nat "jv list"
  | ConnReconnectTimer
  | ConnLivenessTimer
  | ConnWake nat
  | ConnToken "thrown + string" rat
  | ConnRequestSettled rat                             \<comment> \<open>microtasks\<close>
  | ConnCallSettled rat
  | ConnProcess nat

fun conn_step :: "(schema_canon \<Rightarrow> nat) \<Rightarrow> conn_event \<Rightarrow> conn \<Rightarrow> cstep" where
  "conn_step H ConnCall c = conn_connect c"
| "conn_step H ConnDisconnect c = conn_disconnect c"
| "conn_step H (ConnDispatch msg table t) c = conn_dispatch msg table (ForCaller t) c"
| "conn_step H (ConnDispatchNoRetry msg t) c = dispatchNoRetry msg t c"
| "conn_step H (ConnSetStoreNamespace ns t) c = conn_setStoreNamespace ns (ByCaller t) c"
| "conn_step H (ConnSetPresenceNamespace ns t) c = conn_setPresenceNamespace ns (ByCaller t) c"
| "conn_step H (ConnAuthRefresh token t) c = conn_authRefresh token (ByCaller t) c"
| "conn_step H (ConnOn ev h) c = (listen_on ev h c, [])"
| "conn_step H (ConnOff ev h) c = (listen_off ev h c, [])"
| "conn_step H (ConnSetHandler kind h) c = (set_handler kind h c, [])"
| "conn_step H (ConnTicket k r rnd) c = ticket_answered k r rnd c"
| "conn_step H (ConnOpened i rnd) c = socket_opened i rnd c"
| "conn_step H (ConnSocketError i) c = (if so_onerror (sock i c) then handleSocketError (so_call (sock i c)) c else (c, []))"
| "conn_step H (ConnClosed i code reason rnd) c =
     (let c' = put_sock i ((sock i c)\<lparr>so_state := SockClosed\<rparr>) c in
      if so_onclose (sock i c) then handleSocketClose code reason rnd c' else (c', []))"
| "conn_step H (ConnFrame i frame) c = (if so_onmessage (sock i c) then handleRawMessage frame c else c, [])"
| "conn_step H ConnReconnectTimer c = conn_connect (c\<lparr>cm_reconnectTimer := None\<rparr>)"
| "conn_step H ConnLivenessTimer c = liveness_fire c"
| "conn_step H (ConnWake k) c = call_wakes k c"
| "conn_step H (ConnToken r rnd) c = token_provided r rnd c"
| "conn_step H (ConnRequestSettled rnd) c = request_settled rnd c"
| "conn_step H (ConnCallSettled rnd) c = call_settled rnd c"
| "conn_step H (ConnProcess k) c = processInbound H k c"

definition microtasks_done :: "conn \<Rightarrow> bool" where
  \<comment> \<open>no continuation of a settled request or call is due\<close>
  "microtasks_done c \<longleftrightarrow> cm_seen c = length (settlings (cm_pending c)) \<and> cm_done c = []"

fun conn_enabled :: "conn_event \<Rightarrow> conn \<Rightarrow> bool" where
  \<comment> \<open>what the host can report when; a task of the host starts only after the microtasks\<close>
  "conn_enabled (ConnTicket k _ _) c \<longleftrightarrow> microtasks_done c \<and> k \<in> set (cm_acquiring c)"
| "conn_enabled (ConnOpened i _) c \<longleftrightarrow> microtasks_done c \<and> i < length (cm_sockets c) \<and> so_state (sock i c) = SockConnecting"
| "conn_enabled (ConnSocketError i) c \<longleftrightarrow> microtasks_done c \<and> i < length (cm_sockets c) \<and> so_state (sock i c) \<noteq> SockClosed"
| "conn_enabled (ConnClosed i _ _ _) c \<longleftrightarrow> microtasks_done c \<and> i < length (cm_sockets c) \<and> so_state (sock i c) \<noteq> SockClosed"
| "conn_enabled (ConnFrame i _) c \<longleftrightarrow> microtasks_done c \<and> i < length (cm_sockets c) \<and> sock_open i c"
| "conn_enabled ConnReconnectTimer c \<longleftrightarrow> microtasks_done c \<and> cm_reconnectTimer c \<noteq> None"
| "conn_enabled ConnLivenessTimer c \<longleftrightarrow> microtasks_done c \<and> cm_livenessTimer c \<noteq> None"
| "conn_enabled (ConnWake k) c \<longleftrightarrow> microtasks_done c \<and> k < length (cm_sleeping c)"
| "conn_enabled (ConnToken _ _) c \<longleftrightarrow> microtasks_done c \<and> cm_tokenAwaited c"
| "conn_enabled (ConnRequestSettled _) c \<longleftrightarrow> cm_seen c < length (settlings (cm_pending c))"
| "conn_enabled (ConnCallSettled _) c \<longleftrightarrow> cm_done c \<noteq> []"
| "conn_enabled (ConnProcess k) c \<longleftrightarrow> k < length (cm_chains c) \<and> cm_chains c ! k \<noteq> []
     \<and> (case cm_chains c ! k of (raw # _) # _ \<Rightarrow>
          (case decodeMessage (cm_dict c) raw of
             Some (InObject name ps) \<Rightarrow> name = ''SchemaSync'' \<longrightarrow> schema_message ps \<noteq> None
           | _ \<Rightarrow> True) | _ \<Rightarrow> True)"
| "conn_enabled _ c \<longleftrightarrow> True"

end
