(* ===== verification/ConnectionRuns.thy ===== *)
theory ConnectionRuns
  imports Connection
begin

text \<open>
  Runs of the connection manager, and what holds in every reachable state: no call is lost,
  the retries of a call are bounded, the timers are kept, and what a closed socket leads to.
\<close>

section \<open>Runs\<close>

inductive conn_run ::
  "(schema_canon \<Rightarrow> nat) \<Rightarrow> client_options \<Rightarrow> (conn_event \<times> conn) list \<Rightarrow> conn \<Rightarrow> conn_effect list \<Rightarrow> bool"
  for H and options where
  \<comment> \<open>each event with the state it found\<close>
  start: "new_conn options = Inr c \<Longrightarrow> conn_run H options [] c []"
| step: "conn_run H options evs c es \<Longrightarrow> conn_enabled ev c \<Longrightarrow> conn_step H ev c = (c', es') \<Longrightarrow>
    conn_run H options (evs @ [(ev, c)]) c' (es @ es')"

lemma conn_run_invariant:
  assumes "conn_run H options evs c es" "\<And>c. new_conn options = Inr c \<Longrightarrow> P [] c []"
    "\<And>evs c es ev. P evs c es \<Longrightarrow> conn_enabled ev c \<Longrightarrow>
       P (evs @ [(ev, c)]) (fst (conn_step H ev c)) (es @ snd (conn_step H ev c))"
  shows "P evs c es"
  using assms(1)
proof induction
  case (step evs c es ev c' es')
  then show ?case using assms(3) [of evs c es ev] by simp
qed (rule assms(2))

lemma new_conn_start:
  assumes "new_conn options = Inr c"
  shows "cm_pending c = pending_init" "cm_waiting c = []" "cm_seen c = 0" "cm_sleeping c = []" "cm_done c = []"
    "cm_status c = Disconnected" "cm_reconnectTimer c = None" "cm_reconnectAttempt c = 0"
    "cm_livenessTimer c = None" "cm_livenessPingId c = None" "\<not> cm_intentionalDisconnect c"
    "cm_options c = options" "cm_sockets c = []"
  using assms by (auto simp: new_conn_def and_then_eq_Inr Let_def)

text \<open>A condition that an operation keeps, whatever it sends.\<close>

definition keeps :: "(conn \<Rightarrow> bool) \<Rightarrow> conn \<Rightarrow> cstep \<Rightarrow> bool" where
  "keeps P c r \<longleftrightarrow> (P c \<longrightarrow> P (fst r))"

lemma keeps_pair: "(P c \<Longrightarrow> P c') \<Longrightarrow> keeps P c (c', es)"
  by (simp add: keeps_def)

lemma c_then_simps [simp]:
  "fst (c_then r f) = fst (f (fst r))" "snd (c_then r f) = snd r @ snd (f (fst r))"
  by (simp_all add: c_then_def split: prod.split)

lemma keeps_then: "keeps P c r \<Longrightarrow> (\<And>d. keeps P d (f d)) \<Longrightarrow> keeps P c (c_then r f)"
  by (simp add: keeps_def)

lemma keeps_from: "keeps P d r \<Longrightarrow> (P c \<Longrightarrow> P d) \<Longrightarrow> keeps P c r"
  by (auto simp: keeps_def)

text \<open>Running a list of events: the trace, the last state, what was sent, and whether each event
  was possible when it came.\<close>

fun drive :: "(schema_canon \<Rightarrow> nat) \<Rightarrow> conn_event list \<Rightarrow> conn \<Rightarrow> (conn_event \<times> conn) list \<times> conn \<times> conn_effect list \<times> bool" where
  "drive H [] c = ([], c, [], True)"
| "drive H (ev # evs) c =
     (case conn_step H ev c of (c', es) \<Rightarrow>
      case drive H evs c' of (tr, c'', es', b) \<Rightarrow> ((ev, c) # tr, c'', es @ es', conn_enabled ev c \<and> b))"

lemma drive_run:
  assumes "conn_run H options tr0 c es0" "drive H evs c = (tr, c', es, True)"
  shows "conn_run H options (tr0 @ tr) c' (es0 @ es)"
  using assms
proof (induction evs arbitrary: tr0 c es0 tr es)
  case (Cons ev evs)
  obtain d e1 where s: "conn_step H ev c = (d, e1)" by force
  obtain tr2 c2 e2 b where r: "drive H evs d = (tr2, c2, e2, b)" by (metis prod_cases4)
  have eq: "tr = (ev, c) # tr2" "c2 = c'" "es = e1 @ e2" "conn_enabled ev c" "b"
    using Cons.prems(2) by (auto simp: s r)
  have "conn_run H options (tr0 @ [(ev, c)]) d (es0 @ e1)"
    by (rule conn_run.step [OF Cons.prems(1) eq(4) s])
  from Cons.IH [OF this, of tr2 e2] r eq show ?case by simp
qed simp

definition sample_options :: client_options where
  "sample_options =
     \<lparr>op_retry = \<lparr>retryRateLimits = None, retryServerErrors = None, maxServerRetries = None,
        reconnectDelay = None, maxReconnectDelay = None, reconnectJitter = Some False\<rparr>,
      op_reconnect = None, op_maxReconnectAttempts = None, op_storeNamespace = None, op_presenceNamespace = None,
      op_liveness = None, op_tokenProvider = False\<rparr>"

definition sample_conn :: conn where
  "sample_conn = (case new_conn sample_options of Inr c \<Rightarrow> c)"

definition sample_liveness_ok :: bool where
  "sample_liveness_ok \<longleftrightarrow> (case new_conn sample_options of Inr _ \<Rightarrow> True | Inl _ \<Rightarrow> False)"

lemma sample_conn: "new_conn sample_options = Inr sample_conn"
proof -
  have "sample_liveness_ok" by code_simp
  then show ?thesis by (auto simp: sample_liveness_ok_def sample_conn_def split: sum.splits)
qed

lemma sample_run:
  assumes "drive H evs sample_conn = (tr, c, es, True)"
  shows "conn_run H sample_options tr c es"
  using drive_run [OF conn_run.start [OF sample_conn] assms] by simp

definition sample_drive :: "conn_event list \<Rightarrow> (conn_event \<times> conn) list \<times> conn \<times> conn_effect list \<times> bool" where
  "sample_drive evs = drive (\<lambda>_. 0) evs sample_conn"

lemma sample_drive:
  assumes "snd (snd (snd (sample_drive evs)))"
  shows "conn_run (\<lambda>_. 0) sample_options (fst (sample_drive evs)) (fst (snd (sample_drive evs))) (fst (snd (snd (sample_drive evs))))"
  using assms sample_run [of "\<lambda>_. 0" evs] unfolding sample_drive_def by (metis prod.collapse)

section \<open>The calls that are under way\<close>

fun requester_tokens :: "requester \<Rightarrow> nat multiset" where
  "requester_tokens (ByCaller t) = {#t#}"
| "requester_tokens _ = {#}"

fun purpose_tokens :: "call_purpose \<Rightarrow> nat multiset" where
  "purpose_tokens (ForCaller t) = {#t#}"
| "purpose_tokens (ForStoreNamespace _ who) = requester_tokens who"
| "purpose_tokens (ForPresenceNamespace _ who) = requester_tokens who"
| "purpose_tokens (ForAuthRefresh who) = requester_tokens who"

abbreviation tokens :: "call \<Rightarrow> nat multiset" where
  "tokens ca \<equiv> purpose_tokens (ca_purpose ca)"

definition under_way :: "conn \<Rightarrow> nat multiset" where
  "under_way c = sum_list (map (\<lambda>x. tokens (snd x)) (cm_waiting c)) + sum_list (map (\<lambda>x. tokens (fst x)) (cm_sleeping c))
     + sum_list (map (\<lambda>x. tokens (fst x)) (cm_done c))"

fun answered :: "conn_effect \<Rightarrow> nat multiset" where
  "answered (CSettle t _) = {#t#}"
| "answered (CThrow t _) = {#t#}"
| "answered _ = {#}"

definition answers :: "conn_effect list \<Rightarrow> nat multiset" where
  "answers es = sum_list (map answered es)"

lemma answers_simps [simp]:
  "answers [] = {#}" "answers (e # es) = answered e + answers es" "answers (es @ es') = answers es + answers es'"
  by (simp_all add: answers_def)

fun issued :: "conn_event \<Rightarrow> nat multiset" where
  "issued (ConnDispatch _ _ t) = {#t#}"
| "issued (ConnDispatchNoRetry _ t) = {#t#}"
| "issued (ConnSetStoreNamespace _ t) = {#t#}"
| "issued (ConnSetPresenceNamespace _ t) = {#t#}"
| "issued (ConnAuthRefresh _ t) = {#t#}"
| "issued _ = {#}"

definition calls_ok :: "conn \<Rightarrow> bool" where
  \<comment> \<open>a call waits exactly for a request without an answer or one whose answer is recorded but not yet read\<close>
  "calls_ok c \<longleftrightarrow> pending_ok (cm_pending c) \<and> cm_seen c \<le> length (settlings (cm_pending c)) \<and> om_wf (cm_waiting c)
     \<and> fst ` set (cm_waiting c) =
         set (open_promises (cm_pending c)) \<union> fst ` set (drop (cm_seen c) (settlings (cm_pending c)))"

definition calls_of :: "conn \<Rightarrow> _" where
  "calls_of c = (cm_pending c, cm_waiting c, cm_seen c, cm_sleeping c, cm_done c)"

definition accounts :: "nat multiset \<Rightarrow> conn \<Rightarrow> cstep \<Rightarrow> bool" where
  \<comment> \<open>the operation keeps \<open>calls_ok\<close>, and of the calls before it and the new ones each is under way or answered\<close>
  "accounts new c r \<longleftrightarrow> (calls_ok c \<longrightarrow> calls_ok (fst r) \<and> under_way (fst r) + answers (snd r) = under_way c + new)"

lemma accounts_then:
  assumes "accounts a c r" "\<And>d. accounts b d (f d)"
  shows "accounts (a + b) c (c_then r f)"
proof -
  have add: "y + (es + es') = u + (a + b)" if x: "x + es = u + a" and y: "y + es' = x + b" for x y u es es' :: "nat multiset"
  proof -
    have "y + (es + es') = (y + es') + es" by (simp only: union_ac)
    also have "\<dots> = (x + b) + es" by (simp only: y)
    also have "\<dots> = (x + es) + b" by (simp only: union_ac)
    finally show ?thesis by (simp only: x union_assoc)
  qed
  show ?thesis using assms(1) assms(2) [of "fst r"] add
    unfolding accounts_def c_then_simps answers_simps by blast
qed

lemma accounts_then0: "accounts {#} c r \<Longrightarrow> (\<And>d. accounts {#} d (f d)) \<Longrightarrow> accounts {#} c (c_then r f)"
  using accounts_then [of "{#}" c r "{#}" f] by simp

lemma calls_of_cong: "calls_of c = calls_of d \<Longrightarrow> calls_ok c = calls_ok d \<and> under_way c = under_way d"
  by (simp add: calls_of_def calls_ok_def under_way_def)

lemma accounts_frame: "calls_of c' = calls_of c \<Longrightarrow> accounts (answers es) c (c', es)"
  by (drule calls_of_cong) (simp add: accounts_def)

lemma accounts_frame0: "calls_of (fst r) = calls_of c \<Longrightarrow> answers (snd r) = {#} \<Longrightarrow> accounts {#} c r"
  using accounts_frame [of "fst r" c "snd r"] by simp

lemma accounts_from: "accounts new d r \<Longrightarrow> calls_of d = calls_of c \<Longrightarrow> accounts new c r"
  by (drule calls_of_cong) (auto simp: accounts_def)

lemma calls_frame [simp]:
  "calls_of (c\<lparr>cm_ws := a1\<rparr>) = calls_of c" "calls_of (c\<lparr>cm_sockets := a2\<rparr>) = calls_of c"
  "calls_of (c\<lparr>cm_connects := a3\<rparr>) = calls_of c" "calls_of (c\<lparr>cm_listeners := a4\<rparr>) = calls_of c"
  "calls_of (c\<lparr>cm_reconnectAttempt := a5\<rparr>) = calls_of c" "calls_of (c\<lparr>cm_reconnectTimer := a6\<rparr>) = calls_of c"
  "calls_of (c\<lparr>cm_intentionalDisconnect := a7\<rparr>) = calls_of c" "calls_of (c\<lparr>cm_status := a8\<rparr>) = calls_of c"
  "calls_of (c\<lparr>cm_storeNamespace := a9\<rparr>) = calls_of c" "calls_of (c\<lparr>cm_presenceNamespace := b1\<rparr>) = calls_of c"
  "calls_of (c\<lparr>cm_chains := b2\<rparr>) = calls_of c" "calls_of (c\<lparr>cm_schemaSyncs := b3\<rparr>) = calls_of c"
  "calls_of (c\<lparr>cm_schemaSyncOpen := b4\<rparr>) = calls_of c" "calls_of (c\<lparr>cm_refreshInFlight := b5\<rparr>) = calls_of c"
  "calls_of (c\<lparr>cm_tokenAwaited := b6\<rparr>) = calls_of c" "calls_of (c\<lparr>cm_livenessTimer := b7\<rparr>) = calls_of c"
  "calls_of (c\<lparr>cm_livenessPingId := b8\<rparr>) = calls_of c" "calls_of (c\<lparr>cm_pendingDisconnectError := b9\<rparr>) = calls_of c"
  "calls_of (c\<lparr>cm_acquiring := d1\<rparr>) = calls_of c" "calls_of (c\<lparr>cm_dict := d2\<rparr>) = calls_of c"
  by (simp_all add: calls_of_def)

lemma calls_frame_handlers [simp]: "calls_of (set_handler kind h c) = calls_of c"
  by (cases kind) (simp_all add: calls_of_def)

lemma calls_frame_ops [simp]:
  "calls_of (put_sock i so c) = calls_of c" "calls_of (stopLiveness c) = calls_of c"
  "calls_of (scheduleLivenessProbe d c) = calls_of c" "calls_of (startLiveness rnd c) = calls_of c"
  "calls_of (resetSchemaSyncPromise c) = calls_of c" "calls_of (handleRawMessage frame c) = calls_of c"
  "calls_of (listen_on ev h c) = calls_of c" "calls_of (listen_off ev h c) = calls_of c"
  "calls_of (snd (noteCorrelatedResponse rid c)) = calls_of c"
  by (simp_all add: put_sock_def stopLiveness_def scheduleLivenessProbe_def startLiveness_def Let_def
      resetSchemaSyncPromise_def handleRawMessage_def listen_on_def listen_off_def noteCorrelatedResponse_def
      split: option.split)

text \<open>Operations that have nothing to do with calls.\<close>

definition apart :: "conn \<Rightarrow> cstep \<Rightarrow> bool" where
  "apart c r \<longleftrightarrow> calls_of (fst r) = calls_of c \<and> answers (snd r) = {#}"

lemma apart_then: "apart c r \<Longrightarrow> (\<And>d. apart d (f d)) \<Longrightarrow> apart c (c_then r f)"
  by (simp add: apart_def)

lemma apart_accounts: "apart c r \<Longrightarrow> accounts {#} c r"
  by (simp add: apart_def accounts_frame0)

lemma apart_from: "apart d r \<Longrightarrow> calls_of d = calls_of c \<Longrightarrow> apart c r"
  by (simp add: apart_def)

lemma apart_basic [simp]:
  "apart c (emit ev c)" "apart c (setStatus st rc ri e c)" "apart c (settle_schema_sync r c)"
  "apart c (ws_close i c)" "apart c (teardownSocket c)" "apart c (scheduleReconnect rnd e c)"
  "apart c (handle_with h msg c)" "apart c (conn_connect c)" "apart c (handleSocketError k c)"
  "apart c (handleTokenExpired c)"
proof -
  show [simp]: "apart c (emit ev c)" for ev c by (simp add: apart_def emit_def)
  show [simp]: "apart c (setStatus st rc ri e c)" for st rc ri e c
    by (simp add: setStatus_def emit_def apart_def)
  show [simp]: "apart c (settle_schema_sync r c)" for r c by (simp add: apart_def settle_schema_sync_def)
  show [simp]: "apart c (ws_close i c)" for i c by (simp add: apart_def ws_close_def)
  show "apart c (teardownSocket c)"
    by (simp add: teardownSocket_def apart_def split: option.split) (simp add: ws_close_def)
  show "apart c (scheduleReconnect rnd e c)"
    by (simp add: scheduleReconnect_def Let_def apart_def setStatus_def emit_def)
  show "apart c (handle_with h msg c)" by (simp add: handle_with_def apart_def split: option.split)
  show "apart c (conn_connect c)" by (simp add: conn_connect_def Let_def apart_def setStatus_def emit_def)
  show "apart c (handleSocketError k c)"
    by (simp add: handleSocketError_def apart_def settle_schema_sync_def emit_def)
  show "apart c (handleTokenExpired c)" by (simp add: handleTokenExpired_def apart_def emit_def)
qed

section \<open>The table of requests\<close>

definition awaited :: "nat \<Rightarrow> ('r, 'e, 'c) pending \<Rightarrow> nat set" where
  \<comment> \<open>the promises without an answer and those whose answer is still unread\<close>
  "awaited seen p = set (open_promises p) \<union> fst ` set (drop seen (settlings p))"

lemma calls_ok_pending:
  assumes "calls_ok c" "pending_ok p" "awaited (cm_seen c) p = awaited (cm_seen c) (cm_pending c)"
    "length (settlings (cm_pending c)) \<le> length (settlings p)"
  shows "calls_ok (c\<lparr>cm_pending := p\<rparr>)" "under_way (c\<lparr>cm_pending := p\<rparr>) = under_way c"
  using assms by (simp_all add: calls_ok_def awaited_def under_way_def)

lemma awaited_settle_one:
  assumes "pending_ok p" "seen \<le> length (settlings p)"
  shows "awaited seen (snd (settle_one rid w p)) = awaited seen p"
    "length (settlings p) \<le> length (settlings (snd (settle_one rid w p)))"
proof -
  show "awaited seen (snd (settle_one rid w p)) = awaited seen p"
  proof (cases "om_get (entries p) rid")
    case (Some e)
    have "mset (open_promises p) = add_mset (pe_promise e) (mset (open_promises (snd (settle_one rid w p))))"
      using open_promises_delete [OF _ Some] assms(1) Some by (simp add: settle_one_def pending_ok_def open_promises_def)
    then have "set (open_promises p) = insert (pe_promise e) (set (open_promises (snd (settle_one rid w p))))"
      by (metis set_mset_mset set_mset_add_mset_insert)
    then show ?thesis using assms(2) Some by (auto simp: awaited_def settle_one_def)
  qed (simp add: settle_one_def)
qed (simp add: settle_one_def split: option.split)

lemma accounts_pending:
  assumes "calls_ok c \<Longrightarrow> pending_ok p" "calls_ok c \<Longrightarrow> awaited (cm_seen c) p = awaited (cm_seen c) (cm_pending c)"
    "length (settlings (cm_pending c)) \<le> length (settlings p)" "c' = c\<lparr>cm_pending := p\<rparr>"
  shows "accounts {#} c (c', [])"
  unfolding accounts_def using assms calls_ok_pending by simp

lemma accounts_settle: "accounts {#} c (c\<lparr>cm_pending := snd (settle_one rid w (cm_pending c))\<rparr>, [])"
proof (rule accounts_pending [OF _ _ _ refl])
  assume ok: "calls_ok c"
  then show "pending_ok (snd (settle_one rid w (cm_pending c)))" by (intro settle_one_ok) (simp add: calls_ok_def)
  show "awaited (cm_seen c) (snd (settle_one rid w (cm_pending c))) = awaited (cm_seen c) (cm_pending c)"
    by (rule awaited_settle_one) (use ok in \<open>simp_all add: calls_ok_def\<close>)
qed (simp add: settle_one_def split: option.split)

lemma accounts_reject: "accounts {#} c (snd (reject_pending rid err c), [])"
  using accounts_settle [of c rid "Rejected err"] by (simp add: reject_pending_def reject_request_def case_prod_beta)

lemma accounts_resolve: "accounts {#} c (c\<lparr>cm_pending := snd (resolve_request rid v (cm_pending c))\<rparr>, [])"
  using accounts_settle [of c rid "Resolved v"] by (simp add: resolve_request_def)

lemma awaited_rejectAll:
  assumes "k \<le> length (settlings p)"
  shows "awaited k (rejectAll err p) = awaited k p"
proof -
  have "drop k (settlings (rejectAll err p))
      = drop k (settlings p) @ map (\<lambda>entry. (pe_promise entry, Rejected err)) (map snd (entries p))"
    using assms by (simp add: rejectAll_def)
  then have "fst ` set (drop k (settlings (rejectAll err p))) = fst ` set (drop k (settlings p)) \<union> set (open_promises p)"
    by (simp only: set_append image_Un) (simp add: image_image open_promises_def)
  then show ?thesis unfolding awaited_def rejectAll_promises by (simp add: Un_commute)
qed

lemma accounts_reject_all: "accounts {#} c (reject_all err c, [])"
  by (rule accounts_pending)
    (simp_all add: reject_all_def rejectAll_ok awaited_rejectAll calls_ok_def, simp add: rejectAll_def)

lemma accounts_take_id: "accounts {#} c (snd (take_id c), [])"
proof (rule accounts_pending)
  show "snd (take_id c) = c\<lparr>cm_pending := snd (nextId (cm_pending c))\<rparr>" by (simp add: take_id_def case_prod_beta)
  show "calls_ok c \<Longrightarrow> pending_ok (snd (nextId (cm_pending c)))"
    by (auto simp: pending_ok_def nextId_def open_promises_def calls_ok_def)
qed (simp_all add: awaited_def nextId_def open_promises_def)

lemma take_id_fields [simp]:
  "cm_waiting (snd (take_id c)) = cm_waiting c" "cm_seen (snd (take_id c)) = cm_seen c"
  "cm_done (snd (take_id c)) = cm_done c" "cm_sleeping (snd (take_id c)) = cm_sleeping c"
  "cm_dict (snd (take_id c)) = cm_dict c" "cm_status (snd (take_id c)) = cm_status c"
  "cm_options (snd (take_id c)) = cm_options c" "cm_ws (snd (take_id c)) = cm_ws c"
  "cm_intentionalDisconnect (snd (take_id c)) = cm_intentionalDisconnect c"
  "fst (take_id c) = nextRequestId (cm_pending c)"
  "cm_pending (snd (take_id c)) = (cm_pending c)\<lparr>nextRequestId := nextRequestId (cm_pending c) + 1\<rparr>"
  by (simp_all add: take_id_def nextId_def)

section \<open>Sending a request\<close>

lemma awaited_register:
  assumes "pending_ok p" "p' = snd (register (nextRequestId p) ctx (snd (nextId p)))"
  shows "pending_ok p'" "awaited k p' = insert (promises p) (awaited k p)" "settlings p' = settlings p"
proof -
  show ok: "pending_ok p'" using send_ok [OF assms(1), of ctx] assms(2) by (simp add: nextId_def)
  have "om_set (entries p) (nextRequestId p) x = entries p @ [(nextRequestId p, x)]" for x
    using assms(1) by (intro om_set_fresh) (auto simp: pending_ok_def)
  then show "awaited k p' = insert (promises p) (awaited k p)"
    by (simp add: awaited_def assms(2) register_def nextId_def open_promises_def)
  show "settlings p' = settlings p" by (simp add: assms(2) register_def nextId_def)
qed

definition waits_for :: "conn \<Rightarrow> nat \<Rightarrow> conn \<Rightarrow> bool" where
  \<comment> \<open>a request was registered, and no call waits for it yet\<close>
  "waits_for c promise c' \<longleftrightarrow> promise = promises (cm_pending c) \<and> pending_ok (cm_pending c')
     \<and> awaited (cm_seen c) (cm_pending c') = insert promise (awaited (cm_seen c) (cm_pending c))
     \<and> cm_seen c \<le> length (settlings (cm_pending c'))"

definition same_queues :: "conn \<Rightarrow> conn \<Rightarrow> bool" where
  "same_queues c c' \<longleftrightarrow> cm_waiting c' = cm_waiting c \<and> cm_seen c' = cm_seen c \<and> cm_done c' = cm_done c
     \<and> cm_sleeping c' = cm_sleeping c \<and> cm_options c' = cm_options c"

lemma reject_pending_waits:
  assumes "waits_for c promise d" "cm_seen d = cm_seen c"
  shows "waits_for c promise (snd (reject_pending rid err d))"
  using assms settle_one_ok [of "cm_pending d" rid "Rejected err"]
    awaited_settle_one [of "cm_pending d" "cm_seen c" rid "Rejected err"]
  by (auto simp: waits_for_def reject_pending_def reject_request_def case_prod_beta)

lemma same_queues_reject [simp]: "same_queues c (snd (reject_pending rid err d)) = same_queues c d"
  by (simp add: same_queues_def reject_pending_def case_prod_beta)

lemma sendRequest_waits:
  assumes "sendRequest msg table c = (r, c', es)" "calls_ok c"
  shows "same_queues c c'" "answers es = {#}"
    "case r of Inl _ \<Rightarrow> calls_ok c' \<and> under_way c' = under_way c | Inr promise \<Rightarrow> waits_for c promise c'"
proof -
  define c1 where "c1 = snd (take_id c)"
  have t: "take_id c = (nextRequestId (cm_pending c), c1)"
    by (metis c1_def prod.collapse take_id_fields(10))
  define enc where "enc = encode_outbound (cm_dict c1) msg (nextRequestId (cm_pending c)) table"
  have inl: "calls_ok c1 \<and> under_way c1 = under_way c"
    using accounts_take_id [of c] assms(2) by (simp add: accounts_def c1_def)
  have q1: "same_queues c c1" by (simp add: same_queues_def c1_def)
  have "same_queues c c' \<and> answers es = {#}
     \<and> (case r of Inl _ \<Rightarrow> calls_ok c' \<and> under_way c' = under_way c | Inr promise \<Rightarrow> waits_for c promise c')"
  proof (cases enc)
    case (Inl err)
    then have "r = Inl err" "c' = c1" "es = []"
      using assms(1) by (simp_all add: sendRequest_def t enc_def)
    then show ?thesis using inl q1 by simp
  next
    case (Inr e)
    define p where "p = snd (register (nextRequestId (cm_pending c)) (eo_context e) (cm_pending c1))"
    define c2 where "c2 = c1\<lparr>cm_pending := p\<rparr>"
    have reg: "register (nextRequestId (cm_pending c)) (eo_context e) (cm_pending c1) = (promises (cm_pending c), p)"
      by (simp add: p_def register_def c1_def)
    have pok: "pending_ok (cm_pending c)" "cm_seen c \<le> length (settlings (cm_pending c))"
      using assms(2) by (simp_all add: calls_ok_def)
    have "p = snd (register (nextRequestId (cm_pending c)) (eo_context e) (snd (nextId (cm_pending c))))"
      by (simp add: p_def c1_def nextId_def)
    note a = awaited_register [OF pok(1) this]
    have w2: "waits_for c (promises (cm_pending c)) c2"
      using a pok(2) by (simp add: waits_for_def c2_def)
    have q2: "same_queues c c2" "cm_seen c2 = cm_seen c" using q1 by (simp_all add: same_queues_def c2_def)
    have s: "sendRequest msg table c =
        (if \<not> is_namespace_setup msg \<and> cm_status c2 \<noteq> Connected
         then (Inr (promises (cm_pending c)), snd (reject_pending (nextRequestId (cm_pending c)) (TZync not_ready_error) c2), [])
         else (case conn_send e c2 of
                 Inr x \<Rightarrow> (Inr (promises (cm_pending c)), c2, [x])
               | Inl err \<Rightarrow> (Inr (promises (cm_pending c)), snd (reject_pending (nextRequestId (cm_pending c)) err c2), [])))"
      using Inr unfolding c2_def by (simp add: sendRequest_def t enc_def reg Let_def)
    have x: "conn_send e c2 = Inr x \<Longrightarrow> answered x = {#}" for x
      by (auto simp: conn_send_def split: option.splits if_splits)
    show ?thesis
      using assms(1) w2 q2 x reject_pending_waits [OF w2 q2(2)] unfolding s
      by (auto split: if_splits sum.splits)
  qed
  then show "same_queues c c'" "answers es = {#}"
    "case r of Inl _ \<Rightarrow> calls_ok c' \<and> under_way c' = under_way c | Inr promise \<Rightarrow> waits_for c promise c'"
    by blast+
qed

lemma call_waits:
  assumes "calls_ok c" "waits_for c promise c'" "same_queues c c'"
  shows "calls_ok (c'\<lparr>cm_waiting := om_set (cm_waiting c') promise ca\<rparr>)"
    "under_way (c'\<lparr>cm_waiting := om_set (cm_waiting c') promise ca\<rparr>) = under_way c + tokens ca"
proof -
  have "awaited (cm_seen c) (cm_pending c) \<subseteq> {..<promises (cm_pending c)}"
    using assms(1) by (auto simp: awaited_def calls_ok_def pending_ok_def dest!: in_set_dropD)
  then have f: "promise \<notin> fst ` set (cm_waiting c')"
    using assms by (auto simp: calls_ok_def waits_for_def same_queues_def awaited_def)
  then have o: "om_set (cm_waiting c') promise ca = cm_waiting c' @ [(promise, ca)]" by (rule om_set_fresh)
  show "calls_ok (c'\<lparr>cm_waiting := om_set (cm_waiting c') promise ca\<rparr>)"
    using assms f by (simp add: calls_ok_def waits_for_def same_queues_def awaited_def om_wf_set set_keys_om_set)
  show "under_way (c'\<lparr>cm_waiting := om_set (cm_waiting c') promise ca\<rparr>) = under_way c + tokens ca"
    using assms(3) o by (simp add: under_way_def same_queues_def ac_simps)
qed

lemma calls_ok_queues [simp]:
  "calls_ok (c\<lparr>cm_done := x\<rparr>) = calls_ok c" "calls_ok (c\<lparr>cm_sleeping := y\<rparr>) = calls_ok c"
  by (simp_all add: calls_ok_def)

lemma under_way_done [simp]: "under_way (c\<lparr>cm_done := cm_done c @ [(ca, r)]\<rparr>) = under_way c + tokens ca"
  by (simp add: under_way_def union_assoc)

lemma accounts_run_call: "accounts (tokens ca) c (run_call ca c)"
proof -
  obtain r c' es where s: "sendRequest (ca_message ca) (ca_table ca) c = (r, c', es)" by (metis prod_cases3)
  have "calls_ok (fst (run_call ca c)) \<and> under_way (fst (run_call ca c)) + answers (snd (run_call ca c)) = under_way c + tokens ca"
    if ok: "calls_ok c"
  proof (cases r)
    case (Inl err)
    then show ?thesis using sendRequest_waits [OF s ok] by (simp add: run_call_def s)
  next
    case (Inr promise)
    then show ?thesis using sendRequest_waits [OF s ok] call_waits [OF ok, of promise c' ca]
      by (simp add: run_call_def s)
  qed
  then show ?thesis by (simp add: accounts_def)
qed

lemma accounts_dispatchNoRetry: "accounts {#t#} c (dispatchNoRetry msg t c)"
proof -
  obtain r c' es where s: "sendRequest msg None c = (r, c', es)" by (metis prod_cases3)
  have "calls_ok (fst (dispatchNoRetry msg t c))
      \<and> under_way (fst (dispatchNoRetry msg t c)) + answers (snd (dispatchNoRetry msg t c)) = under_way c + {#t#}"
    if ok: "calls_ok c"
  proof (cases r)
    case (Inl err)
    then show ?thesis using sendRequest_waits [OF s ok] by (simp add: dispatchNoRetry_def s)
  next
    case (Inr promise)
    then show ?thesis using sendRequest_waits [OF s ok] call_waits [OF ok, of promise c']
      by (simp add: dispatchNoRetry_def s)
  qed
  then show ?thesis by (simp add: accounts_def)
qed

lemma accounts_conn_dispatch: "accounts (purpose_tokens why) c (conn_dispatch msg table why c)"
  using accounts_run_call [of "new_call msg table why" c] by (simp add: conn_dispatch_def new_call_def)

section \<open>What the events do to the calls\<close>

lemma sum_list_om_delete:
  fixes f :: "'k \<times> 'v \<Rightarrow> 'a :: comm_monoid_add"
  assumes "om_wf m" "om_get m k = Some v"
  shows "sum_list (map f m) = f (k, v) + sum_list (map f (om_delete m k))"
  using assms
proof (induction m)
  case (Cons p m)
  obtain k' v' where p: "p = (k', v')" by (cases p)
  show ?case
  proof (cases "k' = k")
    case True
    then have "om_delete m k = m" using Cons.prems p by (intro om_delete_absent) (simp add: om_get_None_iff)
    then show ?thesis using Cons.prems p True by (simp add: om_delete_def)
  next
    case False
    then have "om_delete ((k', v') # m) k = (k', v') # om_delete m k" by (simp add: om_delete_def)
    then show ?thesis using Cons p False by (simp add: add.left_commute)
  qed
qed simp

lemma accounts_request_settled:
  assumes "cm_seen c < length (settlings (cm_pending c))"
  shows "accounts {#} c (request_settled rnd c)"
proof -
  obtain promise outcome where n: "settlings (cm_pending c) ! cm_seen c = (promise, outcome)" by force
  define c' where "c' = c\<lparr>cm_seen := Suc (cm_seen c), cm_waiting := om_delete (cm_waiting c) promise\<rparr>"
  have "calls_ok (fst (request_settled rnd c)) \<and> under_way (fst (request_settled rnd c)) + answers (snd (request_settled rnd c)) = under_way c"
    if ok: "calls_ok c"
  proof -
    let ?p = "cm_pending c"
    have d: "drop (cm_seen c) (settlings ?p) = (promise, outcome) # drop (Suc (cm_seen c)) (settlings ?p)"
      using Cons_nth_drop_Suc [OF assms] n by simp
    have k: "fst ` set (cm_waiting c) = insert promise (set (open_promises ?p) \<union> fst ` set (drop (Suc (cm_seen c)) (settlings ?p)))"
      using ok by (auto simp: calls_ok_def d)
    have dist: "distinct (open_promises ?p @ map fst (settlings ?p))"
      using ok by (simp add: calls_ok_def pending_ok_def)
    have "settlings ?p = take (cm_seen c) (settlings ?p) @ (promise, outcome) # drop (Suc (cm_seen c)) (settlings ?p)"
      by (metis append_take_drop_id d)
    then have "map fst (settlings ?p) = map fst (take (cm_seen c) (settlings ?p)) @ promise # map fst (drop (Suc (cm_seen c)) (settlings ?p))"
      by (metis (no_types, lifting) fst_conv list.simps(9) map_append)
    then have f: "promise \<notin> set (open_promises ?p) \<union> fst ` set (drop (Suc (cm_seen c)) (settlings ?p))"
      using dist by auto
    then have "fst ` set (om_delete (cm_waiting c) promise)
        = set (open_promises ?p) \<union> fst ` set (drop (Suc (cm_seen c)) (settlings ?p))"
      unfolding keys_om_delete k by auto
    then have "calls_ok c'" using ok assms by (simp add: calls_ok_def c'_def om_wf_delete)
    moreover obtain ca where ca: "om_get (cm_waiting c) promise = Some ca"
      using k by (metis insertI1 not_None_eq om_get_None_iff)
    moreover have "sum_list (map (\<lambda>x. tokens (snd x)) (cm_waiting c))
        = tokens ca + sum_list (map (\<lambda>x. tokens (snd x)) (om_delete (cm_waiting c) promise))"
      using ok sum_list_om_delete [OF _ ca, of "\<lambda>x. tokens (snd x)"] by (simp add: calls_ok_def)
    ultimately show ?thesis
      by (auto simp: request_settled_def n Let_def c'_def [symmetric] split: settled.split)
        (simp_all add: under_way_def c'_def ac_simps)
  qed
  then show ?thesis by (simp add: accounts_def)
qed

lemma under_way_wake:
  assumes "k < length (cm_sleeping c)" "cm_sleeping c ! k = (ca, err, d)"
  shows "under_way c = under_way (c\<lparr>cm_sleeping := take k (cm_sleeping c) @ drop (Suc k) (cm_sleeping c)\<rparr>) + tokens ca"
proof -
  have "cm_sleeping c = take k (cm_sleeping c) @ (ca, err, d) # drop (Suc k) (cm_sleeping c)"
    using id_take_nth_drop [OF assms(1)] assms(2) by simp
  then have "sum_list (map (\<lambda>x. tokens (fst x)) (cm_sleeping c))
     = sum_list (map (\<lambda>x. tokens (fst x)) (take k (cm_sleeping c) @ (ca, err, d) # drop (Suc k) (cm_sleeping c)))"
    by simp
  then show ?thesis by (simp add: under_way_def ac_simps)
qed

lemma accounts_call_wakes:
  assumes "k < length (cm_sleeping c)"
  shows "accounts {#} c (call_wakes k c)"
proof -
  obtain ca err d where n: "cm_sleeping c ! k = (ca, err, d)" by (metis prod_cases3)
  define c' where "c' = c\<lparr>cm_sleeping := take k (cm_sleeping c) @ drop (Suc k) (cm_sleeping c)\<rparr>"
  have u: "under_way c = under_way c' + tokens ca" using under_way_wake [OF assms n] by (simp add: c'_def)
  have w: "call_wakes k c = (if cm_intentionalDisconnect c' then (c'\<lparr>cm_done := cm_done c' @ [(ca, Inl err)]\<rparr>, [])
      else run_call (ca\<lparr>ca_attempt := Suc (ca_attempt ca)\<rparr>) c')"
    by (simp add: call_wakes_def n Let_def c'_def)
  have ok: "calls_ok c' = calls_ok c" by (simp add: c'_def)
  show ?thesis
    using accounts_run_call [of "ca\<lparr>ca_attempt := Suc (ca_attempt ca)\<rparr>" c'] u ok
    unfolding w by (simp add: accounts_def)
qed

lemma accounts_into: "accounts {#} c (d, []) \<Longrightarrow> accounts new d r \<Longrightarrow> accounts new c r"
  by (simp add: accounts_def)

lemma apart_here [simp]: "apart c (c, es) \<longleftrightarrow> answers es = {#}"
  by (simp add: apart_def)

lemma accounts_apart [simp, intro]: "apart d r \<Longrightarrow> calls_of d = calls_of c \<Longrightarrow> accounts {#} c r"
  by (rule apart_accounts) (rule apart_from)

lemma accounts_reject_all_then: "apart (reject_all err c) r \<Longrightarrow> accounts {#} c r"
  by (rule accounts_into [OF accounts_reject_all]) (rule apart_accounts)

lemma apart_ticket_error: "apart c (handleTicketError err k rnd c)"
  unfolding handleTicketError_def Let_def by (auto intro!: apart_then)

lemma accounts_handshake_failure: "accounts {#} c (handleHandshakeFailure err k rnd c)"
  unfolding handleHandshakeFailure_def
proof (intro accounts_then0, goal_cases)
  case 1
  show ?case by (rule accounts_apart [OF apart_basic(5)]) simp
next
  case (2 d)
  show ?case by (rule accounts_reject_all_then [of err]) simp
qed (auto intro!: apart_accounts)

lemma accounts_socket_close: "accounts {#} c (handleSocketClose code reason rnd c)"
  unfolding handleSocketClose_def Let_def
proof (intro accounts_then0, goal_cases)
  case 1
  show ?case by (rule accounts_apart [OF apart_basic(3)]) simp
next
  case (2 d)
  show ?case
    by (rule accounts_reject_all_then [of "TZync (close_error code reason (stopLiveness c))"]) (auto intro!: apart_then)
qed (auto intro!: apart_accounts)

lemma accounts_ticket: "accounts {#} c (ticket_answered k r rnd c)"
proof (cases r)
  case (Inl err)
  then show ?thesis by (auto simp: ticket_answered_def Let_def intro: accounts_apart [OF apart_ticket_error])
next
  case (Inr ticket)
  then show ?thesis by (simp add: ticket_answered_def Let_def accounts_frame0)
qed

lemma accounts_disconnect: "accounts {#} c (conn_disconnect c)"
  unfolding conn_disconnect_def Let_def
proof (intro accounts_then0, goal_cases)
  case 1
  show ?case
    by (auto intro!: accounts_frame0 split: option.split simp: ws_close_def)
next
  case (3 d)
  show ?case by (rule accounts_reject_all_then [of "TZync disconnected_error"]) simp
qed (auto intro: apart_accounts)

lemma accounts_api_answer: "accounts {#} c (api_answer who r rnd c) \<or> (\<exists>t. who = ByCaller t)"
proof (cases who)
  case (ByHandshake i)
  then show ?thesis by (cases r) (simp_all add: api_answer_def accounts_handshake_failure apart_accounts)
next
  case ByRefresh
  have "apart d (d\<lparr>cm_refreshInFlight := False\<rparr>, [])" for d by (simp add: apart_def)
  then show ?thesis using ByRefresh
    by (cases r) (auto simp: api_answer_def intro!: apart_accounts apart_then)
qed simp

lemma accounts_api: "accounts (requester_tokens who) c (api_answer who r rnd c)"
proof (cases who)
  case (ByCaller t)
  then show ?thesis by (simp add: api_answer_def accounts_def)
qed (use accounts_api_answer [of c who r rnd] in auto)

lemma apart_handshake_complete: "apart c (handshake_complete i c)"
  unfolding handshake_complete_def
  by (intro apart_then) (auto intro: apart_from [of "c\<lparr>cm_reconnectAttempt := 0\<rparr>"])

lemma accounts_store_namespace_set:
  "accounts (requester_tokens who) c (store_namespace_set ns who r rnd c)"
proof (cases r)
  case (Inl err)
  then show ?thesis by (simp add: store_namespace_set_def accounts_api)
next
  case (Inr ok)
  define d where "d = c\<lparr>cm_storeNamespace := ns\<rparr>"
  have d: "calls_of d = calls_of c" by (simp add: d_def)
  show ?thesis
  proof (cases who)
    case (ByHandshake i)
    have "accounts {#} d (conn_setPresenceNamespace (cm_presenceNamespace d) who d)"
      using accounts_conn_dispatch [of "ForPresenceNamespace (cm_presenceNamespace d) who" d] ByHandshake
      by (simp add: conn_setPresenceNamespace_def)
    then show ?thesis using ByHandshake Inr accounts_from [OF _ d]
      by (simp add: store_namespace_set_def d_def Let_def)
  qed (use Inr accounts_from [OF accounts_api d, of who _ rnd] in \<open>simp_all add: store_namespace_set_def d_def Let_def\<close>)
qed

lemma accounts_presence_namespace_set:
  "accounts (requester_tokens who) c (presence_namespace_set ns who r rnd c)"
proof (cases "and_then r presence_user_of")
  case (Inl err)
  then show ?thesis by (simp add: presence_namespace_set_def accounts_api)
next
  case (Inr userId)
  have a: "accounts {#} c (c\<lparr>cm_presenceNamespace := ns\<rparr>,
      case cm_presenceUserIdHandler c of None \<Rightarrow> [] | Some h \<Rightarrow> [CUserId h userId])"
    by (simp add: accounts_frame0 split: option.split)
  have b: "accounts (requester_tokens who) d
      (case who of ByHandshake i \<Rightarrow> handshake_complete i d | _ \<Rightarrow> api_answer who (Inr ()) rnd d)" for d
    using apart_accounts [OF apart_handshake_complete] accounts_api [of who d "Inr ()" rnd] by (cases who) simp_all
  show ?thesis using accounts_then [OF a b] unfolding presence_namespace_set_def Inr by simp
qed

lemma accounts_call_settled:
  assumes "cm_done c \<noteq> []"
  shows "accounts {#} c (call_settled rnd c)"
proof -
  obtain ca r rest where n: "cm_done c = (ca, r) # rest" using assms by (metis list.exhaust surj_pair)
  define d where "d = c\<lparr>cm_done := rest\<rparr>"
  have u: "under_way c = under_way d + tokens ca" by (simp add: under_way_def d_def n ac_simps)
  have ok: "calls_ok d = calls_ok c" by (simp add: d_def)
  have "accounts (tokens ca) d (call_settled rnd c)"
    using accounts_api [of _ d _ rnd] accounts_store_namespace_set [of _ d] accounts_presence_namespace_set [of _ d]
    by (cases "ca_purpose ca") (simp_all add: call_settled_def n Let_def d_def [symmetric] accounts_def)
  then show ?thesis using u ok by (simp add: accounts_def)
qed

lemma accounts_socket_opened: "accounts {#} c (socket_opened i rnd c)"
proof -
  define d where "d = startLiveness rnd (put_sock i ((sock i c)\<lparr>so_state := SockOpen\<rparr>) c)"
  have "accounts {#} d (socket_opened i rnd c)"
    using accounts_conn_dispatch [of "ForStoreNamespace (cm_storeNamespace d) (ByHandshake i)" d]
    by (simp add: socket_opened_def conn_setStoreNamespace_def Let_def d_def [symmetric])
  then show ?thesis by (rule accounts_from) (simp add: d_def)
qed

lemma accounts_ping: "accounts {#} c (sendLivenessPing c)"
proof (cases "cm_ws c")
  case (Some i)
  obtain rid d where t: "take_id c = (rid, d)" by (cases "take_id c")
  have a: "accounts {#} c (d, [])" using accounts_take_id [of c] t by simp
  have x: "conn_send e d' = Inr x \<Longrightarrow> answered x = {#}" for e d' x
    by (auto simp: conn_send_def split: option.splits if_splits)
  have "apart d (case encode_outbound (cm_dict d) OutPing rid None of
      Inl err \<Rightarrow> c_then (emit (EvError err) d) (ws_close i)
    | Inr bytes \<Rightarrow> (case conn_send bytes (d\<lparr>cm_livenessPingId := Some rid\<rparr>) of
        Inl _ \<Rightarrow> ws_close i (d\<lparr>cm_livenessPingId := Some rid\<rparr>)
      | Inr e \<Rightarrow> (d\<lparr>cm_livenessPingId := Some rid, cm_livenessTimer := Some (PingTimeout rid i)\<rparr>, [e])))"
    by (auto simp: apart_def x ws_close_def emit_def split: sum.split)
  note b = accounts_into [OF a apart_accounts [OF this]]
  show ?thesis
  proof (cases "\<not> sock_open i c \<or> cm_intentionalDisconnect c")
    case True
    then show ?thesis using Some by (auto simp: sendLivenessPing_def apart_accounts)
  next
    case False
    then show ?thesis using b Some unfolding sendLivenessPing_def Let_def by (simp add: t)
  qed
qed (simp add: sendLivenessPing_def apart_accounts)

lemma accounts_liveness: "accounts {#} c (liveness_fire c)"
proof -
  have "accounts {#} c (sendLivenessPing (c\<lparr>cm_livenessTimer := None\<rparr>))"
    by (rule accounts_from [OF accounts_ping]) simp
  moreover have "accounts {#} c (ws_close i (c\<lparr>cm_livenessTimer := None, cm_livenessPingId := None\<rparr>))" for i
    by (rule accounts_apart [OF apart_basic(4)]) simp
  ultimately show ?thesis
    by (auto simp: liveness_fire_def Let_def accounts_frame0 apart_accounts split: option.split liveness_timer.split)
qed

lemma accounts_handleOk: "accounts {#} c (snd (handleOkResponse ok c), [])"
proof -
  have "accounts {#} c (d, []) \<Longrightarrow> accounts {#} c (d\<lparr>cm_pending := snd (resolve_request rid v (cm_pending d))\<rparr>, [])"
    "accounts {#} c (d, []) \<Longrightarrow> accounts {#} c (snd (reject_pending rid err d), [])" for d rid v err
    using accounts_into accounts_resolve accounts_reject by blast+
  moreover have "accounts {#} c (snd (noteCorrelatedResponse rid c), [])" for rid by (simp add: accounts_frame0)
  ultimately show ?thesis
    by (auto simp: handleOkResponse_def Let_def accounts_frame0 split: option.split sum.split)
qed

lemma accounts_handleError: "accounts {#} c (snd (handleErrorResponse e c), [])"
proof -
  have r: "accounts {#} c (d, [])" if "reject_pending rid err c = (b, d)" for rid err b d
    using accounts_reject [of c rid err] that by simp
  have n: "accounts {#} c (d, []) \<Longrightarrow> accounts {#} c (snd (noteCorrelatedResponse rid d), [])" for rid d
    by (rule accounts_into [of c d]) (simp_all add: accounts_frame0)
  show ?thesis
    by (auto simp: handleErrorResponse_def accounts_frame0 split: option.split prod.split bool.split intro: r n)
qed

lemma accounts_inbound: "accounts {#} c (snd (dispatchInbound H msg c))"
proof -
  have rest: "accounts {#} c r \<Longrightarrow> accounts {#} c (c_then r (\<lambda>c. handle_with (cm_messageHandler c) msg c))" for c r
    by (rule accounts_then0) (simp_all add: apart_accounts)
  have sync: "accounts {#} c (snd (handleSchemaSync H p c))" for p c
  proof -
    obtain r d where pd: "processSchemaSync H p (cm_dict c) = (r, d)" by (cases "processSchemaSync H p (cm_dict c)")
    define c' where "c' = c\<lparr>cm_dict := d\<rparr>"
    have "apart c' (snd (handleSchemaSync H p c))"
      by (cases r) (auto simp: handleSchemaSync_def pd c'_def [symmetric] intro!: apart_then)
    then show ?thesis by (rule accounts_apart) (simp add: c'_def)
  qed
  have ok: "accounts {#} c (d, [])" if "handleOkResponse ps c = (b, d)" for ps b d
    using accounts_handleOk [of c ps] that by simp
  have err: "accounts {#} c (d, [])" if "handleErrorResponse ps c = (b, d)" for ps b d
    using accounts_handleError [of c ps] that by simp
  have tok: "accounts {#} c (handleTokenExpired d)" if "handleErrorResponse ps c = (b, d)" for ps b d
    by (rule accounts_into [OF err [OF that]]) (rule apart_accounts, simp)
  show ?thesis
  proof (cases msg)
    case (InObject name ps)
    have pd: "accounts {#} c (c\<lparr>cm_pendingDisconnectError := e\<rparr>, [])" for e by (simp add: accounts_frame0)
    have nil: "accounts {#} c (c, [])" by (simp add: apart_accounts)
    consider "name = ''SchemaSync''" | "name = ''ok''" | "name = ''error''" | "name = ''ServerDisconnect''"
      | "name \<notin> {''SchemaSync'', ''ok'', ''error'', ''ServerDisconnect''}" by blast
    then show ?thesis
    proof cases
      case 1
      then show ?thesis unfolding InObject
        by (cases "schema_message ps") (simp_all add: dispatchInbound_def nil sync)
    next
      case 2
      obtain b d where h: "handleOkResponse ps c = (b, d)" by (cases "handleOkResponse ps c")
      show ?thesis using 2 rest [OF ok [OF h]] ok [OF h] unfolding InObject
        by (cases b) (simp_all add: dispatchInbound_def h)
    next
      case 3
      obtain b d where h: "handleErrorResponse ps c = (b, d)" by (cases "handleErrorResponse ps c")
      show ?thesis using 3 rest [OF err [OF h]] rest [OF tok [OF h]] err [OF h] unfolding InObject
        by (cases b) (simp_all add: dispatchInbound_def h)
    next
      case 4
      then show ?thesis using rest [OF pd] unfolding InObject by (simp add: dispatchInbound_def)
    next
      case 5
      then show ?thesis using rest [OF nil] unfolding InObject by (simp add: dispatchInbound_def)
    qed
  qed (simp_all add: dispatchInbound_def apart_accounts apart_then)
qed

lemma accounts_process:
  assumes "cm_chains c ! k \<noteq> []"
  shows "accounts {#} c (processInbound H k c)"
proof -
  have put: "accounts {#} d (d\<lparr>cm_chains := fs\<rparr>, [])" for d fs by (simp add: accounts_frame0)
  obtain frame frames where f: "cm_chains c ! k = frame # frames" using assms by (cases "cm_chains c ! k") auto
  show ?thesis
  proof (cases frame)
    case Nil
    then show ?thesis using f put by (simp add: processInbound_def)
  next
    case (Cons raw raws)
    show ?thesis
    proof (cases "decodeMessage (cm_dict c) raw")
      case None
      then show ?thesis using f Cons put by (simp add: processInbound_def)
    next
      case (Some msg)
      obtain b r where i: "dispatchInbound H msg c = (b, r)" by (cases "dispatchInbound H msg c")
      have "accounts {#} c (c_then r (\<lambda>d. (d\<lparr>cm_chains := (cm_chains d)[k := fs]\<rparr>, [])))" for fs
        using accounts_inbound [of c H msg] i put by (auto intro!: accounts_then0)
      then show ?thesis using f Cons Some i by (cases b) (simp_all add: processInbound_def Let_def)
    qed
  qed
qed

lemma conn_accounts_step:
  assumes "conn_enabled ev c"
  shows "accounts (issued ev) c (conn_step H ev c)"
proof (cases ev)
  case (ConnClosed i code reason rnd)
  show ?thesis unfolding ConnClosed
    by (auto simp: Let_def intro: accounts_from [OF accounts_socket_close] accounts_frame0)
next
  case (ConnSocketError i)
  then show ?thesis by (simp add: apart_accounts)
next
  case (ConnToken r rnd)
  have d: "calls_of (c\<lparr>cm_tokenAwaited := False\<rparr>) = calls_of c" by simp
  show ?thesis unfolding ConnToken
    using accounts_from [OF accounts_api [of ByRefresh _ _ rnd] d]
      accounts_from [OF accounts_conn_dispatch [of "ForAuthRefresh ByRefresh"] d]
    by (cases r) (simp_all add: token_provided_def Let_def conn_authRefresh_def)
next
  case ConnReconnectTimer
  then show ?thesis by (auto intro: accounts_apart [OF apart_basic(8)])
next
  case (ConnDispatch msg table t)
  then show ?thesis using accounts_conn_dispatch [of "ForCaller t" c msg table] by simp
next
  case (ConnSetStoreNamespace ns t)
  then show ?thesis
    using accounts_conn_dispatch [of "ForStoreNamespace ns (ByCaller t)"] by (simp add: conn_setStoreNamespace_def)
next
  case (ConnSetPresenceNamespace ns t)
  then show ?thesis
    using accounts_conn_dispatch [of "ForPresenceNamespace ns (ByCaller t)"] by (simp add: conn_setPresenceNamespace_def)
next
  case (ConnAuthRefresh token t)
  then show ?thesis
    using accounts_conn_dispatch [of "ForAuthRefresh (ByCaller t)"] by (simp add: conn_authRefresh_def)
qed (use assms in \<open>auto simp: accounts_disconnect accounts_dispatchNoRetry accounts_ticket accounts_socket_opened
    accounts_liveness accounts_call_wakes accounts_request_settled accounts_call_settled accounts_process
    accounts_frame0 apart_accounts\<close>)

lemma apart_pending: "apart c r \<Longrightarrow> cm_pending (fst r) = cm_pending c"
  by (simp add: apart_def calls_of_def)

lemma pending_after_close:
  "cm_pending (fst (handleSocketClose code reason rnd c))
     = rejectAll (TZync (close_error code reason (stopLiveness c))) (cm_pending c)"
proof -
  let ?e = "TZync (close_error code reason (stopLiveness c))"
  have a: "apart (reject_all ?e d) (c_then (if cm_status (reject_all ?e d) = Connected \<or> \<not> b
        then c_then (setStatus Disconnected None None (Some ?e) (reject_all ?e d))
               (\<lambda>c. emit (EvDisconnected (disconnectDetail (close_error code reason (stopLiveness c0)) b c)) c)
        else (reject_all ?e d, []))
      (\<lambda>c. if b then scheduleReconnect rnd (Some ?e) c else emit (EvError ?e) c))" for d b c0
    by (auto intro!: apart_then)
  have s: "cm_pending (fst (settle_schema_sync r d)) = cm_pending d" for r d
    by (rule apart_pending) simp
  show ?thesis unfolding handleSocketClose_def Let_def c_then_simps(1) [of "settle_schema_sync _ _"]
    by (subst apart_pending [OF a]) (simp add: reject_all_def s stopLiveness_def)
qed

lemma pending_after_disconnect:
  "cm_pending (fst (conn_disconnect c)) = rejectAll (TZync disconnected_error) (cm_pending c)"
proof -
  have s: "cm_pending (fst (settle_schema_sync r d)) = cm_pending d" "cm_pending (fst (setStatus st a b e d)) = cm_pending d"
    "cm_pending (fst (emit ev d)) = cm_pending d" "cm_pending (fst (ws_close i d)) = cm_pending d" for r d st a b e ev i
    by (rule apart_pending, simp)+
  show ?thesis
    by (simp add: conn_disconnect_def Let_def s reject_all_def split: option.split)
      (simp add: put_sock_def stopLiveness_def)
qed

text \<open>C39: No call of the connection is ever lost: in every run, each promise that the API handed
  out is either under way or was settled, never both and never twice. A call that waits, waits
  for a request that is in the table of pending requests or whose answer is recorded and due to
  be read; and both an intentional disconnect and the end of the socket leave no request in the
  table, so no call waits for an answer that cannot come.\<close>

theorem connection_calls_never_lost:
  assumes "conn_run H options evs c es"
  shows "sum_list (map (\<lambda>(ev, _). issued ev) evs) = under_way c + answers es
    \<and> fst ` set (cm_waiting c) =
        set (open_promises (cm_pending c)) \<union> fst ` set (drop (cm_seen c) (settlings (cm_pending c)))
    \<and> open_promises (cm_pending (fst (conn_step H ConnDisconnect c))) = []
    \<and> (so_onclose (sock i c) \<longrightarrow>
         open_promises (cm_pending (fst (conn_step H (ConnClosed i code reason rnd) c))) = [])"
proof -
  have "calls_ok c \<and> sum_list (map (\<lambda>(ev, _). issued ev) evs) = under_way c + answers es"
    using assms
  proof (rule conn_run_invariant)
    fix c
    assume "new_conn options = Inr c"
    note n = new_conn_start [OF this]
    show "calls_ok c \<and> sum_list (map (\<lambda>(ev, _). issued ev) []) = under_way c + answers []"
      using pending_init_ok by (simp add: calls_ok_def under_way_def n) (simp add: pending_init_def open_promises_def)
  next
    fix evs :: "(conn_event \<times> conn) list" and c es ev
    assume p: "calls_ok c \<and> sum_list (map (\<lambda>(ev, _). issued ev) evs) = under_way c + answers es"
      and e: "conn_enabled ev c"
    have a: "calls_ok (fst (conn_step H ev c))"
      "under_way (fst (conn_step H ev c)) + answers (snd (conn_step H ev c)) = under_way c + issued ev"
      using conn_accounts_step [OF e, of H] p by (simp_all add: accounts_def)
    have "sum_list (map (\<lambda>(ev, _). issued ev) (evs @ [(ev, c)])) = (under_way c + issued ev) + answers es"
      using p by (simp add: ac_simps)
    also have "\<dots> = (under_way (fst (conn_step H ev c)) + answers (snd (conn_step H ev c))) + answers es"
      by (simp only: a(2))
    also have "\<dots> = under_way (fst (conn_step H ev c)) + answers (es @ snd (conn_step H ev c))"
      by (simp add: ac_simps)
    finally show "calls_ok (fst (conn_step H ev c)) \<and> sum_list (map (\<lambda>(ev, _). issued ev) (evs @ [(ev, c)]))
        = under_way (fst (conn_step H ev c)) + answers (es @ snd (conn_step H ev c))"
      using a(1) by blast
  qed
  then show ?thesis
    by (simp add: calls_ok_def pending_after_disconnect Let_def pending_after_close)
qed

lemma connection_calls_never_lost_witness:
  "\<exists>tr c es. conn_run (\<lambda>_. 0) sample_options tr c es \<and> tr \<noteq> []
     \<and> sum_list (map (\<lambda>(ev, _). issued ev) tr) = under_way c + answers es"
proof -
  let ?d = "sample_drive [ConnDispatch OutPresenceRemove None 7, ConnRequestSettled 0, ConnCallSettled 0]"
  have r: "snd (snd (snd ?d))" by code_simp
  have n: "fst ?d \<noteq> []" by code_simp
  show ?thesis using connection_calls_never_lost [OF sample_drive [OF r]] sample_drive [OF r] n by blast
qed

end
