(* ===== verification/ConnectionSafety.thy ===== *)
theory ConnectionSafety
  imports ConnectionRuns
begin

text \<open>
  What the runs of the connection manager guarantee beyond conservation: the retries of a call
  come to an end, a timer is armed whenever the status or a ping depends on one, nothing stays
  scheduled after an intentional disconnect, and every end of a socket is either terminal and
  reported or followed by a scheduled attempt.
\<close>

section \<open>Retries\<close>

definition retry_budget :: "client_options \<Rightarrow> nat" where
  "retry_budget o1 =
     (if retryServerErrors (op_retry o1) = Some False then 0 else opt_or (maxServerRetries (op_retry o1)) 3)"

definition server_failure :: "thrown \<Rightarrow> bool" where
  "server_failure err \<longleftrightarrow> (case err of TZync e \<Rightarrow> ze_code e \<in> {''INTERNAL_ERROR'', ''ENGINE_UNHEALTHY''} | _ \<Rightarrow> False)"

fun retries_server_error :: "conn_event \<times> conn \<Rightarrow> bool" where
  \<comment> \<open>a call is sent again because of a failure of the server\<close>
  "retries_server_error (ConnWake k, c) \<longleftrightarrow>
     \<not> cm_intentionalDisconnect c \<and> (case cm_sleeping c ! k of (_, err, _) \<Rightarrow> server_failure err)"
| "retries_server_error _ \<longleftrightarrow> False"

fun may_start_call :: "conn_event \<Rightarrow> bool" where
  "may_start_call (ConnDispatch _ _ _) = True"
| "may_start_call (ConnDispatchNoRetry _ _) = True"
| "may_start_call (ConnSetStoreNamespace _ _) = True"
| "may_start_call (ConnSetPresenceNamespace _ _) = True"
| "may_start_call (ConnAuthRefresh _ _) = True"
| "may_start_call (ConnOpened _ _) = True"
| "may_start_call (ConnToken _ _) = True"
| "may_start_call (ConnCallSettled _) = True"
| "may_start_call _ = False"

definition queues :: "conn \<Rightarrow> _" where
  "queues c = (cm_waiting c, cm_sleeping c, cm_options c)"

definition left_over :: "conn \<Rightarrow> call \<Rightarrow> nat" where
  "left_over c ca = retry_budget (cm_options c) - ca_attempt ca"

definition potential :: "conn \<Rightarrow> nat" where
  \<comment> \<open>how many more times the calls under way can be sent again after failures of the server\<close>
  "potential c = sum_list (map (\<lambda>x. left_over c (snd x)) (cm_waiting c))
     + sum_list (map (\<lambda>x. left_over c (fst x)) (cm_sleeping c))"

definition retries_ok :: "conn \<Rightarrow> bool" where
  "retries_ok c \<longleftrightarrow> (\<forall>(ca, err, _) \<in> set (cm_sleeping c). shouldRetry (op_retry (cm_options c)) err (ca_attempt ca))"

lemma queues_cong: "queues c = queues d \<Longrightarrow> potential c = potential d \<and> retries_ok c = retries_ok d \<and> cm_options c = cm_options d"
  by (simp add: queues_def potential_def retries_ok_def left_over_def)

lemma queues_fields [simp]:
  "queues (c\<lparr>cm_ws := a1\<rparr>) = queues c" "queues (c\<lparr>cm_sockets := a2\<rparr>) = queues c"
  "queues (c\<lparr>cm_connects := a3\<rparr>) = queues c" "queues (c\<lparr>cm_listeners := a4\<rparr>) = queues c"
  "queues (c\<lparr>cm_reconnectAttempt := a5\<rparr>) = queues c" "queues (c\<lparr>cm_reconnectTimer := a6\<rparr>) = queues c"
  "queues (c\<lparr>cm_intentionalDisconnect := a7\<rparr>) = queues c" "queues (c\<lparr>cm_status := a8\<rparr>) = queues c"
  "queues (c\<lparr>cm_storeNamespace := a9\<rparr>) = queues c" "queues (c\<lparr>cm_presenceNamespace := b1\<rparr>) = queues c"
  "queues (c\<lparr>cm_chains := b2\<rparr>) = queues c" "queues (c\<lparr>cm_schemaSyncs := b3\<rparr>) = queues c"
  "queues (c\<lparr>cm_schemaSyncOpen := b4\<rparr>) = queues c" "queues (c\<lparr>cm_refreshInFlight := b5\<rparr>) = queues c"
  "queues (c\<lparr>cm_tokenAwaited := b6\<rparr>) = queues c" "queues (c\<lparr>cm_livenessTimer := b7\<rparr>) = queues c"
  "queues (c\<lparr>cm_livenessPingId := b8\<rparr>) = queues c" "queues (c\<lparr>cm_pendingDisconnectError := b9\<rparr>) = queues c"
  "queues (c\<lparr>cm_acquiring := d1\<rparr>) = queues c" "queues (c\<lparr>cm_dict := d2\<rparr>) = queues c"
  "queues (c\<lparr>cm_pending := d3\<rparr>) = queues c" "queues (c\<lparr>cm_done := d4\<rparr>) = queues c"
  by (simp_all add: queues_def)

lemma queues_handlers [simp]: "queues (set_handler kind h c) = queues c"
  by (cases kind) (simp_all add: queues_def)

lemma queues_ops [simp]:
  "queues (put_sock i so c) = queues c" "queues (stopLiveness c) = queues c"
  "queues (scheduleLivenessProbe d c) = queues c" "queues (startLiveness rnd c) = queues c"
  "queues (resetSchemaSyncPromise c) = queues c" "queues (handleRawMessage frame c) = queues c"
  "queues (listen_on ev h c) = queues c" "queues (listen_off ev h c) = queues c"
  "queues (snd (noteCorrelatedResponse rid c)) = queues c" "queues (snd (take_id c)) = queues c"
  "queues (snd (reject_pending rid err c)) = queues c" "queues (reject_all err c) = queues c"
  by (simp_all add: put_sock_def stopLiveness_def scheduleLivenessProbe_def startLiveness_def Let_def take_id_def
      resetSchemaSyncPromise_def handleRawMessage_def listen_on_def listen_off_def noteCorrelatedResponse_def
      reject_pending_def reject_all_def split: option.split prod.split)

lemma queues_steps [simp]:
  "queues (fst (emit ev c)) = queues c" "queues (fst (setStatus st rc ri e c)) = queues c"
  "queues (fst (settle_schema_sync r c)) = queues c" "queues (fst (ws_close i c)) = queues c"
  "queues (fst (handle_with h msg c)) = queues c"
  by (simp_all add: emit_def setStatus_def settle_schema_sync_def ws_close_def handle_with_def)

lemma queues_composed [simp]:
  "queues (fst (teardownSocket c)) = queues c" "queues (fst (scheduleReconnect rnd e c)) = queues c"
  "queues (fst (conn_connect c)) = queues c" "queues (fst (handleSocketError k c)) = queues c"
  "queues (fst (handleTokenExpired c)) = queues c" "queues (fst (handshake_complete i c)) = queues c"
  "queues (fst (conn_disconnect c)) = queues c" "queues (fst (handleTicketError err k rnd c)) = queues c"
  by (simp_all add: teardownSocket_def scheduleReconnect_def conn_connect_def handleSocketError_def
      handleTokenExpired_def handshake_complete_def conn_disconnect_def handleTicketError_def Let_def
      split: option.split)

lemma queues_closing [simp]:
  "queues (fst (handleHandshakeFailure err k rnd c)) = queues c"
  "queues (fst (handleSocketClose code reason rnd c)) = queues c"
  "queues (fst (ticket_answered k r rnd c)) = queues c"
  "queues (fst (api_answer who r' rnd c)) = queues c"
proof -
  show h: "queues (fst (handleHandshakeFailure err k rnd c)) = queues c" for err k rnd c
    by (simp add: handleHandshakeFailure_def)
  show "queues (fst (handleSocketClose code reason rnd c)) = queues c"
    by (simp add: handleSocketClose_def Let_def)
  show "queues (fst (ticket_answered k r rnd c)) = queues c"
    by (cases r) (simp_all add: ticket_answered_def Let_def)
  show "queues (fst (api_answer who r' rnd c)) = queues c"
    by (cases who; cases r') (simp_all add: api_answer_def h)
qed

definition grows :: "conn \<Rightarrow> cstep \<Rightarrow> bool" where
  \<comment> \<open>at most one new call\<close>
  "grows c r \<longleftrightarrow> (calls_ok c \<longrightarrow> potential (fst r) \<le> potential c + retry_budget (cm_options c)
     \<and> cm_options (fst r) = cm_options c \<and> (retries_ok c \<longrightarrow> retries_ok (fst r)))"

lemma grows_same: "queues (fst r) = queues c \<Longrightarrow> grows c r"
  by (drule queues_cong) (simp add: grows_def)

lemma grows_from: "grows d r \<Longrightarrow> queues d = queues c \<Longrightarrow> calls_of d = calls_of c \<Longrightarrow> grows c r"
  by (drule queues_cong, drule calls_of_cong) (simp add: grows_def)

lemma sum_list_om_set_le:
  fixes f :: "'k \<times> 'v \<Rightarrow> nat"
  shows "sum_list (map f (om_set m k v)) \<le> sum_list (map f m) + f (k, v)"
  by (induction m) auto

lemma run_call_potential:
  assumes "calls_ok c"
  shows "potential (fst (run_call ca c)) \<le> potential c + left_over c ca"
    "cm_options (fst (run_call ca c)) = cm_options c" "cm_sleeping (fst (run_call ca c)) = cm_sleeping c"
proof -
  obtain r c' es where s: "sendRequest (ca_message ca) (ca_table ca) c = (r, c', es)" by (metis prod_cases3)
  have q: "cm_waiting c' = cm_waiting c" "cm_sleeping c' = cm_sleeping c" "cm_options c' = cm_options c"
    using sendRequest_waits(1) [OF s assms] by (simp_all add: same_queues_def)
  have "sum_list (map (\<lambda>x. left_over c (snd x)) (om_set (cm_waiting c) promise ca))
      \<le> sum_list (map (\<lambda>x. left_over c (snd x)) (cm_waiting c)) + left_over c ca" for promise
    using sum_list_om_set_le [of "\<lambda>x. left_over c (snd x)"] by simp
  then show "potential (fst (run_call ca c)) \<le> potential c + left_over c ca"
    using q by (cases r) (simp_all add: run_call_def s potential_def left_over_def)
  show "cm_options (fst (run_call ca c)) = cm_options c" "cm_sleeping (fst (run_call ca c)) = cm_sleeping c"
    using q by (cases r; simp add: run_call_def s)+
qed

lemma grows_dispatch: "grows c (conn_dispatch msg table why c)"
  using run_call_potential [of c "new_call msg table why"]
  by (simp add: grows_def conn_dispatch_def left_over_def new_call_def retries_ok_def)

lemma grows_dispatchNoRetry: "grows c (dispatchNoRetry msg t c)"
proof -
  obtain r c' es where s: "sendRequest msg None c = (r, c', es)" by (metis prod_cases3)
  define ca where "ca = \<lparr>ca_message = msg, ca_table = None, ca_attempt = 0, ca_retry = False, ca_purpose = ForCaller t\<rparr>"
  have "sum_list (map (\<lambda>x. left_over c (snd x)) (om_set (cm_waiting c) promise ca))
      \<le> sum_list (map (\<lambda>x. left_over c (snd x)) (cm_waiting c)) + retry_budget (cm_options c)" for promise
    using sum_list_om_set_le [of "\<lambda>x. left_over c (snd x)" "cm_waiting c" promise ca] by (simp add: left_over_def ca_def)
  then have "calls_ok c \<Longrightarrow> potential (fst (dispatchNoRetry msg t c)) \<le> potential c + retry_budget (cm_options c)
      \<and> cm_options (fst (dispatchNoRetry msg t c)) = cm_options c
      \<and> cm_sleeping (fst (dispatchNoRetry msg t c)) = cm_sleeping c"
    using sendRequest_waits(1) [OF s]
    by (cases r) (simp_all add: dispatchNoRetry_def s potential_def left_over_def same_queues_def ca_def)
  then show ?thesis by (simp add: grows_def retries_ok_def)
qed

lemma grows_call_settled: "grows c (call_settled rnd c)"
proof -
  have store: "grows d (store_namespace_set ns who r rnd d)" for ns who r d
  proof -
    have "grows (d\<lparr>cm_storeNamespace := ns\<rparr>) (conn_setPresenceNamespace p who (d\<lparr>cm_storeNamespace := ns\<rparr>))" for p
      by (simp add: conn_setPresenceNamespace_def grows_dispatch)
    then have "grows d (conn_setPresenceNamespace p who (d\<lparr>cm_storeNamespace := ns\<rparr>))" for p
      by (rule grows_from) simp_all
    then show ?thesis
      by (cases r; cases who) (simp_all add: store_namespace_set_def Let_def grows_same)
  qed
  have presence: "queues (fst (presence_namespace_set ns who r rnd d)) = queues d" for ns who r d
    by (simp add: presence_namespace_set_def split: sum.split requester.split)
  show ?thesis
  proof (cases "cm_done c")
    case (Cons x rest)
    obtain ca r where x: "x = (ca, r)" by force
    define d where "d = c\<lparr>cm_done := rest\<rparr>"
    have "grows d (call_settled rnd c)"
      using store [of d] presence [of _ _ _ d]
      by (cases "ca_purpose ca") (simp_all add: call_settled_def Cons x Let_def d_def [symmetric] grows_same)
    moreover have "calls_ok d = calls_ok c" "queues d = queues c" by (simp_all add: d_def)
    ultimately show ?thesis using queues_cong [of d c] by (simp add: grows_def)
  qed (simp add: call_settled_def grows_same)
qed

lemma settled_keeps_budget:
  assumes "calls_ok c" "retries_ok c"
  shows "potential (fst (request_settled rnd c)) \<le> potential c \<and> retries_ok (fst (request_settled rnd c))
    \<and> cm_options (fst (request_settled rnd c)) = cm_options c"
proof -
  obtain promise outcome where n: "settlings (cm_pending c) ! cm_seen c = (promise, outcome)" by force
  let ?f = "\<lambda>x. left_over c (snd x)"
  show ?thesis
  proof (cases "om_get (cm_waiting c) promise")
    case None
    then have "om_delete (cm_waiting c) promise = cm_waiting c"
      by (intro om_delete_absent) (simp add: om_get_None_iff)
    then show ?thesis using assms None
      by (simp add: request_settled_def n Let_def potential_def left_over_def retries_ok_def)
  next
    case (Some ca)
    have "sum_list (map ?f (cm_waiting c)) = left_over c ca + sum_list (map ?f (om_delete (cm_waiting c) promise))"
      using sum_list_om_delete [OF _ Some, of ?f] assms(1) by (simp add: calls_ok_def)
    then show ?thesis using assms(2) Some
      by (cases outcome) (auto simp: request_settled_def n Let_def potential_def left_over_def retries_ok_def)
  qed
qed

lemma queues_liveness [simp]: "queues (fst (liveness_fire c)) = queues c"
proof -
  have t: "queues d' = queues d" if "take_id d = (rid, d')" for d d' rid
    using queues_ops(10) [of d] that by simp
  have "queues (fst (sendLivenessPing d)) = queues d" for d
    by (auto simp: sendLivenessPing_def Let_def split: option.split prod.split sum.split dest: t)
  then show ?thesis
    by (auto simp: liveness_fire_def Let_def split: option.split liveness_timer.split)
qed

lemma queues_inbound [simp]: "queues (fst (snd (dispatchInbound H msg c))) = queues c"
proof -
  have ok: "queues (snd (handleOkResponse ps c)) = queues c" for ps c
    by (auto simp: handleOkResponse_def Let_def split: option.split sum.split)
  have err: "queues (snd (handleErrorResponse ps c)) = queues c" for ps c
  proof -
    have "queues d = queues c" if "reject_pending rid e c = (b, d)" for rid e b d
      using queues_ops(11) [of rid e c] that by simp
    then show ?thesis by (auto simp: handleErrorResponse_def split: option.split prod.split bool.split)
  qed
  have sync: "queues (fst (snd (handleSchemaSync H p c))) = queues c" for p c
    by (auto simp: handleSchemaSync_def split: prod.split sum.split)
  have "queues d = queues c" if "handleOkResponse ps c = (b, d)" for ps b d using ok [of ps c] that by simp
  moreover have "queues d = queues c" if "handleErrorResponse ps c = (b, d)" for ps b d using err [of ps c] that by simp
  ultimately show ?thesis
    by (cases msg) (auto simp: dispatchInbound_def Let_def sync split: option.split prod.split bool.split)
qed

lemma queues_process [simp]: "queues (fst (processInbound H k c)) = queues c"
proof -
  have "queues (fst r) = queues c" if "dispatchInbound H msg c = (b, r)" for msg b r
    using queues_inbound [of H msg c] that by simp
  then show ?thesis
    by (auto simp: processInbound_def Let_def split: list.split option.split prod.split bool.split)
qed

lemma grows_step:
  assumes "may_start_call ev \<or> (\<forall>k. ev \<noteq> ConnWake k) \<and> (\<forall>rnd. ev \<noteq> ConnRequestSettled rnd)"
  shows "grows c (conn_step H ev c)"
    and "\<not> may_start_call ev \<Longrightarrow> queues (fst (conn_step H ev c)) = queues c"
proof -
  show q: "queues (fst (conn_step H ev c)) = queues c" if "\<not> may_start_call ev"
    using assms that by (cases ev) (simp_all add: Let_def)
  show "grows c (conn_step H ev c)"
  proof (cases "may_start_call ev")
    case True
    have opened: "grows c (socket_opened i rnd c)" for i rnd
    proof -
      define d where "d = startLiveness rnd (put_sock i ((sock i c)\<lparr>so_state := SockOpen\<rparr>) c)"
      have "grows d (socket_opened i rnd c)"
        by (simp add: socket_opened_def conn_setStoreNamespace_def Let_def d_def [symmetric] grows_dispatch)
      then show ?thesis by (rule grows_from) (simp_all add: d_def)
    qed
    have token: "grows c (token_provided r rnd c)" for r rnd
      by (cases r) (auto simp: token_provided_def Let_def conn_authRefresh_def grows_same
          intro: grows_from [OF grows_dispatch])
    from True show ?thesis
      by (cases ev) (simp_all add: opened token grows_dispatch grows_dispatchNoRetry grows_call_settled
          conn_setStoreNamespace_def conn_setPresenceNamespace_def conn_authRefresh_def)
  qed (simp add: grows_same q)
qed

lemma wake_spends:
  assumes "calls_ok c" "retries_ok c" "k < length (cm_sleeping c)"
  shows "potential (fst (call_wakes k c)) + (if retries_server_error (ConnWake k, c) then 1 else 0) \<le> potential c"
    "retries_ok (fst (call_wakes k c))" "cm_options (fst (call_wakes k c)) = cm_options c"
proof -
  obtain ca err d where n: "cm_sleeping c ! k = (ca, err, d)" by (metis prod_cases3)
  define c' where "c' = c\<lparr>cm_sleeping := take k (cm_sleeping c) @ drop (Suc k) (cm_sleeping c)\<rparr>"
  have split: "cm_sleeping c = take k (cm_sleeping c) @ (ca, err, d) # drop (Suc k) (cm_sleeping c)"
    using id_take_nth_drop [OF assms(3)] n by simp
  have "sum_list (map (\<lambda>x. left_over c (fst x)) (cm_sleeping c))
     = sum_list (map (\<lambda>x. left_over c (fst x)) (take k (cm_sleeping c) @ (ca, err, d) # drop (Suc k) (cm_sleeping c)))"
    using split by simp
  then have p: "potential c = potential c' + left_over c ca"
    by (simp add: potential_def left_over_def c'_def)
  have ok: "calls_ok c'" using assms(1) by (simp add: c'_def)
  have r': "retries_ok c'"
    using assms(2) by (auto simp: retries_ok_def c'_def dest: in_set_takeD in_set_dropD)
  define ca' where "ca' = ca\<lparr>ca_attempt := Suc (ca_attempt ca)\<rparr>"
  have w: "call_wakes k c = (if cm_intentionalDisconnect c then (c'\<lparr>cm_done := cm_done c' @ [(ca, Inl err)]\<rparr>, []) else run_call ca' c')"
    by (simp add: call_wakes_def n Let_def c'_def ca'_def)
  note run = run_call_potential [OF ok, of ca']
  have "shouldRetry (op_retry (cm_options c)) err (ca_attempt ca)"
    using assms(2) nth_mem [OF assms(3)] n unfolding retries_ok_def by fastforce
  then have att: "server_failure err \<Longrightarrow> ca_attempt ca < retry_budget (cm_options c)"
    by (auto simp: shouldRetry_def server_failure_def retry_budget_def opt_or_def split: thrown.splits if_splits option.splits)
  then have l: "left_over c' ca' + (if server_failure err then 1 else 0) \<le> left_over c ca"
    by (auto simp: left_over_def c'_def ca'_def)
  show "potential (fst (call_wakes k c)) + (if retries_server_error (ConnWake k, c) then 1 else 0) \<le> potential c"
  proof (cases "cm_intentionalDisconnect c")
    case True
    have "potential (c'\<lparr>cm_done := x\<rparr>) = potential c'" for x by (simp add: potential_def left_over_def)
    then show ?thesis using p True unfolding w by simp
  next
    case False
    then show ?thesis using run(1) l p unfolding w by (simp add: n)
  qed
  show "retries_ok (fst (call_wakes k c))"
    using r' run(2,3) unfolding w by (simp add: retries_ok_def)
  show "cm_options (fst (call_wakes k c)) = cm_options c"
    using run(2) unfolding w by (simp add: c'_def)
qed

lemma retry_invariant:
  assumes "conn_run H options evs c es"
  shows "calls_ok c \<and> retries_ok c \<and> cm_options c = options
    \<and> length (filter retries_server_error evs) + potential c
      \<le> retry_budget options * length (filter (\<lambda>(ev, _). may_start_call ev) evs)"
proof -
  let ?n = "\<lambda>evs. length (filter retries_server_error evs)"
  let ?m = "\<lambda>evs. length (filter (\<lambda>(ev, _). may_start_call ev) evs)"
  show ?thesis
    using assms
  proof (rule conn_run_invariant)
    fix c
    assume "new_conn options = Inr c"
    note n = new_conn_start [OF this]
    show "calls_ok c \<and> retries_ok c \<and> cm_options c = options \<and> ?n [] + potential c \<le> retry_budget options * ?m []"
      using pending_init_ok
      by (simp add: calls_ok_def retries_ok_def potential_def n) (simp add: pending_init_def open_promises_def)
  next
    fix evs :: "(conn_event \<times> conn) list" and c es ev
    assume i: "calls_ok c \<and> retries_ok c \<and> cm_options c = options \<and> ?n evs + potential c \<le> retry_budget options * ?m evs"
      and e: "conn_enabled ev c"
    let ?c = "fst (conn_step H ev c)"
    have ok: "calls_ok ?c" using conn_accounts_step [OF e, of H] i by (simp add: accounts_def)
    show "calls_ok ?c \<and> retries_ok ?c \<and> cm_options ?c = options
        \<and> ?n (evs @ [(ev, c)]) + potential ?c \<le> retry_budget options * ?m (evs @ [(ev, c)])"
    proof (cases ev)
      case (ConnWake k)
      then show ?thesis using wake_spends [of c k] i e ok by auto
    next
      case (ConnRequestSettled rnd)
      then show ?thesis using settled_keeps_budget [of c rnd] i ok by auto
    qed (use grows_step(1) [of ev c H] grows_step(2) [of ev H c] queues_cong [of ?c c] i ok in \<open>auto simp: grows_def distrib_left\<close>)
  qed
qed

text \<open>C0: Retrying comes to an end. In every run, the requests that are sent again because of a
  failure of the server are at most \<open>maxServerRetries\<close> for every event that can start a call,
  however failures, disconnects and timers interleave: a call that keeps failing is given up,
  and the retries alone never keep the client busy. (An answer RATE_LIMITED is retried without
  bound; it is not counted and never restores the budget.)\<close>

theorem server_error_retries_terminate:
  assumes "conn_run H options evs c es"
  shows "length (filter retries_server_error evs)
    \<le> retry_budget options * length (filter (\<lambda>(ev, _). may_start_call ev) evs)"
  using retry_invariant [OF assms] by linarith

lemma server_error_retries_terminate_witness:
  "\<exists>tr c es. conn_run (\<lambda>_. 0) sample_options tr c es \<and> length (filter retries_server_error tr) = 1
     \<and> length (filter retries_server_error tr) \<le> 3 * length (filter (\<lambda>(ev, _). may_start_call ev) tr)"
proof -
  let ?d = "sample_drive [ConnCall, ConnTicket 0 (Inr ''t'') 0, ConnOpened 0 0,
     ConnFrame 0 [JObj [(''type'', JNum (Fin 1)), (''id'', JNum (Fin 1)), (''code'', JStr ''INTERNAL_ERROR'')]],
     ConnProcess 1, ConnRequestSettled 0, ConnWake 0]"
  have r: "snd (snd (snd ?d))" by code_simp
  have n: "length (filter retries_server_error (fst ?d)) = 1" by code_simp
  have b: "retry_budget sample_options = 3" by code_simp
  show ?thesis using server_error_retries_terminate [OF sample_drive [OF r]] sample_drive [OF r] n unfolding b by blast
qed

section \<open>Timers\<close>

text \<open>The fields that the timers are about, and the steps that leave them alone.\<close>

definition timers :: "conn \<Rightarrow> _" where
  "timers c = (cm_status c, cm_reconnectTimer c, cm_intentionalDisconnect c, cm_livenessTimer c, cm_livenessPingId c,
     cm_reconnectAttempt c, cm_options c)"

definition timers_ok :: "conn \<Rightarrow> bool" where
  "timers_ok c \<longleftrightarrow>
     (cm_status c = Reconnecting \<longrightarrow> cm_reconnectTimer c \<noteq> None)
     \<and> (cm_intentionalDisconnect c \<longrightarrow>
          cm_reconnectTimer c = None \<and> cm_livenessTimer c = None \<and> cm_livenessPingId c = None)
     \<and> (\<forall>rid. cm_livenessPingId c = Some rid \<longleftrightarrow> (\<exists>i. cm_livenessTimer c = Some (PingTimeout rid i)))
     \<and> (cm_reconnectAttempt c = 0 \<or> \<not> num_ge (nat_num (cm_reconnectAttempt c - 1)) (max_attempts c))"

lemma timers_cong: "timers c = timers d \<Longrightarrow> timers_ok c = timers_ok d"
  by (simp add: timers_def timers_ok_def max_attempts_def)

lemma timers_fields [simp]:
  "timers (c\<lparr>cm_ws := a1\<rparr>) = timers c" "timers (c\<lparr>cm_sockets := a2\<rparr>) = timers c"
  "timers (c\<lparr>cm_connects := a3\<rparr>) = timers c" "timers (c\<lparr>cm_listeners := a4\<rparr>) = timers c"
  "timers (c\<lparr>cm_storeNamespace := a9\<rparr>) = timers c" "timers (c\<lparr>cm_presenceNamespace := b1\<rparr>) = timers c"
  "timers (c\<lparr>cm_chains := b2\<rparr>) = timers c" "timers (c\<lparr>cm_schemaSyncs := b3\<rparr>) = timers c"
  "timers (c\<lparr>cm_schemaSyncOpen := b4\<rparr>) = timers c" "timers (c\<lparr>cm_refreshInFlight := b5\<rparr>) = timers c"
  "timers (c\<lparr>cm_tokenAwaited := b6\<rparr>) = timers c" "timers (c\<lparr>cm_pendingDisconnectError := b9\<rparr>) = timers c"
  "timers (c\<lparr>cm_acquiring := d1\<rparr>) = timers c" "timers (c\<lparr>cm_dict := d2\<rparr>) = timers c"
  "timers (c\<lparr>cm_pending := d3\<rparr>) = timers c" "timers (c\<lparr>cm_done := d4\<rparr>) = timers c"
  "timers (c\<lparr>cm_waiting := d5\<rparr>) = timers c" "timers (c\<lparr>cm_sleeping := d6\<rparr>) = timers c"
  "timers (c\<lparr>cm_seen := d7\<rparr>) = timers c" "timers (set_handler kind h c) = timers c"
  "timers (put_sock i so c) = timers c" "timers (reject_all err c) = timers c"
  "timers (snd (reject_pending rid err c)) = timers c" "timers (snd (take_id c)) = timers c"
  "timers (resetSchemaSyncPromise c) = timers c" "timers (handleRawMessage frame c) = timers c"
  "timers (listen_on ev h c) = timers c" "timers (listen_off ev h c) = timers c"
  by (cases kind; simp add: timers_def put_sock_def reject_all_def reject_pending_def take_id_def case_prod_beta
      resetSchemaSyncPromise_def handleRawMessage_def Let_def listen_on_def listen_off_def split: option.split)+

lemma timers_steps [simp]:
  "timers (fst (emit ev c)) = timers c" "timers (fst (settle_schema_sync r c)) = timers c"
  "timers (fst (ws_close i c)) = timers c" "timers (fst (handle_with h msg c)) = timers c"
  "timers (fst (teardownSocket c)) = timers c" "timers (fst (handleSocketError k c)) = timers c"
  "timers (fst (handleTokenExpired c)) = timers c"
proof -
  show [simp]: "timers (fst (emit ev c)) = timers c" "timers (fst (settle_schema_sync r c)) = timers c"
    "timers (fst (ws_close i c)) = timers c" "timers (fst (handle_with h msg c)) = timers c" for ev c r i h msg
    by (simp_all add: emit_def settle_schema_sync_def ws_close_def handle_with_def)
  show "timers (fst (teardownSocket c)) = timers c" "timers (fst (handleSocketError k c)) = timers c"
    "timers (fst (handleTokenExpired c)) = timers c"
    by (simp_all add: teardownSocket_def handleSocketError_def handleTokenExpired_def split: option.split)
qed

lemma timers_requests [simp]:
  "timers (fst (snd (sendRequest msg table c))) = timers c" "timers (fst (run_call ca c)) = timers c"
  "timers (fst (conn_dispatch msg table why c)) = timers c" "timers (fst (dispatchNoRetry msg t c)) = timers c"
  "timers (fst (request_settled rnd c)) = timers c" "timers (fst (call_wakes k c)) = timers c"
proof -
  show s [simp]: "timers (fst (snd (sendRequest msg table c))) = timers c" for msg table c
  proof -
    have t: "timers d = timers c" if "take_id c = (rid, d)" for rid d
      using timers_fields(24) [of c] that by simp
    show ?thesis
      by (auto simp: sendRequest_def Let_def t split: prod.split sum.split)
  qed
  have s': "timers d = timers c" if "sendRequest msg table c = (r, d, es)" for msg table c r d es
    using s [of msg table c] that by simp
  show r [simp]: "timers (fst (run_call ca c)) = timers c" for ca c
    by (auto simp: run_call_def split: prod.split sum.split dest: s')
  show "timers (fst (conn_dispatch msg table why c)) = timers c" by (simp add: conn_dispatch_def)
  show "timers (fst (dispatchNoRetry msg t c)) = timers c"
    by (auto simp: dispatchNoRetry_def split: prod.split sum.split dest: s')
  show "timers (fst (request_settled rnd c)) = timers c"
    by (auto simp: request_settled_def Let_def split: prod.split option.split settled.split)
  show "timers (fst (call_wakes k c)) = timers c"
    by (auto simp: call_wakes_def Let_def split: prod.split)
qed

lemma keeps_same: "timers (fst r) = timers c \<Longrightarrow> keeps timers_ok c r"
  by (drule timers_cong) (simp add: keeps_def)

definition timers_held :: "bool \<Rightarrow> conn \<Rightarrow> bool" where
  \<comment> \<open>with the flag of an intentional disconnect\<close>
  "timers_held b c \<longleftrightarrow> timers_ok c \<and> cm_intentionalDisconnect c = b"

lemma held_same: "timers (fst r) = timers c \<Longrightarrow> keeps (timers_held b) c r"
  using timers_cong [of "fst r" c] by (auto simp: keeps_def timers_held_def timers_def)

lemma keeps_held: "(\<And>b. keeps (timers_held b) c r) \<Longrightarrow> keeps timers_ok c r"
  by (auto simp: keeps_def timers_held_def)

lemma held_setStatus: "st \<noteq> Reconnecting \<Longrightarrow> keeps (timers_held b) c (setStatus st rc ri e c)"
  by (simp add: keeps_def timers_held_def timers_ok_def setStatus_def emit_def max_attempts_def)

lemma held_scheduleReconnect: "\<not> b \<Longrightarrow> keeps (timers_held b) c (scheduleReconnect rnd e c)"
  by (simp add: keeps_def timers_held_def timers_ok_def scheduleReconnect_def setStatus_def emit_def Let_def max_attempts_def)

lemma held_stopLiveness: "timers_held b c \<Longrightarrow> timers_held b (stopLiveness c)"
  by (simp add: timers_held_def timers_ok_def stopLiveness_def max_attempts_def)

lemma held_cong: "timers d = timers c \<Longrightarrow> timers_held b d = timers_held b c"
  using timers_cong [of d c] by (simp add: timers_held_def timers_def)

lemma held_handshake_failure: "keeps (timers_held b) c (handleHandshakeFailure err k rnd c)"
  unfolding handleHandshakeFailure_def
proof (intro keeps_then, goal_cases)
  case 1
  show ?case by (rule keeps_from [OF held_same held_stopLiveness]) simp_all
next
  case (5 d)
  show ?case
  proof (cases b)
    case True
    then show ?thesis by (auto simp: keeps_def timers_held_def shouldReconnectAfterHandshake_def)
  next
    case False
    then show ?thesis by (simp add: held_scheduleReconnect held_same)
  qed
qed (simp_all add: held_same held_setStatus)

lemma held_ticket: "keeps (timers_held b) c (ticket_answered k r rnd c)"
proof (cases r)
  case (Inl err)
  define d where "d = c\<lparr>cm_acquiring := remove1 k (cm_acquiring c)\<rparr>"
  have "keeps (timers_held b) d (handleTicketError err k rnd d)"
    unfolding handleTicketError_def Let_def
  proof (intro keeps_then, goal_cases)
    case (4 e)
    show ?case
      by (cases b) (auto simp: held_scheduleReconnect held_same, simp add: keeps_def timers_held_def)
  qed (simp_all add: held_same held_setStatus)
  then show ?thesis using Inl held_cong [of d c] by (simp add: ticket_answered_def Let_def d_def keeps_def)
next
  case (Inr ticket)
  then show ?thesis by (simp add: ticket_answered_def Let_def held_same)
qed

lemma held_close: "keeps (timers_held b) c (handleSocketClose code reason rnd c)"
proof -
  define err where "err = close_error code reason (stopLiveness c)"
  have status: "keeps (timers_held b) x (if cm_status x = Connected \<or> \<not> w
       then c_then (setStatus Disconnected None None e x) (\<lambda>c. emit (f c) c) else (x, []))" for x w e f
  proof (cases "cm_status x = Connected \<or> \<not> w")
    case True
    have "keeps (timers_held b) x (c_then (setStatus Disconnected None None e x) (\<lambda>c. emit (f c) c))"
      by (rule keeps_then) (simp_all add: held_setStatus held_same)
    then show ?thesis using True by simp
  qed (simp add: held_same)
  have rest: "keeps (timers_held b) x
      (c_then (if cm_status x = Connected \<or> \<not> willRetryAfter err x
               then c_then (setStatus Disconnected None None e x) (\<lambda>c. emit (f c) c) else (x, []))
         (\<lambda>c. if willRetryAfter err x then scheduleReconnect rnd e c else emit ev c))" for x e f ev
  proof (cases "willRetryAfter err x \<and> b")
    case True
    then show ?thesis by (simp add: keeps_def timers_held_def willRetryAfter_def)
  next
    case False
    then show ?thesis
      by (intro keeps_then [OF status]) (auto simp: held_scheduleReconnect held_same)
  qed
  define c1 where "c1 = (stopLiveness c)\<lparr>cm_pendingDisconnectError := None\<rparr>"
  have "keeps (timers_held b) c1 (handleSocketClose code reason rnd c)"
    unfolding handleSocketClose_def Let_def c1_def [symmetric] err_def [symmetric]
  proof (rule keeps_then, goal_cases)
    case (2 d)
    show ?case
      using held_cong [of "reject_all (TZync err) d" d b] by (intro keeps_from [OF rest]) simp
  qed (simp add: held_same)
  moreover have "timers_held b c \<Longrightarrow> timers_held b c1"
    using held_stopLiveness [of b c] held_cong [of c1 "stopLiveness c" b] by (simp add: c1_def)
  ultimately show ?thesis by (rule keeps_from)
qed

lemma timers_ok_attempt:
  "timers_ok c \<Longrightarrow> cm_reconnectAttempt c = 0 \<or> \<not> num_ge (nat_num (cm_reconnectAttempt c - 1)) (max_attempts c)"
  by (simp add: timers_ok_def)

lemma connect_timers_ok:
  assumes "cm_reconnectAttempt c = 0 \<or> \<not> num_ge (nat_num (cm_reconnectAttempt c - 1)) (max_attempts c)"
  shows "timers_ok (fst (conn_connect c))"
  using assms
  by (simp add: conn_connect_def Let_def stopLiveness_def setStatus_def emit_def resetSchemaSyncPromise_def
      timers_ok_def max_attempts_def)

lemma disconnect_timers_ok:
  assumes "timers_ok c"
  shows "timers_ok (fst (conn_disconnect c)) \<and> cm_status (fst (conn_disconnect c)) = Disconnected
    \<and> cm_intentionalDisconnect (fst (conn_disconnect c)) \<and> cm_ws (fst (conn_disconnect c)) = None"
proof -
  have s: "timers (fst (settle_schema_sync r d)) = timers d" "cm_ws (fst (settle_schema_sync r d)) = cm_ws d" for r d
    by (simp_all add: settle_schema_sync_def)
  define d where "d = (stopLiveness (c\<lparr>cm_intentionalDisconnect := True\<rparr>))\<lparr>cm_reconnectTimer := None\<rparr>"
  define d2 where "d2 = fst (case cm_ws d of None \<Rightarrow> (d, [])
      | Some i \<Rightarrow> c_then (ws_close i (put_sock i ((sock i d)\<lparr>so_onclose := False\<rparr>) d)) (\<lambda>c. (c\<lparr>cm_ws := None\<rparr>, [])))"
  have d2: "timers d2 = timers d" "cm_ws d2 = None" by (simp_all add: d2_def split: option.split)
  define d3 where "d3 = reject_all (TZync disconnected_error) (fst (rejectSchemaSync (TZync disconnected_error) d2))"
  have d3: "timers d3 = timers d" "cm_ws d3 = None" using d2 s by (simp_all add: d3_def) (simp add: reject_all_def s)
  have f: "fst (conn_disconnect c) = d3\<lparr>cm_status := Disconnected\<rparr>"
    unfolding conn_disconnect_def Let_def c_then_simps d_def [symmetric] d2_def [symmetric] d3_def [symmetric]
    by (simp add: setStatus_def emit_def)
  show ?thesis using assms d3 unfolding f
    by (simp add: timers_ok_def timers_def d_def stopLiveness_def max_attempts_def)
qed

lemma liveness_timers_ok:
  assumes "timers_ok c"
  shows "timers_ok (fst (liveness_fire c))"
proof (cases "cm_livenessTimer c")
  case None
  then show ?thesis using assms by (simp add: liveness_fire_def)
next
  case (Some t)
  define c' where "c' = c\<lparr>cm_livenessTimer := None\<rparr>"
  show ?thesis
  proof (cases t)
    case (PingTimeout rid i)
    define c2 where "c2 = c\<lparr>cm_livenessTimer := None, cm_livenessPingId := None\<rparr>"
    have "timers_ok c2" using assms by (simp add: timers_ok_def c2_def max_attempts_def)
    moreover have "timers_ok (fst (ws_close i c2)) = timers_ok c2" by (rule timers_cong) simp
    moreover have "cm_livenessPingId c = Some rid"
      using assms Some PingTimeout by (auto simp: timers_ok_def)
    ultimately show ?thesis using Some PingTimeout
      by (simp add: liveness_fire_def Let_def c2_def)
  next
    case (Probe remaining)
    have pid: "cm_livenessPingId c = None" and i: "\<not> cm_intentionalDisconnect c"
      using assms Some Probe by (cases "cm_livenessPingId c"; auto simp: timers_ok_def)+
    have ok: "timers_ok c'" using assms pid by (simp add: timers_ok_def c'_def max_attempts_def)
    have ping: "timers_ok (fst (sendLivenessPing c'))"
    proof (cases "cm_ws c'")
      case None
      then show ?thesis using ok by (simp add: sendLivenessPing_def)
    next
      case (Some i)
      obtain rid d where t: "take_id c' = (rid, d)" by (cases "take_id c'")
      have d: "timers d = timers c'" "cm_ws d = Some i" "sock_open i d = sock_open i c'"
        using timers_fields(24) [of c'] take_id_fields(8) [of c'] t Some
        by (auto simp: take_id_def case_prod_beta sock_open_def sock_def)
      have okd: "timers_ok d" using timers_cong [OF d(1)] ok by simp
      have s: "sock_open i d \<Longrightarrow> conn_send b (d\<lparr>cm_livenessPingId := Some rid\<rparr>) = Inr (CTransmit i b)" for b
        using d(2) by (simp add: conn_send_def sock_open_def sock_def)
      have dt: "\<not> cm_intentionalDisconnect d" "cm_livenessPingId d = None"
        using d(1) pid i by (simp_all add: timers_def c'_def)
      show ?thesis
      proof (cases "\<not> sock_open i c' \<or> cm_intentionalDisconnect c'")
        case True
        then show ?thesis using Some ok by (auto simp: sendLivenessPing_def)
      next
        case False
        have e: "timers_ok (fst (c_then (emit (EvError err) d) (ws_close i))) = timers_ok d" for err
          by (rule timers_cong) simp
        have p: "timers_ok (d\<lparr>cm_livenessPingId := Some rid, cm_livenessTimer := Some (PingTimeout rid i)\<rparr>)"
          using okd dt by (simp add: timers_ok_def max_attempts_def)
        show ?thesis using False Some s d(3) e okd p
          by (cases "encode_outbound (cm_dict d) OutPing rid None") (simp_all add: sendLivenessPing_def t Let_def)
      qed
    qed
    have "timers_ok (c\<lparr>cm_livenessTimer := Some (Probe x)\<rparr>)" for x
      using assms pid i by (simp add: timers_ok_def max_attempts_def)
    then show ?thesis using Some Probe ping by (simp add: liveness_fire_def Let_def c'_def)
  qed
qed

lemma note_timers_ok: "timers_ok c \<Longrightarrow> timers_ok (snd (noteCorrelatedResponse rid c))"
  by (auto simp: noteCorrelatedResponse_def Let_def scheduleLivenessProbe_def timers_ok_def max_attempts_def)

lemma start_timers_ok: "timers_ok c \<Longrightarrow> timers_ok (startLiveness rnd c)"
  by (auto simp: startLiveness_def stopLiveness_def Let_def scheduleLivenessProbe_def timers_ok_def max_attempts_def)

lemma ok_same: "timers d = timers c \<Longrightarrow> timers_ok c \<Longrightarrow> timers_ok d"
  by (drule timers_cong) simp

lemma inbound_timers_ok:
  assumes "timers_ok c"
  shows "timers_ok (fst (snd (dispatchInbound H msg c)))"
proof -
  have n: "timers_ok (snd (noteCorrelatedResponse rid c))" for rid by (rule note_timers_ok [OF assms])
  have p: "timers_ok (d\<lparr>cm_pending := x\<rparr>)" "timers_ok (snd (reject_pending rid e d))" if "timers_ok d" for d x rid e
    by (rule ok_same [OF _ that], simp)+
  have ok: "timers_ok (snd (handleOkResponse ps c))" for ps
    unfolding handleOkResponse_def Let_def
    by (auto split: option.split sum.split intro!: p n assms)
  have err: "timers_ok (snd (handleErrorResponse ps c))" for ps
  proof -
    have "timers_ok d" if "reject_pending rid e c = (b, d)" for rid e b d
      using p(2) [OF assms, of rid e] that by simp
    then show ?thesis unfolding handleErrorResponse_def
      by (auto split: option.split prod.split bool.split intro!: note_timers_ok n assms)
  qed
  have sync: "timers (fst (snd (handleSchemaSync H p c))) = timers c" for p
    by (auto simp: handleSchemaSync_def split: prod.split sum.split)
  have after: "timers_ok d \<Longrightarrow> timers_ok (fst (handle_with h m d))" for h m d
    by (rule ok_same [OF timers_steps(4)])
  show ?thesis
  proof (cases msg)
    case (InObject name ps)
    have ok': "timers_ok d" if "handleOkResponse ps c = (b, d)" for b d using ok [of ps] that by simp
    have err': "timers_ok d" if "handleErrorResponse ps c = (b, d)" for b d using err [of ps] that by simp
    have tok: "timers_ok d \<Longrightarrow> timers_ok (fst (handleTokenExpired d))" for d
      by (rule ok_same [OF timers_steps(7)])
    have pd: "timers_ok (c\<lparr>cm_pendingDisconnectError := e\<rparr>)" for e by (rule ok_same [OF timers_fields(12) assms])
    have sync': "timers_ok (fst (snd (handleSchemaSync H p c)))" for p by (rule ok_same [OF sync assms])
    consider "name = ''SchemaSync''" | "name = ''ok''" | "name = ''error''" | "name = ''ServerDisconnect''"
      | "name \<notin> {''SchemaSync'', ''ok'', ''error'', ''ServerDisconnect''}" by blast
    then show ?thesis
    proof cases
      case 1
      then show ?thesis unfolding InObject
        by (cases "schema_message ps") (simp_all add: dispatchInbound_def assms sync')
    next
      case 2
      obtain b d where h: "handleOkResponse ps c = (b, d)" by (cases "handleOkResponse ps c")
      show ?thesis using 2 after [OF ok' [OF h]] ok' [OF h] unfolding InObject
        by (cases b) (simp_all add: dispatchInbound_def h)
    next
      case 3
      obtain b d where h: "handleErrorResponse ps c = (b, d)" by (cases "handleErrorResponse ps c")
      show ?thesis using 3 after [OF err' [OF h]] after [OF tok [OF err' [OF h]]] err' [OF h] unfolding InObject
        by (cases b) (simp_all add: dispatchInbound_def h)
    next
      case 4
      then show ?thesis using after [OF pd] unfolding InObject by (simp add: dispatchInbound_def)
    next
      case 5
      then show ?thesis using after [OF assms] unfolding InObject by (simp add: dispatchInbound_def)
    qed
  qed (simp_all add: dispatchInbound_def after assms)
qed

lemma process_timers_ok:
  assumes "timers_ok c"
  shows "timers_ok (fst (processInbound H k c))"
proof -
  have put: "timers_ok (d\<lparr>cm_chains := x\<rparr>)" if "timers_ok d" for d x by (rule ok_same [OF _ that]) simp
  consider "cm_chains c ! k = []" | frames where "cm_chains c ! k = [] # frames"
    | raw raws frames where "cm_chains c ! k = (raw # raws) # frames"
    by (metis list.exhaust)
  then show ?thesis
  proof cases
    case (3 raw raws frames)
    show ?thesis
    proof (cases "decodeMessage (cm_dict c) raw")
      case (Some msg)
      obtain b r where i: "dispatchInbound H msg c = (b, r)" by (cases "dispatchInbound H msg c")
      have "timers_ok (fst r)" using inbound_timers_ok [OF assms, of H msg] i by simp
      then show ?thesis using 3 Some i put by (cases b) (simp_all add: processInbound_def Let_def)
    qed (use 3 put [OF assms] in \<open>simp add: processInbound_def\<close>)
  qed (use put [OF assms] assms in \<open>simp_all add: processInbound_def\<close>)
qed

lemma call_settled_timers_ok:
  assumes "timers_ok c"
  shows "timers_ok (fst (call_settled rnd c))"
proof -
  have api: "timers_ok d \<Longrightarrow> timers_ok (fst (api_answer who r rnd d))" for who r d
  proof -
    assume d: "timers_ok d"
    have "timers_ok (fst (handleHandshakeFailure err k rnd d))" for err k
      using keeps_held [OF held_handshake_failure] d by (auto simp: keeps_def)
    moreover have "timers_ok (fst (emit ev d))" "timers_ok (d\<lparr>cm_refreshInFlight := False\<rparr>)"
      "timers_ok ((fst (emit ev d))\<lparr>cm_refreshInFlight := False\<rparr>)" for ev
      by (rule ok_same [OF _ d], simp)+
    ultimately show ?thesis using d by (cases who; cases r) (simp_all add: api_answer_def)
  qed
  have complete: "timers_ok d \<Longrightarrow> timers_ok (fst (handshake_complete i d))" for i d
    by (simp add: handshake_complete_def setStatus_def emit_def timers_ok_def max_attempts_def)
  have store: "timers_ok d \<Longrightarrow> timers_ok (fst (store_namespace_set ns who r rnd d))" for ns who r d
  proof -
    assume d: "timers_ok d"
    have "timers_ok (d\<lparr>cm_storeNamespace := ns\<rparr>)" "timers_ok (fst (conn_setPresenceNamespace p who (d\<lparr>cm_storeNamespace := ns\<rparr>)))" for p
      by (rule ok_same [OF _ d], simp add: conn_setPresenceNamespace_def)+
    then show ?thesis using d api by (cases r; cases who) (simp_all add: store_namespace_set_def Let_def)
  qed
  have presence: "timers_ok d \<Longrightarrow> timers_ok (fst (presence_namespace_set ns who r rnd d))" for ns who r d
  proof -
    assume d: "timers_ok d"
    have "timers_ok (d\<lparr>cm_presenceNamespace := ns\<rparr>)" by (rule ok_same [OF _ d]) simp
    then show ?thesis using d api complete
      by (auto simp: presence_namespace_set_def split: sum.split requester.split)
  qed
  have "timers_ok (c\<lparr>cm_done := x\<rparr>)" for x by (rule ok_same [OF _ assms]) simp
  then show ?thesis using assms api store presence
    by (auto simp: call_settled_def Let_def split: list.split prod.split call_purpose.split)
qed

lemma step_timers_ok:
  assumes "timers_ok c"
  shows "timers_ok (fst (conn_step H ev c))"
proof (cases ev)
  case (ConnClosed i code reason rnd)
  have d: "timers_ok (put_sock i so c)" for so by (rule ok_same [OF _ assms]) simp
  then have "timers_ok (fst (handleSocketClose code reason rnd (put_sock i so c)))" for so
    using keeps_held [OF held_close] by (auto simp: keeps_def)
  then show ?thesis using d ConnClosed by (simp add: Let_def)
next
  case (ConnTicket k r rnd)
  then show ?thesis using keeps_held [OF held_ticket] assms by (auto simp: keeps_def)
next
  case (ConnOpened i rnd)
  define d where "d = startLiveness rnd (put_sock i ((sock i c)\<lparr>so_state := SockOpen\<rparr>) c)"
  have "timers_ok d" unfolding d_def by (intro start_timers_ok ok_same [OF _ assms]) simp
  then have "timers_ok (fst (socket_opened i rnd c))"
    by (rule ok_same [rotated]) (simp add: socket_opened_def Let_def conn_setStoreNamespace_def d_def)
  then show ?thesis using ConnOpened by simp
next
  case ConnReconnectTimer
  then show ?thesis using connect_timers_ok [of "c\<lparr>cm_reconnectTimer := None\<rparr>"] timers_ok_attempt [OF assms]
    by (simp add: max_attempts_def)
next
  case ConnCall
  then show ?thesis using connect_timers_ok timers_ok_attempt [OF assms] by simp
next
  case (ConnToken r rnd)
  have "timers (fst (token_provided r rnd c)) = timers c"
    by (cases r) (simp_all add: token_provided_def Let_def api_answer_def conn_authRefresh_def)
  then show ?thesis using ConnToken ok_same assms by simp
qed (use assms disconnect_timers_ok liveness_timers_ok process_timers_ok call_settled_timers_ok in
    \<open>auto simp: conn_setStoreNamespace_def conn_setPresenceNamespace_def conn_authRefresh_def intro: ok_same [OF _ assms]\<close>)

end
