(* ===== verification/Spec2Isabelle.thy ===== *)
theory Spec2Isabelle
  imports Requests ConnWireSpec PresenceRuns SubscriptionRuns StoreRuns ConnectionSafety
begin

text \<open>
  A verification library for the TypeScript client of ZyncBase (\<open>src/sdk/typescript/src\<close>): the
  part of the system that turns an application's reads and writes into wire messages, keeps
  subscriptions and presence up to date from what the server pushes, and survives lost
  connections.

  The parts of the program and the theories that model them.

  Values and paths. \<open>JsValue\<close> has the JavaScript values, numbers and property lists that the
  rest uses; \<open>Prelude\<close> the error sum, insertion-ordered maps (the \<open>Map\<close> of the code) and the
  lemma collections. \<open>Paths\<close> is \<open>path.ts\<close> (\<open>flatten\<close>, \<open>unflatten\<close>, \<open>normalizePath\<close>,
  \<open>setDeepProperty\<close>, \<open>getDeepProperty\<close>), \<open>Errors\<close> is \<open>errors.ts\<close>: a thrown value is a
  constructor of \<open>thrown\<close>, a call that can throw returns \<open>thrown + 'a\<close>.

  Document ids. \<open>Digits\<close>, \<open>DocId\<close>, \<open>DocIdProofs\<close> and \<open>DocIdSpec\<close> model \<open>doc_id.ts\<close> with its
  three module-level caches as a state that every function takes and returns; bytes are 8-bit
  words. Shown: packing and unpacking are inverse, the caches never change an answer and stay
  within 4096 entries, and \<open>compareDocIds\<close> is the order of the packed bytes, hence total.
  \<open>Uuid\<close> is \<open>uuid.ts\<close>, its clock and random bytes arguments.

  Schema. \<open>Schema\<close> and \<open>SchemaSpec\<close> model \<open>schema_dictionary.ts\<close>: the record \<open>dict\<close> has the
  fields of the class. Shown: a SchemaSync rebuilds every map or leaves the dictionary as it
  was, and records, paths and sparse field arrays survive encoding and decoding.

  Messages. \<open>StoreWire\<close> and \<open>StoreWireSpec\<close> are \<open>store_wire.ts\<close>, the builders of requests
  from queries; \<open>ConnWire\<close> and \<open>ConnWireSpec\<close> are \<open>connection_wire.ts\<close>, between those and the
  values that the MessagePack library reads and writes. Shown: a batch carries what its single
  operations would send, an encoded query names the fields it was given, and a record written
  with \<open>set\<close> comes back unchanged as a delta, through builder, codec and schema.

  Ordering. \<open>TextOrder\<close>, \<open>SortOrder\<close> and \<open>Comparator\<close> model the comparators of \<open>store.ts\<close>.
  Shown: \<open>compareUtf8\<close> is the order of the code points and the comparator of a collection is a
  total preorder on typed records that follows exactly the clauses sent to the server.

  Subscriptions. \<open>Subscriptions\<close>, \<open>SubscriptionsSpec\<close> and \<open>SubscriptionRuns\<close> model
  \<open>subscriptions.ts\<close>: the tracker's state is a record, a frame callback is a step, the calls of
  consumers are a list of effects. Shown in every run: the invariants of the tracker, that a
  flush applies all pending deltas in order and delivers the sorted view, that deltas queued
  while disconnected count as if they arrived after the reconnect, and that the shown array
  does not depend on the order of arrival.

  Presence. \<open>Presence\<close>, \<open>PresenceSpec\<close> and \<open>PresenceRuns\<close> model \<open>presence.ts\<close> as a step
  machine whose events are the calls of the API, the throttle timer, the answers of the server
  and broadcasts. Shown: the cache with its swap-remove is a map of users, the promises of
  \<open>set\<close> are conserved, throttled data is sent, merges lose nothing, and stale answers change
  nothing a consumer sees.

  Store. \<open>StoreCore\<close> and \<open>StoreRuns\<close> model the state of \<open>store.ts\<close>: keyed registrations,
  consumers, establishments that wait for readiness, writes and their commits. Shown: every
  registration that is not settled has exactly one establishment under way, so none is stranded.

  Requests and connection. \<open>Requests\<close> is \<open>retry_policy.ts\<close> and \<open>pending_requests.ts\<close>.
  \<open>Connection\<close>, \<open>ConnectionRuns\<close> and \<open>ConnectionSafety\<close> model \<open>connection.ts\<close>: the record
  \<open>conn\<close> has the manager's fields, the sockets it made, and the queues of calls that await a
  request, sleep before a retry or are settled; \<open>conn_step\<close> is one call of the API, one event of
  the host or one microtask. Shown: no call is lost, see the property texts.

  How the parts meet. The builders of \<open>StoreWire\<close> produce the \<open>store_message\<close> that \<open>ConnWire\<close>
  encodes; \<open>Connection\<close> sends the result, keeps the codec's context with the request and
  decodes the answer with it; a \<open>StoreDelta\<close> that \<open>ConnWire\<close> decodes is what the tracker
  dispatches; the store machine calls the tracker's operations directly.

  Promises, timers and time. A promise is a number; the order of settlings is kept as a log or a
  list of effects. A continuation of a promise is an event of its own, which the machines allow
  only when it is due. No fuel is used: every loop of the code that is modelled runs over a list
  or a number that gets smaller. Clocks, random numbers, hashes and tickets are arguments.

  Not modelled. Numbers are exact rationals, so floating-point rounding is not; text is 8-bit
  except in \<open>TextOrder\<close>. MessagePack, \<open>fetch\<close>, \<open>WebSocket\<close> and \<open>localStorage\<close> are outside, with
  \<open>auth.ts\<close> and \<open>anonymous.ts\<close>, which only drive them. A consumer or event handler that calls
  back into the client while it runs is not modelled. Of \<open>client.ts\<close> only the delta dispatch and the
  replay of snapshots are: the rest wires the parts together. \<open>actions.ts\<close> awaits a model.
  The type generator, the example application, the tests and the server in Zig and C++ are not
  part of the client.
\<close>

end
